(* ===== verification/Prelude.thy ===== *)
theory Prelude
  imports Complex_Main "HOL-Library.List_Lexorder" "HOL-Library.Char_ord" "HOL-Library.Sublist"
begin

text \<open>
  What every component of the platform shares: Go's instants and durations, Go's error values
  with the unwrapping that \<open>errors.Is\<close> and \<open>errors.As\<close> perform, and the functions of
  the \<open>strings\<close> package the services call.

  A Go string is a sequence of bytes, and so is \<^typ>\<open>string\<close> here: \<open>length\<close> is Go's
  \<open>len\<close>, and the order of \<open>List_Lexorder\<close> over \<open>Char_ord\<close> is Go's bytewise \<open><\<close>.
\<close>

named_theorems go_defs \<open>definitions of the Go standard library's helpers, for unfolding\<close>

section \<open>Time\<close>

text \<open>
  An instant is its number of nanoseconds on an unbounded line; a duration is Go's signed 64-bit
  count of nanoseconds. \<open>Time.Sub\<close> saturates at the ends of that range instead of wrapping.
\<close>

type_synonym time = int
type_synonym duration = int

definition maxDuration :: duration where
  "maxDuration = 2 ^ 63 - 1"

definition minDuration :: duration where
  "minDuration = - (2 ^ 63)"

definition time_Sub :: "time \<Rightarrow> time \<Rightarrow> duration" where
  [go_defs]: "time_Sub t u = max minDuration (min maxDuration (t - u))"

text \<open>The zero \<open>time.Time{}\<close> is 1 January of year 1, in nanoseconds from the Unix epoch.\<close>

definition zeroTime :: time where
  "zeroTime = -62135596800000000000"

abbreviation Millisecond :: duration where "Millisecond \<equiv> 1000000"
abbreviation Second :: duration where "Second \<equiv> 1000000000"
abbreviation Minute :: duration where "Minute \<equiv> 60000000000"

lemma time_Sub_ge: "0 \<le> d \<Longrightarrow> d \<le> maxDuration \<Longrightarrow> (d \<le> time_Sub t u) = (d \<le> t - u)"
  by (auto simp: time_Sub_def maxDuration_def minDuration_def)

lemma time_Sub_mono: "t \<le> t' \<Longrightarrow> time_Sub t u \<le> time_Sub t' u"
  by (auto simp: time_Sub_def)

lemma time_Sub_pos: "(0 < time_Sub t u) = (u < t)"
  by (auto simp: time_Sub_def maxDuration_def minDuration_def)

lemma time_Sub_exact: "minDuration \<le> t - u \<Longrightarrow> t - u \<le> maxDuration \<Longrightarrow> time_Sub t u = t - u"
  by (simp add: time_Sub_def)

lemma time_Sub_le: "u \<le> t \<Longrightarrow> time_Sub t u \<le> t - u"
  by (auto simp: time_Sub_def maxDuration_def minDuration_def)

section \<open>Errors\<close>

text \<open>
  \<open>ErrVar v s\<close> is the package-level sentinel \<open>v\<close>, made by \<open>errors.New s\<close>: two sentinels are
  the same error only if they are the same variable. \<open>ErrText s\<close> is an error made on the fly.
  \<open>Wrapf p e q\<close> is \<open>fmt.Errorf\<close> with one \<open>%w\<close>, whose message is \<open>p\<close>, the message of \<open>e\<close>, \<open>q\<close>.
  \<open>Permanent\<close> is \<open>resilience.Permanent\<close>; \<open>PgError\<close>, with its code, its message and the text it
  prints, and \<open>ConnectError\<close>, with the text it prints, are the two driver errors that \<open>redact\<close>
  looks for.
\<close>

datatype go_error =
    ErrVar string string
  | ErrText string
  | Permanent go_error
  | Wrapf string go_error string
  | PgError string string string
  | ConnectError string

fun Error :: "go_error \<Rightarrow> string" where
  "Error (ErrVar v s) = s"
| "Error (ErrText s) = s"
| "Error (Permanent e) = Error e"
| "Error (Wrapf p e q) = p @ Error e @ q"
| "Error (PgError c m t) = t"
| "Error (ConnectError m) = m"

fun errors_Is :: "go_error \<Rightarrow> go_error \<Rightarrow> bool" where
  "errors_Is (Permanent e) t = (Permanent e = t \<or> errors_Is e t)"
| "errors_Is (Wrapf p e q) t = (Wrapf p e q = t \<or> errors_Is e t)"
| "errors_Is e t = (e = t)"

text \<open>\<open>errors.As (err, &permanent)\<close>: the error inside the outermost \<open>Permanent\<close> of the chain.\<close>

fun errors_As_Permanent :: "go_error \<Rightarrow> go_error option" where
  "errors_As_Permanent (Permanent e) = Some e"
| "errors_As_Permanent (Wrapf p e q) = errors_As_Permanent e"
| "errors_As_Permanent _ = None"

definition Canceled :: go_error where
  "Canceled = ErrVar ''context.Canceled'' ''context canceled''"

definition DeadlineExceeded :: go_error where
  "DeadlineExceeded = ErrVar ''context.DeadlineExceeded'' ''context deadline exceeded''"

lemma errors_Is_refl [simp, intro]: "errors_Is e e"
  by (cases e) auto

lemma errors_Is_Wrapf: "errors_Is e t \<Longrightarrow> errors_Is (Wrapf p e q) t"
  by simp

section \<open>Strings\<close>

text \<open>
  \<open>unicode.IsSpace\<close>, as the UTF-8 encodings of the code points it accepts. \<open>strip_seqs\<close> drops
  such encodings from the front of a string; its \<open>nat\<close> argument bounds the number of drops, and
  the length of the string is always enough (\<open>strip_seqs_done\<close>).
\<close>

definition go_spaces :: "string list" where
  "go_spaces = [[CHR 0x09], [CHR 0x0A], [CHR 0x0B], [CHR 0x0C], [CHR 0x0D], [CHR 0x20],
     [CHR 0xC2, CHR 0x85], [CHR 0xC2, CHR 0xA0], [CHR 0xE1, CHR 0x9A, CHR 0x80]]
     @ map (\<lambda>b. [CHR 0xE2, CHR 0x80, b])
         [CHR 0x80, CHR 0x81, CHR 0x82, CHR 0x83, CHR 0x84, CHR 0x85, CHR 0x86, CHR 0x87,
          CHR 0x88, CHR 0x89, CHR 0x8A, CHR 0xA8, CHR 0xA9, CHR 0xAF]
     @ [[CHR 0xE2, CHR 0x81, CHR 0x9F], [CHR 0xE3, CHR 0x80, CHR 0x80]]"

fun strip_seqs :: "string list \<Rightarrow> nat \<Rightarrow> string \<Rightarrow> string" where
  "strip_seqs ps 0 s = s"
| "strip_seqs ps (Suc n) s =
     (case find (\<lambda>p. prefix p s) ps of
        None \<Rightarrow> s
      | Some p \<Rightarrow> strip_seqs ps n (drop (length p) s))"

definition TrimLeftSpace :: "string \<Rightarrow> string" where
  "TrimLeftSpace s = strip_seqs go_spaces (length s) s"

definition TrimRightSpace :: "string \<Rightarrow> string" where
  "TrimRightSpace s = rev (strip_seqs (map rev go_spaces) (length s) (rev s))"

definition TrimSpace :: "string \<Rightarrow> string" where
  "TrimSpace s = TrimRightSpace (TrimLeftSpace s)"

text \<open>
  \<open>strings.ToLower\<close> maps the bytes of an ASCII string one by one. For any other string it maps
  Unicode code points by the tables of the \<open>unicode\<close> package; that part is the argument \<open>uni\<close>.
\<close>

definition isASCII :: "string \<Rightarrow> bool" where
  "isASCII s = list_all (\<lambda>c. (of_char c :: nat) < 128) s"

definition ascii_lower :: "char \<Rightarrow> char" where
  "ascii_lower c =
     (if 65 \<le> (of_char c :: nat) \<and> (of_char c :: nat) \<le> 90 then char_of (of_char c + 32 :: nat) else c)"

definition ToLower :: "(string \<Rightarrow> string) \<Rightarrow> string \<Rightarrow> string" where
  "ToLower uni s = (if isASCII s then map ascii_lower s else uni s)"

text \<open>\<open>strings.Split\<close> and \<open>strings.Cut\<close> for a separator of one byte.\<close>

fun Split :: "char \<Rightarrow> string \<Rightarrow> string list" where
  "Split c [] = [[]]"
| "Split c (x # xs) =
     (if x = c then [] # Split c xs
      else (case Split c xs of [] \<Rightarrow> [[x]] | y # ys \<Rightarrow> (x # y) # ys))"

fun Cut :: "char \<Rightarrow> string \<Rightarrow> string \<times> string \<times> bool" where
  "Cut c [] = ([], [], False)"
| "Cut c (x # xs) =
     (if x = c then ([], xs, True)
      else (case Cut c xs of (a, b, ok) \<Rightarrow> (x # a, b, ok)))"

definition CutPrefix :: "string \<Rightarrow> string \<Rightarrow> string \<times> bool" where
  "CutPrefix s p = (if prefix p s then (drop (length p) s, True) else (s, False))"

definition TrimPrefix :: "string \<Rightarrow> string \<Rightarrow> string" where
  "TrimPrefix s p = fst (CutPrefix s p)"

subsection \<open>Trimming\<close>

lemma go_spaces_nonempty: "[] \<notin> set go_spaces"
  by (simp add: go_spaces_def)

lemma strip_seqs_suffix: "suffix (strip_seqs ps n s) s"
proof (induction ps n s rule: strip_seqs.induct)
  case (2 ps n s)
  then show ?case by (auto split: option.splits intro: suffix_order.trans suffix_drop)
qed simp

lemma strip_seqs_id: "find (\<lambda>p. prefix p s) ps = None \<Longrightarrow> strip_seqs ps n s = s"
  by (cases n) auto

lemma strip_seqs_done:
  "[] \<notin> set ps \<Longrightarrow> length s \<le> n \<Longrightarrow> p \<in> set ps \<Longrightarrow> \<not> prefix p (strip_seqs ps n s)"
proof (induction ps n s rule: strip_seqs.induct)
  case (1 ps s)
  then show ?case by (cases s) (auto simp: prefix_def)
next
  case (2 ps n s)
  show ?case
  proof (cases "find (\<lambda>p. prefix p s) ps")
    case None
    then have "\<not> prefix p s" using "2.prems" by (auto simp: find_None_iff)
    with None show ?thesis by simp
  next
    case (Some q)
    then have "q \<in> set ps" by (auto simp: find_Some_iff)
    with "2.prems" have "length (drop (length q) s) \<le> n" by (cases q) auto
    with "2.IH" [OF Some] "2.prems" Some show ?thesis by simp
  qed
qed

lemma TrimLeftSpace_done: "p \<in> set go_spaces \<Longrightarrow> \<not> prefix p (TrimLeftSpace s)"
  unfolding TrimLeftSpace_def by (rule strip_seqs_done) (simp_all add: go_spaces_nonempty)

lemma TrimLeftSpace_id: "(\<And>p. p \<in> set go_spaces \<Longrightarrow> \<not> prefix p s) \<Longrightarrow> TrimLeftSpace s = s"
  unfolding TrimLeftSpace_def by (rule strip_seqs_id) (simp add: find_None_iff)

lemma TrimRightSpace_prefix: "prefix (TrimRightSpace s) s"
  using strip_seqs_suffix [of "map rev go_spaces" "length s" "rev s"]
  by (simp add: TrimRightSpace_def suffix_to_prefix)

lemma TrimRightSpace_idem [simp]: "TrimRightSpace (TrimRightSpace s) = TrimRightSpace s"
proof -
  let ?u = "strip_seqs (map rev go_spaces) (length s) (rev s)"
  have "\<not> prefix p ?u" if "p \<in> set (map rev go_spaces)" for p
    using that by (intro strip_seqs_done) (auto simp: go_spaces_nonempty)
  then have "strip_seqs (map rev go_spaces) (length (rev ?u)) ?u = ?u"
    by (intro strip_seqs_id) (simp add: find_None_iff)
  then show ?thesis by (simp add: TrimRightSpace_def)
qed

theorem TrimSpace_idem [simp]: "TrimSpace (TrimSpace s) = TrimSpace s"
proof -
  have "TrimLeftSpace (TrimSpace s) = TrimSpace s"
    using TrimLeftSpace_done [of _ s] prefix_order.trans TrimRightSpace_prefix
    by (intro TrimLeftSpace_id) (fastforce simp: TrimSpace_def)
  then show ?thesis by (simp add: TrimSpace_def)
qed

lemma TrimSpace_Nil [simp]: "TrimSpace [] = []"
  by (simp add: TrimSpace_def TrimLeftSpace_def TrimRightSpace_def)

lemma set_TrimSpace: "set (TrimSpace s) \<subseteq> set s"
  using set_mono_prefix [OF TrimRightSpace_prefix, of "TrimLeftSpace s"]
    set_mono_suffix [OF strip_seqs_suffix, of go_spaces "length s" s]
  by (auto simp: TrimSpace_def TrimLeftSpace_def)

lemma length_TrimSpace: "length (TrimSpace s) \<le> length s"
  using prefix_length_le [OF TrimRightSpace_prefix, of "TrimLeftSpace s"]
    suffix_length_le [OF strip_seqs_suffix, of go_spaces "length s" s]
  by (simp add: TrimSpace_def TrimLeftSpace_def)

subsection \<open>Splitting\<close>

lemma Split_nonempty [simp]: "Split c s \<noteq> []"
  by (induction c s rule: Split.induct) (auto split: list.splits)

lemma Split_no_sep: "c \<notin> set s \<Longrightarrow> Split c s = [s]"
  by (induction s) auto

lemma Split_append_sep: "c \<notin> set s \<Longrightarrow> Split c (s @ c # t) = s # Split c t"
  by (induction s) auto

lemma Split_parts: "p \<in> set (Split c s) \<Longrightarrow> c \<notin> set p"
  by (induction c s arbitrary: p rule: Split.induct) (auto split: list.splits if_splits)

lemma Cut_append_sep: "c \<notin> set s \<Longrightarrow> Cut c (s @ c # t) = (s, t, True)"
  by (induction s) auto

lemma Cut_no_sep: "c \<notin> set s \<Longrightarrow> Cut c s = (s, [], False)"
  by (induction s) auto

lemma Cut_found: "Cut c s = (a, b, True) \<Longrightarrow> s = a @ c # b \<and> c \<notin> set a"
  by (induction s arbitrary: a b) (auto split: if_splits prod.splits)

subsection \<open>Lower case\<close>

lemma ascii_lower_ascii: "(of_char c :: nat) < 128 \<Longrightarrow> (of_char (ascii_lower c) :: nat) < 128"
  by (auto simp: ascii_lower_def)

lemma ascii_lower_idem [simp]: "ascii_lower (ascii_lower c) = ascii_lower c"
  by (auto simp: ascii_lower_def)

lemma ToLower_idem_ascii: "isASCII s \<Longrightarrow> ToLower uni (ToLower uni s) = ToLower uni s"
  by (auto simp: ToLower_def isASCII_def list_all_iff ascii_lower_ascii)

lemma ToLower_Nil [simp]: "ToLower uni [] = []"
  by (simp add: ToLower_def isASCII_def)

section \<open>Runs that keep an invariant\<close>

text \<open>
  A component with state is a function from a state and a call to the next state. Once every
  call is known to keep an invariant, so does every sequence of calls; each component interprets
  this locale on its own step function.
\<close>

locale stepping =
  fixes step :: "'s \<Rightarrow> 'e \<Rightarrow> 's" and good :: "'s \<Rightarrow> bool"
  assumes good_step: "good s \<Longrightarrow> good (step s e)"
begin

lemma good_run: "good s \<Longrightarrow> good (foldl step s es)"
  by (induction es arbitrary: s) (auto intro: good_step)

end

text \<open>The same for a preorder between the states before and after: what a run can do to a state.\<close>

locale progressing =
  fixes step :: "'s \<Rightarrow> 'e \<Rightarrow> 's" and rel :: "'s \<Rightarrow> 's \<Rightarrow> bool"
  assumes rel_refl: "rel s s"
    and rel_trans: "rel s t \<Longrightarrow> rel t u \<Longrightarrow> rel s u"
    and rel_step: "rel s (step s e)"
begin

lemma rel_run: "rel s (foldl step s es)"
  by (induction es arbitrary: s) (auto intro: rel_refl rel_trans rel_step)

end

end
