(* ===== verification/Float64.thy ===== *)
theory Float64
  imports Prelude "HOL-Library.Log_Nat"
begin

text \<open>
  IEEE-754 binary64 arithmetic as Go's \<open>float64\<close> performs it: a value is the rational number it
  denotes, and every operation is the exact operation followed by \<open>rnd64\<close>, rounding to nearest
  with ties to even, subnormal range included. The model covers finite values, as the
  quantities of the Go services are: infinities, NaN and overflow past \<open>2 ^ 1024\<close> are added in \<open>Ieee\<close>.

  Everything the components need of rounding is that it is monotone and leaves representable
  numbers alone. That contract is the locale \<open>rounding\<close>, and \<open>rnd64\<close> is its instance.
\<close>

section \<open>Definitions\<close>

definition round_even :: "rat \<Rightarrow> int" where
  "round_even x =
     (let k = \<lfloor>x\<rfloor>; f = x - of_int k
      in if f < 1/2 then k else if 1/2 < f then k + 1
         else if even k then k else k + 1)"

text \<open>The exponent of the last of the 53 bits of a positive number, and the same bounded below by
  the exponent of the subnormal numbers.\<close>

definition expo :: "rat \<Rightarrow> int" where
  "expo x = (let (p, q) = quotient_of x; k = bitlen p - bitlen q
             in (if x < 2 powi k then k - 1 else k) - 52)"

definition ulp_exp :: "rat \<Rightarrow> int" where
  "ulp_exp x = max (-1074) (expo x)"

definition rnd64 :: "rat \<Rightarrow> rat" where
  "rnd64 x =
     (if x = 0 then 0 else
      let e = ulp_exp \<bar>x\<bar>
      in sgn x * of_int (round_even (\<bar>x\<bar> / 2 powi e)) * 2 powi e)"

definition representable :: "rat \<Rightarrow> bool" where
  "representable x \<longleftrightarrow> (\<exists>m e. x = of_int m * 2 powi e \<and> \<bar>m\<bar> \<le> 2 ^ 53 \<and> -1074 \<le> e)"

text \<open>Conversions between integers and floats: \<open>float64(n)\<close> rounds, and the conversion of a float
  to an integer type drops the fraction.\<close>

definition float64_of_int :: "int \<Rightarrow> rat" where
  "float64_of_int n = rnd64 (of_int n)"

definition trunc64 :: "rat \<Rightarrow> int" where
  "trunc64 x = (if 0 \<le> x then \<lfloor>x\<rfloor> else \<lceil>x\<rceil>)"

text \<open>
  The conversion of a float to a 64-bit integer truncates; out of range it gives the smallest integer, as
  the instruction of amd64 does.
\<close>

definition int64_of :: "rat \<Rightarrow> int" where
  "int64_of x = (let n = trunc64 x in if - (2 ^ 63) \<le> n \<and> n < 2 ^ 63 then n else - (2 ^ 63))"

text \<open>\<open>Duration.Seconds\<close>: whole seconds and the rest are converted separately; Go's integer division
  truncates towards zero.\<close>

definition quot0 :: "int \<Rightarrow> int \<Rightarrow> int" where
  "quot0 a b = (if 0 \<le> a then a div b else - ((- a) div b))"

definition Seconds :: "duration \<Rightarrow> rat" where
  "Seconds d =
     (let sec = quot0 d Second; nsec = d - Second * quot0 d Second
      in rnd64 (float64_of_int sec + rnd64 (float64_of_int nsec / 1000000000)))"

section \<open>The contract of rounding\<close>

locale rounding =
  fixes rnd :: "rat \<Rightarrow> rat" and repr :: "rat \<Rightarrow> bool"
  assumes rnd_mono: "x \<le> y \<Longrightarrow> rnd x \<le> rnd y"
    and rnd_repr: "repr x \<Longrightarrow> rnd x = x"
    and repr_rnd: "repr (rnd x)"
    and repr_zero: "repr 0"
begin

lemma rnd_le: "repr y \<Longrightarrow> x \<le> y \<Longrightarrow> rnd x \<le> y"
  using rnd_mono [of x y] rnd_repr [of y] by simp

lemma rnd_ge: "repr y \<Longrightarrow> y \<le> x \<Longrightarrow> y \<le> rnd x"
  using rnd_mono [of y x] rnd_repr [of y] by simp

lemma rnd_nonneg: "0 \<le> x \<Longrightarrow> 0 \<le> rnd x"
  by (rule rnd_ge [OF repr_zero])

lemma rnd_idem: "rnd (rnd x) = rnd x"
  by (rule rnd_repr [OF repr_rnd])

lemma rnd_add_ge: "repr x \<Longrightarrow> 0 \<le> y \<Longrightarrow> x \<le> rnd (x + y)"
  by (rule rnd_ge) simp_all

lemma rnd_diff_le: "repr x \<Longrightarrow> 0 \<le> y \<Longrightarrow> rnd (x - y) \<le> x"
  by (rule rnd_le) simp_all

lemma rnd_scale_le: "repr x \<Longrightarrow> 0 \<le> x \<Longrightarrow> 0 \<le> u \<Longrightarrow> u \<le> 1 \<Longrightarrow> rnd (x * u) \<le> x"
  by (rule rnd_le) (simp_all add: mult_left_le)

end

section \<open>Rounding to nearest even meets the contract\<close>

subsection \<open>Integer rounding\<close>

lemma round_even_of_int [simp]: "round_even (of_int k) = k"
  by (simp add: round_even_def)

lemma round_even_bounds: "of_int (round_even x) \<le> x + 1/2" "x \<le> of_int (round_even x) + 1/2"
  by (auto simp: round_even_def Let_def) linarith+

lemma round_even_mono: assumes "x \<le> y" shows "round_even x \<le> round_even y"
proof (cases "\<lfloor>x\<rfloor> = \<lfloor>y\<rfloor>")
  case True
  with assms show ?thesis by (auto simp: round_even_def Let_def)
next
  case False
  with assms have "\<lfloor>x\<rfloor> + 1 \<le> \<lfloor>y\<rfloor>" using floor_mono [OF assms] by linarith
  then show ?thesis by (auto simp: round_even_def Let_def)
qed

lemma round_even_le_int: "x \<le> of_int k \<Longrightarrow> round_even x \<le> k"
  using round_even_mono [of x "of_int k"] by simp

lemma round_even_ge_int: "of_int k \<le> x \<Longrightarrow> k \<le> round_even x"
  using round_even_mono [of "of_int k" x] by simp

subsection \<open>The exponent\<close>

lemma bitlen_powi:
  assumes "0 < p"
  shows "2 powi (bitlen p - 1) \<le> (of_int p :: rat)" and "(of_int p :: rat) < 2 powi bitlen p"
proof -
  from assms have *: "2 ^ nat (bitlen p - 1) \<le> p" "p < 2 ^ nat (bitlen p)"
    using bitlen_bounds by blast+
  from assms have "1 \<le> bitlen p" using bitlen_nonneg [of p] bitlen_eq_zero_iff [of p] by linarith
  then have nn: "0 \<le> bitlen p - 1" "0 \<le> bitlen p" by auto
  from * have "(2::rat) ^ nat (bitlen p - 1) \<le> of_int p" "of_int p < (2::rat) ^ nat (bitlen p)"
    by (metis of_int_le_iff of_int_numeral of_int_power, metis of_int_less_iff of_int_numeral of_int_power)
  with nn show "2 powi (bitlen p - 1) \<le> (of_int p :: rat)" "(of_int p :: rat) < 2 powi bitlen p"
    by (simp_all add: power_int_def)
qed

lemma expo_bounds:
  assumes "0 < x"
  shows "2 ^ 52 * 2 powi expo x \<le> x" and "x < 2 ^ 53 * 2 powi expo x"
proof -
  obtain p q where pq: "quotient_of x = (p, q)" by fastforce
  from pq have q: "0 < q" by (rule quotient_of_denom_pos)
  from pq have x: "x = of_int p / of_int q" by (rule quotient_of_div)
  from assms x q have p: "0 < p" by (simp add: zero_less_divide_iff)
  define k where "k = bitlen p - bitlen q"
  have lo: "2 powi (k - 1) < x"
  proof -
    have "2 powi (k - 1) * (of_int q::rat) < 2 powi (k - 1) * 2 powi bitlen q"
      using bitlen_powi(2) [OF q] by simp
    also have "\<dots> = 2 powi (bitlen p - 1)"
      by (simp add: k_def flip: power_int_add)
    also have "\<dots> \<le> of_int p" using bitlen_powi(1) [OF p] .
    finally show ?thesis using q by (simp add: x pos_less_divide_eq)
  qed
  have hi: "x < 2 powi (k + 1)"
  proof -
    have "of_int p < (2::rat) powi bitlen p" using bitlen_powi(2) [OF p] .
    also have "\<dots> = 2 powi (k + 1) * 2 powi (bitlen q - 1)"
      by (simp add: k_def flip: power_int_add)
    also have "\<dots> \<le> 2 powi (k + 1) * of_int q"
      using bitlen_powi(1) [OF q] by simp
    finally show ?thesis using q by (simp add: x pos_divide_less_eq)
  qed
  have e: "expo x = (if x < 2 powi k then k - 1 else k) - 52"
    by (simp add: expo_def pq k_def)
  have s: "2 ^ 52 * 2 powi expo x = (2::rat) powi (expo x + 52)"
    "2 ^ 53 * 2 powi expo x = (2::rat) powi (expo x + 53)"
    using power_int_add [of "2::rat" "expo x" 52] power_int_add [of "2::rat" "expo x" 53]
    by simp_all
  show "2 ^ 52 * 2 powi expo x \<le> x" unfolding s using lo by (simp add: e)
  show "x < 2 ^ 53 * 2 powi expo x" unfolding s using hi by (simp add: e add.commute)
qed

lemma powi2_mono: "a \<le> b \<Longrightarrow> (2::rat) powi a \<le> 2 powi b"
  by (rule power_int_increasing) auto

lemma powi2_Suc: "(2::rat) powi (a + 1) = 2 * 2 powi a"
  by (simp add: power_int_add_1')

lemma expo_mono: assumes "0 < x" "x \<le> y" shows "expo x \<le> expo y"
proof (rule ccontr)
  assume "\<not> expo x \<le> expo y"
  then have "(2::rat) powi (expo y + 1) \<le> 2 powi expo x" by (intro powi2_mono) simp
  then have "2 ^ 53 * (2::rat) powi expo y \<le> 2 ^ 52 * 2 powi expo x"
    by (simp add: powi2_Suc)
  with expo_bounds(1) [of x] expo_bounds(2) [of y] assms show False by simp
qed

lemma ulp_exp_mono: "0 < x \<Longrightarrow> x \<le> y \<Longrightarrow> ulp_exp x \<le> ulp_exp y"
  using expo_mono [of x y] by (auto simp: ulp_exp_def)

lemma ulp_exp_upper: assumes "0 < x" shows "x < 2 ^ 53 * 2 powi ulp_exp x"
proof -
  have "(2::rat) powi expo x \<le> 2 powi ulp_exp x" by (rule powi2_mono) (simp add: ulp_exp_def)
  with expo_bounds(2) [OF assms] show ?thesis by simp
qed

lemma ulp_exp_lower:
  assumes "0 < x" "-1074 < ulp_exp x" shows "2 ^ 52 * 2 powi ulp_exp x \<le> x"
  using assms expo_bounds(1) [OF assms(1)] by (auto simp: ulp_exp_def max_def split: if_splits)

subsection \<open>Rounding of positive numbers\<close>

abbreviation mant :: "rat \<Rightarrow> int" where
  "mant x \<equiv> round_even (x / 2 powi ulp_exp x)"

lemma rnd64_pos: "0 < x \<Longrightarrow> rnd64 x = of_int (mant x) * 2 powi ulp_exp x"
  by (simp add: rnd64_def Let_def)

lemma rnd64_0 [simp]: "rnd64 0 = 0"
  by (simp add: rnd64_def)

lemma rnd64_minus [simp]: "rnd64 (- x) = - rnd64 x"
  by (simp add: rnd64_def Let_def)

lemma mant_nonneg: "0 < x \<Longrightarrow> 0 \<le> mant x"
  by (rule round_even_ge_int) simp

lemma mant_upper: assumes "0 < x" shows "mant x \<le> 2 ^ 53"
proof (rule round_even_le_int)
  show "x / 2 powi ulp_exp x \<le> of_int (2 ^ 53)"
    using ulp_exp_upper [OF assms] by (simp add: divide_le_eq)
qed

lemma mant_lower: assumes "0 < x" "-1074 < ulp_exp x" shows "2 ^ 52 \<le> mant x"
proof (rule round_even_ge_int)
  show "of_int (2 ^ 52) \<le> x / 2 powi ulp_exp x"
    using ulp_exp_lower [OF assms] by (simp add: le_divide_eq)
qed

lemma rnd64_mono_pos: assumes "0 < x" "x \<le> y" shows "rnd64 x \<le> rnd64 y"
proof -
  from assms have y: "0 < y" by simp
  let ?a = "ulp_exp x" and ?b = "ulp_exp y"
  from assms have "?a \<le> ?b" by (rule ulp_exp_mono)
  then consider "?a = ?b" | "?a + 1 \<le> ?b" by linarith
  then show ?thesis
  proof cases
    case 1
    with assms have "mant x \<le> mant y" by (simp add: round_even_mono divide_right_mono)
    with 1 show ?thesis by (simp add: rnd64_pos assms y)
  next
    case 2
    then have b: "-1074 < ?b" by (simp add: ulp_exp_def)
    have "rnd64 x \<le> 2 ^ 53 * 2 powi ?a"
      using mant_upper [OF assms(1)] of_int_le_iff [of "mant x" "2 ^ 53", where 'a = rat]
      by (simp add: rnd64_pos assms)
    also have "\<dots> = 2 ^ 52 * 2 powi (?a + 1)" by (simp add: powi2_Suc)
    also have "\<dots> \<le> 2 ^ 52 * 2 powi ?b" using powi2_mono [OF 2] by simp
    also have "\<dots> \<le> rnd64 y"
      using mant_lower [OF y b] of_int_le_iff [of "2 ^ 52" "mant y", where 'a = rat]
      by (simp add: rnd64_pos y)
    finally show ?thesis .
  qed
qed

lemma rnd64_nonneg [simp]: "0 \<le> x \<Longrightarrow> 0 \<le> rnd64 x"
  using mant_nonneg [of x] by (cases "x = 0") (auto simp: rnd64_pos)

lemma rnd64_nonpos [simp]: "x \<le> 0 \<Longrightarrow> rnd64 x \<le> 0"
  using rnd64_nonneg [of "- x"] by simp

lemma rnd64_mono: assumes "x \<le> y" shows "rnd64 x \<le> rnd64 y"
proof -
  consider "0 < x" | "y < 0" | "x \<le> 0" "0 \<le> y" by linarith
  then show ?thesis
  proof cases
    case 1 then show ?thesis using assms by (rule rnd64_mono_pos)
  next
    case 2 then show ?thesis using rnd64_mono_pos [of "- y" "- x"] assms by simp
  next
    case 3 then show ?thesis using rnd64_nonpos [of x] rnd64_nonneg [of y] by linarith
  qed
qed

subsection \<open>Representable numbers\<close>

lemma representable_minus [simp]: "representable (- x) \<longleftrightarrow> representable x"
proof -
  have "representable (- x)" if "representable x" for x
  proof -
    from that obtain m e where "x = of_int m * 2 powi e" "\<bar>m\<bar> \<le> 2 ^ 53" "-1074 \<le> e"
      by (auto simp: representable_def)
    then have "- x = of_int (- m) * 2 powi e \<and> \<bar>- m\<bar> \<le> 2 ^ 53 \<and> -1074 \<le> e" by simp
    then show ?thesis unfolding representable_def by blast
  qed
  from this [of x] this [of "- x"] show ?thesis by auto
qed

lemma representableI: "x = of_int m * 2 powi e \<Longrightarrow> \<bar>m\<bar> \<le> 2 ^ 53 \<Longrightarrow> -1074 \<le> e \<Longrightarrow> representable x"
  by (auto simp: representable_def)

lemma representable_of_int [simp]: "\<bar>k\<bar> \<le> 2 ^ 53 \<Longrightarrow> representable (of_int k)"
  by (rule representableI [of _ k 0]) auto

lemma representable_0 [simp]: "representable 0"
  using representable_of_int [of 0] by simp

lemma representable_1 [simp]: "representable 1"
  using representable_of_int [of 1] by simp

lemma rnd64_representable_pos:
  assumes "0 < x" "representable x" shows "rnd64 x = x"
proof -
  define u where "u = ulp_exp x"
  from assms(2) obtain m e where x: "x = of_int m * 2 powi e" and m: "\<bar>m\<bar> \<le> 2 ^ 53" and e: "-1074 \<le> e"
    by (auto simp: representable_def)
  obtain k :: int where k: "x / 2 powi u = of_int k"
  proof (cases "u \<le> e")
    case True
    have "x / 2 powi u = of_int m * 2 powi (e - u)"
      by (simp add: x power_int_diff)
    also have "\<dots> = of_int (m * 2 ^ nat (e - u))"
      using True by (simp add: power_int_def)
    finally show ?thesis by (rule that)
  next
    case False
    then have u: "e + 1 \<le> u" by simp
    with e have lo: "2 ^ 52 * 2 powi u \<le> x" 
      unfolding u_def by (intro ulp_exp_lower assms) simp
    have "x \<le> 2 ^ 53 * 2 powi e"
      using m of_int_le_iff [of m "2 ^ 53", where 'a = rat] by (simp add: x)
    also have "\<dots> = 2 ^ 52 * 2 powi (e + 1)" by (simp add: powi2_Suc)
    also have "\<dots> \<le> 2 ^ 52 * 2 powi u" using powi2_mono [OF u] by simp
    finally have "x = 2 ^ 52 * 2 powi u" using lo by linarith
    then have "x / 2 powi u = of_int (2 ^ 52)" by simp
    then show ?thesis by (rule that)
  qed
  then have "rnd64 x = of_int k * 2 powi u" by (simp add: rnd64_pos assms u_def)
  also have "\<dots> = x" by (simp flip: k)
  finally show ?thesis .
qed

lemma rnd64_representable [simp]: "representable x \<Longrightarrow> rnd64 x = x"
  using rnd64_representable_pos [of x] rnd64_representable_pos [of "- x"]
  by (cases x "0::rat" rule: linorder_cases) auto

lemma representable_rnd64 [simp]: "representable (rnd64 x)"
proof -
  have pos: "representable (rnd64 y)" if "0 < y" for y
    using mant_nonneg [OF that] mant_upper [OF that]
    by (intro representableI [of _ "mant y" "ulp_exp y"]) (auto simp: rnd64_pos that ulp_exp_def)
  show ?thesis
    using pos [of x] pos [of "- x"] by (cases x "0::rat" rule: linorder_cases) auto
qed

interpretation fl: rounding rnd64 representable
  by unfold_locales (simp_all add: rnd64_mono)

section \<open>Exact operations\<close>

lemma representable_double: "representable x \<Longrightarrow> representable (2 * x)"
proof -
  assume "representable x"
  then obtain m e where "x = of_int m * 2 powi e" "\<bar>m\<bar> \<le> 2 ^ 53" "-1074 \<le> e"
    by (auto simp: representable_def)
  then show ?thesis by (intro representableI [of _ m "e + 1"]) (auto simp: powi2_Suc)
qed

lemma sterbenz_aux:
  assumes "x = of_int m * 2 powi e" "\<bar>m\<bar> \<le> 2 ^ 53" "-1074 \<le> e"
    and "y = of_int n * 2 powi f" "e \<le> f" "\<bar>x - y\<bar> \<le> x"
  shows "representable (x - y)"
proof -
  define k where "k = m - n * 2 ^ nat (f - e)"
  have "(2::rat) powi f = 2 ^ nat (f - e) * 2 powi e"
    using assms(5) power_int_add [of "2::rat" "f - e" e] by (simp add: power_int_def)
  then have d: "x - y = of_int k * 2 powi e"
    by (simp add: assms(1,4) k_def algebra_simps)
  have "of_int \<bar>k\<bar> * (2::rat) powi e = \<bar>x - y\<bar>" by (simp add: d abs_mult)
  also have "\<dots> \<le> of_int m * 2 powi e" using assms(1,6) by simp
  finally have "\<bar>k\<bar> \<le> m" using of_int_le_iff [of "\<bar>k\<bar>" m, where 'a = rat] by simp
  with assms(2,3) d show ?thesis by (intro representableI [of _ k e]) auto
qed

lemma sterbenz:
  assumes "representable x" "representable y" "y \<le> 2 * x" "x \<le> 2 * y"
  shows "representable (x - y)"
proof -
  from assms obtain m e where x: "x = of_int m * 2 powi e" "\<bar>m\<bar> \<le> 2 ^ 53" "-1074 \<le> e"
    by (auto simp: representable_def)
  from assms obtain n f where y: "y = of_int n * 2 powi f" "\<bar>n\<bar> \<le> 2 ^ 53" "-1074 \<le> f"
    by (auto simp: representable_def)
  from assms have b: "\<bar>x - y\<bar> \<le> x" "\<bar>y - x\<bar> \<le> y" by linarith+
  show ?thesis
  proof (cases "e \<le> f")
    case True
    with sterbenz_aux [OF x y(1)] b show ?thesis by simp
  next
    case False
    with sterbenz_aux [OF y x(1)] b have "representable (y - x)" by simp
    then have "representable (- (y - x))" by (subst representable_minus)
    then show ?thesis by simp
  qed
qed

lemma float64_of_int_exact [simp]: "\<bar>n\<bar> \<le> 2 ^ 53 \<Longrightarrow> float64_of_int n = of_int n"
  by (simp add: float64_of_int_def)

lemma representable_float64_of_int [simp]: "representable (float64_of_int n)"
  by (simp add: float64_of_int_def)

lemma float64_of_int_nonneg: "0 \<le> n \<Longrightarrow> 0 \<le> float64_of_int n"
  by (simp add: float64_of_int_def)

lemma float64_of_int_mono: "m \<le> n \<Longrightarrow> float64_of_int m \<le> float64_of_int n"
  by (simp add: float64_of_int_def rnd64_mono)

lemma float64_of_int_pos: "1 \<le> n \<Longrightarrow> 1 \<le> float64_of_int n"
  using float64_of_int_mono [of 1 n] by simp

lemma trunc64_nonneg: "0 \<le> x \<Longrightarrow> 0 \<le> trunc64 x"
  by (simp add: trunc64_def)

lemma trunc64_le: "0 \<le> x \<Longrightarrow> of_int (trunc64 x) \<le> x"
  by (simp add: trunc64_def)

lemma trunc64_mono: "0 \<le> x \<Longrightarrow> x \<le> y \<Longrightarrow> trunc64 x \<le> trunc64 y"
  by (simp add: trunc64_def floor_mono)

lemma trunc64_of_int [simp]: "trunc64 (of_int n) = n"
  by (simp add: trunc64_def)

lemma int64_of_small: "0 \<le> x \<Longrightarrow> x < 2 ^ 63 \<Longrightarrow> int64_of x = trunc64 x"
  by (auto simp: int64_of_def trunc64_def Let_def floor_less_iff)

lemma int64_of_min: "- (2 ^ 63) \<le> int64_of x"
  by (simp add: int64_of_def Let_def)

section \<open>The rounding error\<close>

text \<open>Half a unit in the last place, bounded relative to the number; the one absorbs subnormals.\<close>

lemma ulp_bound:
  assumes "0 < x" shows "2 powi ulp_exp x / 2 \<le> (x + 1) / 2 ^ 53"
proof (cases "-1074 < ulp_exp x")
  case True
  with ulp_exp_lower [OF assms] show ?thesis by simp
next
  case False
  then have "(2::rat) powi ulp_exp x \<le> 2 powi (-52)" by (intro powi2_mono) (simp add: ulp_exp_def)
  then have "2 powi ulp_exp x / 2 \<le> (1::rat) / 2 ^ 53" by (simp add: power_int_def power_one_over)
  with assms show ?thesis by simp
qed

lemma rnd64_error:
  assumes "0 \<le> x" shows "\<bar>rnd64 x - x\<bar> \<le> (x + 1) / 2 ^ 53"
proof (cases "x = 0")
  case False
  with assms have x: "0 < x" by simp
  let ?e = "(2::rat) powi ulp_exp x"
  have "\<bar>of_int (mant x) - x / ?e\<bar> \<le> 1/2"
    using round_even_bounds [of "x / ?e"] unfolding abs_le_iff by linarith
  then have "\<bar>of_int (mant x) - x / ?e\<bar> * ?e \<le> 1/2 * ?e" by (rule mult_right_mono) simp
  moreover have "\<bar>of_int (mant x) - x / ?e\<bar> * ?e = \<bar>(of_int (mant x) - x / ?e) * ?e\<bar>" by (simp add: abs_mult)
  moreover have "(of_int (mant x) - x / ?e) * ?e = rnd64 x - x" by (simp add: rnd64_pos [OF x] left_diff_distrib)
  ultimately have "\<bar>rnd64 x - x\<bar> \<le> ?e / 2" by simp
  with ulp_bound [OF x] show ?thesis by simp
qed simp

text \<open>
  Every representable number is a multiple of the smallest one, so that different ones differ by at
  least that, and rounding neither loses a difference nor doubles it.
\<close>

definition tiny64 :: rat where
  "tiny64 = 2 powi (-1074)"

lemma tiny64_pos [simp]: "0 < tiny64" "0 \<le> tiny64"
  unfolding tiny64_def by (simp_all only: zero_less_power_int zero_le_power_int zero_less_numeral zero_le_numeral)

lemma representable_multiple:
  assumes "representable x" obtains k where "x = of_int k * tiny64"
proof -
  from assms obtain m e where x: "x = of_int m * 2 powi e" "-1074 \<le> e" by (auto simp: representable_def)
  have "(2::rat) powi e = 2 powi (e + 1074) * tiny64" unfolding tiny64_def using power_int_add [of "2::rat" "e + 1074" "-1074"] by simp
  also have "(2::rat) powi (e + 1074) = of_int (2 ^ nat (e + 1074))" using x(2) by (simp add: power_int_def)
  finally have "x = of_int (m * 2 ^ nat (e + 1074)) * tiny64" by (simp add: x(1))
  then show ?thesis by (rule that)
qed

lemma representable_gap:
  assumes "representable x" "representable y" "x < y" shows "tiny64 \<le> y - x"
proof -
  obtain j k where j: "x = of_int j * tiny64" and k: "y = of_int k * tiny64"
    using representable_multiple assms(1,2) by metis
  have "of_int j * tiny64 < of_int k * tiny64" using assms(3) by (simp only: j k)
  then have "j < k" using tiny64_pos(1) by (metis mult_less_cancel_right_pos of_int_less_iff)
  then have "1 * tiny64 \<le> of_int (k - j) * tiny64" by (intro mult_right_mono) simp_all
  then show ?thesis by (simp add: j k algebra_simps)
qed

lemma representable_tiny64: "representable tiny64"
  by (rule representableI [of _ 1 "-1074"]) (simp_all add: tiny64_def)

lemma rnd64_diff_nonzero:
  assumes "representable x" "representable y" "x \<noteq> y" shows "rnd64 (x - y) \<noteq> 0"
proof -
  have "0 < rnd64 (v - u)" if "representable u" "representable v" "u < v" for u v
    using fl.rnd_ge [OF representable_tiny64 representable_gap [OF that]] by (rule less_le_trans [rotated]) simp
  from this [of x y] this [of y x] assms show ?thesis
    using rnd64_minus [of "y - x"] by (cases x y rule: linorder_cases) auto
qed

lemma rnd64_le_double:
  assumes "tiny64 \<le> x" shows "rnd64 x \<le> 2 * x"
proof -
  have x: "0 < x" using assms by (rule less_le_trans [rotated]) simp
  let ?e = "(2::rat) powi ulp_exp x"
  have "?e \<le> x"
  proof (cases "-1074 < ulp_exp x")
    case True
    then have "2 ^ 52 * ?e \<le> x" using x by (intro ulp_exp_lower)
    moreover have "1 * ?e \<le> 2 ^ 52 * ?e" by (intro mult_right_mono) simp_all
    ultimately show ?thesis by (metis mult_1 order_trans)
  next
    case False
    then have "ulp_exp x = -1074" by (simp add: ulp_exp_def)
    then show ?thesis using assms by (simp only: tiny64_def)
  qed
  moreover have "of_int (mant x) * ?e \<le> (x / ?e + 1/2) * ?e" using round_even_bounds(1) by (intro mult_right_mono) simp_all
  then have "rnd64 x \<le> x + ?e / 2" by (simp add: rnd64_pos [OF x] algebra_simps)
  ultimately show ?thesis using x by linarith
qed

section \<open>Durations in seconds\<close>

lemma Seconds_nonneg_eq:
  assumes "0 \<le> d" "d \<le> maxDuration"
  shows "Seconds d = rnd64 (of_int (d div Second) + rnd64 (of_int (d mod Second) / 1000000000))"
proof -
  have "d div Second \<le> maxDuration div Second" using assms(2) by (rule zdiv_mono1) simp
  then have "\<bar>d div Second\<bar> \<le> 2 ^ 53" using assms(1) by (simp add: maxDuration_def pos_imp_zdiv_nonneg_iff)
  moreover have "\<bar>d mod Second\<bar> \<le> 2 ^ 53"
    using pos_mod_bound [of Second d] pos_mod_sign [of Second d] by simp
  moreover have "d - Second * (d div Second) = d mod Second" by (simp add: minus_mult_div_eq_mod)
  ultimately show ?thesis using assms(1) by (simp add: Seconds_def quot0_def Let_def)
qed

lemma Seconds_mono:
  assumes "0 \<le> d" "d \<le> d'" "d' \<le> maxDuration"
  shows "Seconds d \<le> Seconds d'"
proof -
  let ?f = "\<lambda>d. of_int (d div Second) + rnd64 (of_int (d mod Second) / 1000000000) :: rat"
  have hi: "rnd64 (of_int (d mod Second) / 1000000000) \<le> 1"
    using pos_mod_bound [of Second d] by (intro fl.rnd_le) (simp_all add: of_int_less_1_iff flip: of_int_le_iff)
  have lo: "0 \<le> rnd64 (of_int (d' mod Second) / 1000000000)"
    using pos_mod_sign [of Second d'] by simp
  have "d div Second \<le> d' div Second" using assms(2) by (rule zdiv_mono1) simp
  then consider "d div Second = d' div Second" | "d div Second + 1 \<le> d' div Second" by linarith
  then have "?f d \<le> ?f d'"
  proof cases
    case 1
    then have "d mod Second \<le> d' mod Second" using assms(2) by (simp flip: minus_mult_div_eq_mod)
    with 1 show ?thesis by (simp add: rnd64_mono divide_right_mono)
  next
    case 2
    then have "(of_int (d div Second + 1) :: rat) \<le> of_int (d' div Second)" by (simp only: of_int_le_iff)
    with hi lo show ?thesis by (simp only: of_int_add of_int_1)
  qed
  then show ?thesis using assms by (simp add: Seconds_nonneg_eq rnd64_mono)
qed

lemma Seconds_whole:
  assumes "0 \<le> n" "n * Second \<le> maxDuration" shows "Seconds (n * Second) = of_int n"
proof -
  have "\<bar>n\<bar> \<le> 2 ^ 53" using assms by (simp add: maxDuration_def)
  then show ?thesis using assms by (simp add: Seconds_nonneg_eq)
qed

lemma Seconds_0 [simp]: "Seconds 0 = 0"
  by (simp add: Seconds_def quot0_def float64_of_int_def)

lemma Seconds_nonneg: "0 \<le> d \<Longrightarrow> d \<le> maxDuration \<Longrightarrow> 0 \<le> Seconds d"
  using Seconds_mono [of 0 d] by simp

lemma Seconds_nonpos:
  assumes "d \<le> 0" shows "Seconds d \<le> 0"
proof (cases "d = 0")
  case False
  have "d - Second * (- ((- d) div Second)) = - ((- d) mod Second)"
    using mult_div_mod_eq [of Second "- d"] by linarith
  moreover have "0 \<le> (- d) mod Second" "0 \<le> (- d) div Second"
    using assms by (simp_all add: pos_imp_zdiv_nonneg_iff)
  ultimately have "float64_of_int (d - Second * (- ((- d) div Second))) \<le> 0" "float64_of_int (- ((- d) div Second)) \<le> 0"
    by (simp_all add: float64_of_int_def)
  then have "rnd64 (float64_of_int (- ((- d) div Second)) +
      rnd64 (float64_of_int (d - Second * (- ((- d) div Second))) / 1000000000)) \<le> 0"
    by (intro rnd64_nonpos add_nonpos_nonpos divide_nonpos_pos) simp_all
  with False assms show ?thesis by (simp add: Seconds_def quot0_def Let_def)
qed simp

text \<open>The float is within a few roundings of the exact quotient.\<close>

lemma Seconds_error:
  assumes "0 \<le> d" "d \<le> maxDuration"
  shows "Seconds d \<le> of_int d / 1000000000 + (of_int d / 1000000000 + 4) / 2 ^ 53"
proof -
  define a where "a = (of_int (d div Second) :: rat)"
  define n where "n = (of_int (d mod Second) / 1000000000 :: rat)"
  have n: "0 \<le> n" "n \<le> 1"
    using pos_mod_sign [of Second d] pos_mod_bound [of Second d]
    by (simp_all add: n_def flip: of_int_le_iff)
  have a: "0 \<le> a" using assms(1) by (simp add: a_def pos_imp_zdiv_nonneg_iff)
  have "(of_int (Second * (d div Second) + d mod Second) :: rat) = of_int d"
    by (simp only: mult_div_mod_eq)
  then have split: "of_int d / 1000000000 = a + n"
    by (simp only: of_int_add of_int_mult) (simp add: a_def n_def add_divide_distrib [symmetric])
  have "rnd64 n \<le> n + (n + 1) / 2 ^ 53" using rnd64_error [OF n(1)] by linarith
  then have 1: "rnd64 n \<le> n + (n + 1) / 2 ^ 53" "0 \<le> rnd64 n" "rnd64 n \<le> 1"
    using n by (simp_all add: fl.rnd_le)
  have "\<bar>rnd64 (a + rnd64 n) - (a + rnd64 n)\<bar> \<le> (a + rnd64 n + 1) / 2 ^ 53"
    using a 1(2) by (intro rnd64_error) simp
  then have 2: "rnd64 (a + rnd64 n) \<le> a + rnd64 n + (a + rnd64 n + 1) / 2 ^ 53" by linarith
  show ?thesis
    unfolding Seconds_nonneg_eq [OF assms] split a_def [symmetric] n_def [symmetric]
    using 1 2 n by (simp add: field_simps)
qed

end
