(* ===== verification/Breaker.thy ===== *)
theory Breaker
  imports Float64
begin

text \<open>
  The circuit breaker of \<open>internal/platform/resilience/breaker.go\<close>.

  \<open>BreakerConfig\<close> keeps its two function fields as functions: \<open>Now\<close> reads the clock of a world
  \<open>'w\<close> and \<open>OnStateChange\<close> acts on it. Every operation takes the breaker and the world and
  returns both, so that each reading of the clock and each notification happens where the code
  performs it, and nothing is assumed about either.
\<close>

section \<open>State and configuration\<close>

datatype State = StateClosed | StateOpen | StateHalfOpen

fun State_String :: "State \<Rightarrow> string" where
  "State_String StateClosed = ''closed''"
| "State_String StateOpen = ''open''"
| "State_String StateHalfOpen = ''half_open''"

definition ErrBreakerOpen :: go_error where
  "ErrBreakerOpen = ErrVar ''resilience.ErrBreakerOpen'' ''circuit breaker is open''"

record 'w BreakerConfig =
  MinimumRequests :: int
  FailureRatio :: rat
  OpenTimeout :: duration
  HalfOpenMaxCalls :: int
  HalfOpenSuccesses :: int
  Window :: duration
  Now :: "('w \<Rightarrow> time \<times> 'w) option"
  OnStateChange :: "(State \<Rightarrow> State \<Rightarrow> 'w \<Rightarrow> 'w) option"

definition BreakerConfig_withDefaults ::
  "('w \<Rightarrow> time \<times> 'w) \<Rightarrow> 'w BreakerConfig \<Rightarrow> 'w BreakerConfig" where
  "BreakerConfig_withDefaults time_Now c =
     (let c = (if MinimumRequests c \<le> 0 then c\<lparr>MinimumRequests := 20\<rparr> else c);
          c = (if FailureRatio c \<le> 0 \<or> 1 < FailureRatio c then c\<lparr>FailureRatio := 1/2\<rparr> else c);
          c = (if OpenTimeout c \<le> 0 then c\<lparr>OpenTimeout := 15 * Second\<rparr> else c);
          c = (if HalfOpenMaxCalls c \<le> 0 then c\<lparr>HalfOpenMaxCalls := 3\<rparr> else c);
          c = (if HalfOpenSuccesses c \<le> 0 then c\<lparr>HalfOpenSuccesses := 2\<rparr> else c);
          c = (if Window c \<le> 0 then c\<lparr>Window := 30 * Second\<rparr> else c);
          c = (if Now c = None then c\<lparr>Now := Some time_Now\<rparr> else c)
      in c)"

record 'w Breaker =
  br_name :: string
  cfg :: "'w BreakerConfig"
  state :: State
  successes :: int
  failures :: int
  windowStart :: time
  openedAt :: time
  halfOpenActive :: int
  halfOpenOK :: int

type_synonym 'w bstate = "'w Breaker \<times> 'w"

abbreviation br_Now :: "'w Breaker \<Rightarrow> 'w \<Rightarrow> time \<times> 'w" where
  "br_Now b \<equiv> the (Now (cfg b))"

section \<open>Operations\<close>

definition NewBreaker ::
  "('w \<Rightarrow> time \<times> 'w) \<Rightarrow> string \<Rightarrow> 'w BreakerConfig \<Rightarrow> 'w \<Rightarrow> 'w bstate" where
  "NewBreaker time_Now nm c w =
     (let c = BreakerConfig_withDefaults time_Now c;
          (t, w) = the (Now c) w
      in (\<lparr>br_name = nm, cfg = c, state = StateClosed, successes = 0, failures = 0,
           windowStart = t, openedAt = zeroTime, halfOpenActive = 0, halfOpenOK = 0\<rparr>, w))"

definition transitionLocked :: "State \<Rightarrow> 'w bstate \<Rightarrow> 'w bstate" where
  "transitionLocked to = (\<lambda>(b, w).
     if state b = to then (b, w)
     else (b\<lparr>state := to\<rparr>,
           case OnStateChange (cfg b) of None \<Rightarrow> w | Some f \<Rightarrow> f (state b) to w))"

definition resetCountsLocked :: "'w bstate \<Rightarrow> 'w bstate" where
  "resetCountsLocked = (\<lambda>(b, w).
     let b = b\<lparr>successes := 0, failures := 0, halfOpenActive := 0, halfOpenOK := 0\<rparr>;
         (t, w) = br_Now b w
     in (b\<lparr>windowStart := t\<rparr>, w))"

definition rollWindowLocked :: "'w bstate \<Rightarrow> 'w bstate" where
  "rollWindowLocked = (\<lambda>(b, w).
     let (t, w) = br_Now b w
     in if Window (cfg b) \<le> time_Sub t (windowStart b)
        then let (t, w) = br_Now b w
             in (b\<lparr>windowStart := t, successes := 0, failures := 0\<rparr>, w)
        else (b, w))"

definition maybeHalfOpenLocked :: "'w bstate \<Rightarrow> 'w bstate" where
  "maybeHalfOpenLocked = (\<lambda>(b, w).
     if state b = StateOpen
     then let (t, w) = br_Now b w
          in if OpenTimeout (cfg b) \<le> time_Sub t (openedAt b)
             then let (b, w) = transitionLocked StateHalfOpen (b, w)
                  in (b\<lparr>halfOpenActive := 0, halfOpenOK := 0\<rparr>, w)
             else (b, w)
     else (b, w))"

definition openLocked :: "'w bstate \<Rightarrow> 'w bstate" where
  "openLocked s =
     (let (b, w) = transitionLocked StateOpen s;
          (t, w) = br_Now b w
      in resetCountsLocked (b\<lparr>openedAt := t\<rparr>, w))"

definition Breaker_State :: "'w bstate \<Rightarrow> State \<times> 'w bstate" where
  "Breaker_State s = (let (b, w) = maybeHalfOpenLocked s in (state b, (b, w)))"

definition allow :: "'w bstate \<Rightarrow> go_error option \<times> 'w bstate" where
  "allow s =
     (let (b, w) = maybeHalfOpenLocked s
      in case state b of
           StateOpen \<Rightarrow> (Some ErrBreakerOpen, (b, w))
         | StateHalfOpen \<Rightarrow>
             if HalfOpenMaxCalls (cfg b) \<le> halfOpenActive b then (Some ErrBreakerOpen, (b, w))
             else (None, (b\<lparr>halfOpenActive := halfOpenActive b + 1\<rparr>, w))
         | StateClosed \<Rightarrow> (None, rollWindowLocked (b, w)))"

definition release :: "'w bstate \<Rightarrow> 'w bstate" where
  "release = (\<lambda>(b, w).
     if state b = StateHalfOpen \<and> 0 < halfOpenActive b
     then (b\<lparr>halfOpenActive := halfOpenActive b - 1\<rparr>, w) else (b, w))"

text \<open>The condition on which a failure trips a closed breaker, in \<open>float64\<close> arithmetic.\<close>

definition trips :: "'w BreakerConfig \<Rightarrow> int \<Rightarrow> int \<Rightarrow> bool" where
  "trips c f n \<longleftrightarrow>
     MinimumRequests c \<le> n \<and>
     FailureRatio c \<le> rnd64 (float64_of_int f / float64_of_int n)"

definition Breaker_record :: "bool \<Rightarrow> 'w bstate \<Rightarrow> 'w bstate" where
  "Breaker_record ok = (\<lambda>(b, w).
     case state b of
       StateHalfOpen \<Rightarrow>
         let b = (if 0 < halfOpenActive b then b\<lparr>halfOpenActive := halfOpenActive b - 1\<rparr> else b)
         in if \<not> ok then openLocked (b, w)
            else let b = b\<lparr>halfOpenOK := halfOpenOK b + 1\<rparr>
                 in if HalfOpenSuccesses (cfg b) \<le> halfOpenOK b
                    then resetCountsLocked (transitionLocked StateClosed (b, w))
                    else (b, w)
     | StateClosed \<Rightarrow>
         let (b, w) = rollWindowLocked (b, w)
         in if ok then (b\<lparr>successes := successes b + 1\<rparr>, w)
            else let b = b\<lparr>failures := failures b + 1\<rparr>
                 in if trips (cfg b) (failures b) (successes b + failures b)
                    then openLocked (b, w) else (b, w)
     | StateOpen \<Rightarrow> (b, w))"

text \<open>
  \<open>Do\<close> runs \<open>fn\<close> without holding the lock, so while it runs other goroutines may use the same
  breaker: \<open>fn\<close> is given the breaker too. \<open>ctxErr\<close> is the method \<open>Err\<close> of the caller's context.
\<close>

definition Breaker_Do ::
  "('w \<Rightarrow> go_error option) \<Rightarrow> ('w bstate \<Rightarrow> go_error option \<times> 'w bstate) \<Rightarrow>
   'w bstate \<Rightarrow> go_error option \<times> 'w bstate" where
  "Breaker_Do ctxErr fn s =
     (case allow s of
        (Some e, s) \<Rightarrow> (Some e, s)
      | (None, s) \<Rightarrow>
          (case fn s of
             (None, s) \<Rightarrow> (None, Breaker_record True s)
           | (Some e, s) \<Rightarrow>
               (case ctxErr (snd s) of
                  Some ce \<Rightarrow>
                    if errors_Is e ce then (Some e, release s)
                    else (Some e, Breaker_record False s)
                | None \<Rightarrow> (Some e, Breaker_record False s))))"

section \<open>What each operation does to the breaker\<close>

text \<open>
  The breaker component of each operation's result, with the clock readings it used: these
  equations carry every proof below.
\<close>

named_theorems breaker_fst

lemma fst_transitionLocked [breaker_fst]: "fst (transitionLocked to (b, w)) = b\<lparr>state := to\<rparr>"
  by (simp add: transitionLocked_def)

lemma fst_resetCountsLocked [breaker_fst]:
  "fst (resetCountsLocked (b, w)) =
     b\<lparr>successes := 0, failures := 0, halfOpenActive := 0, halfOpenOK := 0,
       windowStart := fst (br_Now b w)\<rparr>"
  by (simp add: resetCountsLocked_def Let_def split_beta)

lemma openLocked_cases:
  obtains t t' where
    "fst (openLocked (b, w)) =
       b\<lparr>state := StateOpen, openedAt := t, successes := 0, failures := 0,
         halfOpenActive := 0, halfOpenOK := 0, windowStart := t'\<rparr>"
proof -
  have "\<exists>t t'. fst (openLocked (b, w)) =
       b\<lparr>state := StateOpen, openedAt := t, successes := 0, failures := 0,
         halfOpenActive := 0, halfOpenOK := 0, windowStart := t'\<rparr>"
    by (auto simp: openLocked_def Let_def split_beta breaker_fst intro!: exI)
  with that show ?thesis by blast
qed

lemma rollWindowLocked_cases:
  obtains (kept) "fst (rollWindowLocked (b, w)) = b"
  | (rolled) t where
    "fst (rollWindowLocked (b, w)) = b\<lparr>windowStart := t, successes := 0, failures := 0\<rparr>"
  by (cases "Window (cfg b) \<le> time_Sub (fst (br_Now b w)) (windowStart b)")
    (auto simp: rollWindowLocked_def Let_def split_beta)

lemma maybeHalfOpenLocked_cases:
  obtains (kept) "fst (maybeHalfOpenLocked (b, w)) = b"
  | (probing) "state b = StateOpen" and
    "fst (maybeHalfOpenLocked (b, w)) = b\<lparr>state := StateHalfOpen, halfOpenActive := 0, halfOpenOK := 0\<rparr>"
  by (cases "state b = StateOpen \<and> OpenTimeout (cfg b) \<le> time_Sub (fst (br_Now b w)) (openedAt b)")
    (auto simp: maybeHalfOpenLocked_def Let_def split_beta breaker_fst)

lemma cfg_locked [simp]:
  "cfg (fst (transitionLocked to s)) = cfg (fst s)"
  "cfg (fst (resetCountsLocked s)) = cfg (fst s)"
  "cfg (fst (rollWindowLocked s)) = cfg (fst s)"
  "cfg (fst (maybeHalfOpenLocked s)) = cfg (fst s)"
  "cfg (fst (release s)) = cfg (fst s)"
  by (cases s; simp add: breaker_fst rollWindowLocked_def maybeHalfOpenLocked_def release_def
      Let_def split_beta)+

lemma rollWindowLocked_frame [simp]:
  "state (fst (rollWindowLocked s)) = state (fst s)"
  "halfOpenActive (fst (rollWindowLocked s)) = halfOpenActive (fst s)"
  "halfOpenOK (fst (rollWindowLocked s)) = halfOpenOK (fst s)"
  "openedAt (fst (rollWindowLocked s)) = openedAt (fst s)"
  by (cases s; simp add: rollWindowLocked_def Let_def split_beta)+

lemma cfg_openLocked [simp]: "cfg (fst (openLocked s)) = cfg (fst s)"
  by (cases s) (simp add: openLocked_def Let_def split_beta breaker_fst)

lemma cfg_allow [simp]: "cfg (fst (snd (allow s))) = cfg (fst s)"
  by (auto simp: allow_def Let_def split_beta split: State.splits)

lemma cfg_record [simp]: "cfg (fst (Breaker_record ok s)) = cfg (fst s)"
  by (cases s) (auto simp: Breaker_record_def Let_def split_beta split: State.splits)

section \<open>The invariant\<close>

definition config_ok :: "'w BreakerConfig \<Rightarrow> bool" where
  "config_ok c \<longleftrightarrow>
     0 < MinimumRequests c \<and> 0 < FailureRatio c \<and> FailureRatio c \<le> 1 \<and>
     0 < OpenTimeout c \<and> 0 < HalfOpenMaxCalls c \<and> 0 < HalfOpenSuccesses c \<and>
     0 < Window c \<and> Now c \<noteq> None"

definition breaker_inv :: "'w Breaker \<Rightarrow> bool" where
  "breaker_inv b \<longleftrightarrow>
     config_ok (cfg b) \<and> 0 \<le> successes b \<and> 0 \<le> failures b \<and>
     0 \<le> halfOpenActive b \<and> halfOpenActive b \<le> HalfOpenMaxCalls (cfg b) \<and>
     0 \<le> halfOpenOK b \<and> halfOpenOK b < HalfOpenSuccesses (cfg b) \<and>
     (state b \<noteq> StateClosed \<longrightarrow> successes b = 0 \<and> failures b = 0) \<and>
     (state b \<noteq> StateHalfOpen \<longrightarrow> halfOpenActive b = 0 \<and> halfOpenOK b = 0)"

lemma config_ok_withDefaults: "config_ok (BreakerConfig_withDefaults tn c)"
  by (auto simp: BreakerConfig_withDefaults_def config_ok_def Let_def)

lemma NewBreaker_inv: "breaker_inv (fst (NewBreaker tn nm c w))"
  using config_ok_withDefaults [of tn c]
  by (simp add: NewBreaker_def breaker_inv_def config_ok_def Let_def split_beta)

lemma openLocked_inv:
  assumes "config_ok (cfg b)" shows "breaker_inv (fst (openLocked (b, w)))"
  by (rule openLocked_cases [of b w]) (use assms in \<open>simp add: breaker_inv_def config_ok_def\<close>)

lemma rollWindowLocked_inv: "breaker_inv b \<Longrightarrow> breaker_inv (fst (rollWindowLocked (b, w)))"
  by (rule rollWindowLocked_cases [of b w]) (auto simp: breaker_inv_def)

lemma maybeHalfOpenLocked_inv: "breaker_inv b \<Longrightarrow> breaker_inv (fst (maybeHalfOpenLocked (b, w)))"
  by (rule maybeHalfOpenLocked_cases [of b w]) (auto simp: breaker_inv_def config_ok_def)

lemma allow_inv:
  assumes "breaker_inv (fst s)" shows "breaker_inv (fst (snd (allow s)))"
proof -
  obtain b w where s: "maybeHalfOpenLocked s = (b, w)" by fastforce
  with assms maybeHalfOpenLocked_inv [of "fst s" "snd s"] have "breaker_inv b" by simp
  then show ?thesis
    using rollWindowLocked_inv [of b w]
    by (auto simp: allow_def s breaker_inv_def split: State.splits)
qed

lemma release_inv: "breaker_inv (fst s) \<Longrightarrow> breaker_inv (fst (release s))"
  by (cases s) (auto simp: release_def breaker_inv_def)

lemma record_closed:
  assumes "state b = StateClosed" and "rollWindowLocked (b, w) = (b', w')"
  shows "Breaker_record ok (b, w) =
    (if ok then (b'\<lparr>successes := successes b' + 1\<rparr>, w')
     else if trips (cfg b') (failures b' + 1) (successes b' + (failures b' + 1))
     then openLocked (b'\<lparr>failures := failures b' + 1\<rparr>, w')
     else (b'\<lparr>failures := failures b' + 1\<rparr>, w'))"
  by (simp add: Breaker_record_def assms)

lemma record_halfOpen:
  assumes "state b = StateHalfOpen"
  shows "Breaker_record ok (b, w) =
    (let b' = b\<lparr>halfOpenActive := (if 0 < halfOpenActive b then halfOpenActive b - 1 else halfOpenActive b)\<rparr>
     in if \<not> ok then openLocked (b', w)
        else if HalfOpenSuccesses (cfg b) \<le> halfOpenOK b + 1
        then resetCountsLocked (transitionLocked StateClosed (b'\<lparr>halfOpenOK := halfOpenOK b + 1\<rparr>, w))
        else (b'\<lparr>halfOpenOK := halfOpenOK b + 1\<rparr>, w))"
  by (simp add: Breaker_record_def assms Let_def)

lemma close_inv:
  assumes "config_ok (cfg b)"
  shows "breaker_inv (fst (resetCountsLocked (transitionLocked StateClosed (b, w))))"
proof -
  obtain w' where "transitionLocked StateClosed (b, w) = (b\<lparr>state := StateClosed\<rparr>, w')"
    using fst_transitionLocked [of StateClosed b w] by (metis prod.collapse)
  with assms show ?thesis by (simp add: breaker_fst breaker_inv_def config_ok_def)
qed

lemma record_inv:
  assumes "breaker_inv (fst s)" shows "breaker_inv (fst (Breaker_record ok s))"
proof (cases s)
  case (Pair b w)
  have ok: "config_ok (cfg b)" using assms Pair by (simp add: breaker_inv_def)
  show ?thesis
  proof (cases "state b")
    case StateClosed
    obtain b' w' where r: "rollWindowLocked (b, w) = (b', w')" by fastforce
    have inv: "breaker_inv b'" and c: "cfg b' = cfg b" and st: "state b' = StateClosed"
      using rollWindowLocked_inv [of b w] rollWindowLocked_frame [of "(b, w)"] cfg_locked(3) [of "(b, w)"]
        assms Pair r StateClosed by simp_all
    have "breaker_inv (fst (openLocked (b'\<lparr>failures := failures b' + 1\<rparr>, w')))"
      using ok c by (intro openLocked_inv) simp
    with inv st show ?thesis
      by (simp add: Pair record_closed [OF StateClosed r] breaker_inv_def)
  next
    case StateOpen
    with assms Pair show ?thesis by (simp add: Breaker_record_def)
  next
    case StateHalfOpen
    with assms ok Pair show ?thesis
      by (simp add: record_halfOpen openLocked_inv close_inv Let_def) (auto simp: breaker_inv_def)
  qed
qed

section \<open>Sequences of calls\<close>

text \<open>
  Every method that takes the lock is one atomic step, so the calls of any number of goroutines
  are some sequence of these. What the world does between two calls shows in what \<open>Now\<close> reads.
\<close>

datatype breaker_event = CallState | CallAllow | CallRelease | CallRecord bool

fun breaker_step :: "'w bstate \<Rightarrow> breaker_event \<Rightarrow> 'w bstate" where
  "breaker_step s CallState = snd (Breaker_State s)"
| "breaker_step s CallAllow = snd (allow s)"
| "breaker_step s CallRelease = release s"
| "breaker_step s (CallRecord ok) = Breaker_record ok s"

lemma breaker_step_inv: "breaker_inv (fst s) \<Longrightarrow> breaker_inv (fst (breaker_step s e))"
  using maybeHalfOpenLocked_inv [of "fst s" "snd s"]
  by (cases e) (simp_all add: Breaker_State_def allow_inv release_inv record_inv Let_def split_beta)

interpretation br: stepping breaker_step "\<lambda>s. breaker_inv (fst s)"
  by unfold_locales (rule breaker_step_inv)

text \<open>The specification: the cycle of states, and nothing else.\<close>

inductive spec_step :: "State \<Rightarrow> State \<Rightarrow> bool" where
  trip: "spec_step StateClosed StateOpen"
| probe: "spec_step StateOpen StateHalfOpen"
| reopen: "spec_step StateHalfOpen StateOpen"
| recover: "spec_step StateHalfOpen StateClosed"

inductive_simps spec_step_simps [simp]:
  "spec_step StateClosed s" "spec_step StateOpen s" "spec_step StateHalfOpen s"

fun spec_path :: "State \<Rightarrow> (State \<times> State) list \<Rightarrow> State \<Rightarrow> bool" where
  "spec_path s [] t = (s = t)"
| "spec_path s ((a, b) # ps) t = (a = s \<and> spec_step a b \<and> spec_path b ps t)"

lemma spec_path_append: "spec_path s ps t \<Longrightarrow> spec_path t qs u \<Longrightarrow> spec_path s (ps @ qs) u"
  by (induction s ps t rule: spec_path.induct) auto

text \<open>
  A world that keeps a log of the notifications: \<open>OnStateChange\<close> appends to it and reading the
  clock leaves it alone.
\<close>

definition logging :: "('w \<Rightarrow> (State \<times> State) list) \<Rightarrow> 'w BreakerConfig \<Rightarrow> bool" where
  "logging lg c \<longleftrightarrow>
     (\<forall>w. lg (snd (the (Now c) w)) = lg w) \<and>
     (\<exists>note. OnStateChange c = Some note \<and> (\<forall>a b w. lg (note a b w) = lg w @ [(a, b)]))"

definition logged :: "('w \<Rightarrow> (State \<times> State) list) \<Rightarrow> 'w bstate \<Rightarrow> 'w bstate \<Rightarrow> bool" where
  "logged lg s s' \<longleftrightarrow>
     (\<exists>ps. lg (snd s') = lg (snd s) @ ps \<and> spec_path (state (fst s)) ps (state (fst s')))"

lemma loggedI: "lg (snd s') = lg (snd s) @ ps \<Longrightarrow> spec_path (state (fst s)) ps (state (fst s')) \<Longrightarrow> logged lg s s'"
  by (auto simp: logged_def)

lemma logged_refl [simp]: "logged lg s s"
  by (rule loggedI [of _ _ _ "[]"]) simp_all

lemma logged_trans: "logged lg s t \<Longrightarrow> logged lg t u \<Longrightarrow> logged lg s u"
  unfolding logged_def by (metis append_assoc spec_path_append)

lemma logged_quiet: "lg (snd s') = lg (snd s) \<Longrightarrow> state (fst s') = state (fst s) \<Longrightarrow> logged lg s s'"
  by (rule loggedI [of _ _ _ "[]"]) simp_all

lemma logged_transition:
  assumes "logging lg (cfg (fst s))" and "to = state (fst s) \<or> spec_step (state (fst s)) to"
  shows "logged lg s (transitionLocked to s)"
proof (cases "state (fst s) = to")
  case True
  then show ?thesis by (simp add: transitionLocked_def split_beta)
next
  case False
  with assms show ?thesis
    by (intro loggedI [of _ _ _ "[(state (fst s), to)]"])
      (auto simp: transitionLocked_def logging_def split_beta)
qed

lemma logged_reset: "logging lg (cfg (fst s)) \<Longrightarrow> logged lg s (resetCountsLocked s)"
  by (rule logged_quiet) (auto simp: resetCountsLocked_def logging_def split_beta Let_def)

lemma logged_roll: "logging lg (cfg (fst s)) \<Longrightarrow> logged lg s (rollWindowLocked s)"
  by (rule logged_quiet) (auto simp: rollWindowLocked_def logging_def split_beta Let_def)

lemma logged_open:
  assumes "logging lg (cfg (fst s))" and "state (fst s) \<noteq> StateOpen"
  shows "logged lg s (openLocked s)"
proof -
  obtain b w where t: "transitionLocked StateOpen s = (b, w)" by fastforce
  from assms have "logged lg s (b, w)"
    using logged_transition [OF assms(1), of StateOpen] by (cases "state (fst s)") (simp_all add: t)
  moreover have c: "logging lg (cfg b)" using assms(1) cfg_locked(1) [of StateOpen s] by (simp add: t)
  then have "logged lg (b, w) (b\<lparr>openedAt := fst (br_Now b w)\<rparr>, snd (br_Now b w))"
    by (intro logged_quiet) (simp_all add: logging_def)
  moreover have "logged lg \<dots> (resetCountsLocked (b\<lparr>openedAt := fst (br_Now b w)\<rparr>, snd (br_Now b w)))"
    using c by (intro logged_reset) simp
  ultimately show ?thesis
    by (simp add: openLocked_def t Let_def split_beta) (blast intro: logged_trans)
qed

lemma logged_maybe:
  assumes "logging lg (cfg (fst s))" shows "logged lg s (maybeHalfOpenLocked s)"
proof (cases s)
  case (Pair b w)
  let ?n = "br_Now b w"
  have q: "logged lg (b, w) (b, snd ?n)"
    using assms by (intro logged_quiet) (simp_all add: Pair logging_def)
  have "logged lg (b, snd ?n) (transitionLocked StateHalfOpen (b, snd ?n))" if "state b = StateOpen"
    using assms that by (intro logged_transition) (simp_all add: Pair)
  with q have "logged lg (b, w) (transitionLocked StateHalfOpen (b, snd ?n))" if "state b = StateOpen"
    using that logged_trans by blast
  with q show ?thesis
    by (auto simp: Pair maybeHalfOpenLocked_def Let_def split_beta logged_def)
qed

lemma logged_allow:
  assumes "logging lg (cfg (fst s))" shows "logged lg s (snd (allow s))"
proof -
  obtain b w where m: "maybeHalfOpenLocked s = (b, w)" by fastforce
  have c: "logging lg (cfg b)" using assms cfg_locked(4) [of s] by (simp add: m)
  have l: "logged lg s (b, w)" using logged_maybe [OF assms] by (simp add: m)
  have "logged lg (b, w) (rollWindowLocked (b, w))" using c by (intro logged_roll) simp
  with l have "logged lg s (rollWindowLocked (b, w))" by (rule logged_trans)
  with l show ?thesis
    by (auto simp: allow_def m logged_def split: State.splits)
qed

lemma logged_record:
  assumes "logging lg (cfg (fst s))" shows "logged lg s (Breaker_record ok s)"
proof (cases s)
  case (Pair b w)
  have c: "logging lg (cfg b)" using assms Pair by simp
  show ?thesis
  proof (cases "state b")
    case StateClosed
    obtain b' w' where r: "rollWindowLocked (b, w) = (b', w')" by fastforce
    have l: "logged lg s (b', w')" using logged_roll [OF assms] by (simp add: Pair r)
    have c': "cfg b' = cfg b" and st: "state b' = StateClosed"
      using cfg_locked(3) [of "(b, w)"] rollWindowLocked_frame(1) [of "(b, w)"] r StateClosed by simp_all
    let ?f = "b'\<lparr>failures := failures b' + 1\<rparr>"
    have "logged lg (?f, w') (openLocked (?f, w'))" using c c' st by (intro logged_open) simp_all
    moreover have "logged lg s (?f, w')" using l by (simp add: logged_def)
    ultimately have "logged lg s (openLocked (?f, w'))" by (rule logged_trans [rotated])
    with l show ?thesis by (auto simp: Pair record_closed [OF StateClosed r] logged_def)
  next
    case StateOpen
    then show ?thesis by (simp add: Pair Breaker_record_def)
  next
    case StateHalfOpen
    define d where "d = b\<lparr>halfOpenActive := (if 0 < halfOpenActive b then halfOpenActive b - 1 else halfOpenActive b)\<rparr>"
    let ?t = "transitionLocked StateClosed (d\<lparr>halfOpenOK := halfOpenOK b + 1\<rparr>, w)"
    have l: "logged lg s (d\<lparr>halfOpenOK := halfOpenOK b + 1\<rparr>, w)" "logged lg s (d, w)"
      by (intro logged_quiet; simp add: Pair d_def)+
    have "logged lg (d, w) (openLocked (d, w))"
      using c StateHalfOpen by (intro logged_open) (simp_all add: d_def)
    moreover have "logged lg (d\<lparr>halfOpenOK := halfOpenOK b + 1\<rparr>, w) ?t"
      using c StateHalfOpen by (intro logged_transition) (simp_all add: d_def)
    moreover have "logged lg ?t (resetCountsLocked ?t)"
      using c by (intro logged_reset) (simp add: d_def)
    ultimately have "logged lg s (openLocked (d, w))" "logged lg s (resetCountsLocked ?t)"
      using l by (blast intro: logged_trans)+
    with l show ?thesis by (simp add: Pair record_halfOpen [OF StateHalfOpen] Let_def flip: d_def)
  qed
qed

lemma logged_step:
  assumes "logging lg (cfg (fst s))" shows "logged lg s (breaker_step s e)"
proof (cases e)
  case CallState
  with logged_maybe [OF assms] show ?thesis by (simp add: Breaker_State_def split_beta Let_def)
next
  case CallRelease
  then show ?thesis by (auto simp: release_def split_beta intro: logged_quiet)
qed (simp_all add: logged_allow logged_record assms)

lemma cfg_step [simp]: "cfg (fst (breaker_step s e)) = cfg (fst s)"
  by (cases e) (simp_all add: Breaker_State_def split_beta Let_def)

interpretation br_log: progressing breaker_step
  "\<lambda>s s'. cfg (fst s') = cfg (fst s) \<and> (logging lg (cfg (fst s)) \<longrightarrow> logged lg s s')" for lg
  by unfold_locales (auto intro: logged_trans logged_step)

section \<open>The trip condition in floating point\<close>

text \<open>
  Rounding is monotone, so a ratio that reaches the threshold exactly is never rounded below it.
  For the threshold one half the converse holds as well, as long as the counts are exact in
  \<open>float64\<close>: the largest ratio below one half is at least \<open>2 ^ -54\<close> away from it, and
  \<open>1/2 - 2 ^ -54\<close> is itself a \<open>float64\<close>.
\<close>

lemma half_ratio:
  assumes "0 < n" "n \<le> 2 ^ 53" "0 \<le> f" "f \<le> n"
  shows "1/2 \<le> rnd64 (float64_of_int f / float64_of_int n) \<longleftrightarrow> n \<le> 2 * f"
proof
  have fl: "float64_of_int f / float64_of_int n = of_int f / of_int n"
    using assms by simp
  have rep: "representable (1/2)"
    by (rule representableI [of _ 1 "-1"]) (simp_all add: power_int_def)
  show "n \<le> 2 * f \<Longrightarrow> 1/2 \<le> rnd64 (float64_of_int f / float64_of_int n)"
  proof (rule fl.rnd_ge [OF rep], unfold fl)
    assume "n \<le> 2 * f"
    then have "(of_int n :: rat) \<le> of_int (2 * f)" by (simp only: of_int_le_iff)
    with assms show "(1::rat) / 2 \<le> of_int f / of_int n" by (simp add: field_simps)
  qed
  assume ge: "1/2 \<le> rnd64 (float64_of_int f / float64_of_int n)"
  show "n \<le> 2 * f"
  proof (rule ccontr)
    let ?h = "9007199254740991 / 18014398509481984 :: rat"
    assume "\<not> n \<le> 2 * f"
    then have "2 * f + 1 \<le> n" by simp
    then have "(of_int (2 * f + 1) :: rat) \<le> of_int n" by (simp only: of_int_le_iff)
    moreover have "(of_int n :: rat) \<le> of_int (2 ^ 53)" using assms(2) by (simp only: of_int_le_iff)
    ultimately have "of_int f / of_int n \<le> ?h"
      using assms(1) by (simp add: pos_divide_le_eq)
    moreover have "representable ?h"
      by (rule representableI [of _ 9007199254740991 "-54"]) (simp_all add: power_int_def power_one_over)
    ultimately have "rnd64 (float64_of_int f / float64_of_int n) \<le> ?h"
      unfolding fl by (intro fl.rnd_le)
    with ge show False by simp
  qed
qed

lemma trips_of_ratio:
  assumes "representable (FailureRatio c)" "MinimumRequests c \<le> n" "0 < n" "n \<le> 2 ^ 53" "0 \<le> f" "f \<le> n"
    and "FailureRatio c * of_int n \<le> of_int f"
  shows "trips c f n"
proof -
  have "FailureRatio c \<le> of_int f / of_int n"
    using assms(3,7) by (simp add: pos_le_divide_eq)
  with assms show ?thesis by (simp add: trips_def fl.rnd_ge)
qed

section \<open>Calls in flight\<close>

text \<open>
  A ghost view of concurrent callers of \<open>Do\<close>. Each call in flight remembers the half-open period in
  which \<open>allow\<close> admitted it as a trial, or \<open>None\<close> when it was admitted by a closed breaker; the
  periods are numbered as they begin. \<open>Admit\<close> is the start of a \<open>Do\<close>, \<open>Finish\<close> and \<open>Abandon\<close> its
  two ends, \<open>Observe\<close> is a call of \<open>State\<close>, as probes make, and \<open>Elapse\<close> is anything the world does in between.
\<close>

record 'w callers =
  shared :: "'w bstate"
  period :: nat
  inflight :: "nat option list"

datatype 'w action = Admit | Finish "nat option" bool | Abandon "nat option" | Observe | Elapse 'w

fun act :: "'w callers \<Rightarrow> 'w action \<Rightarrow> 'w callers" where
  "act s Admit =
     (let (err, t) = allow (shared s);
          p = (if state (fst (shared s)) = StateOpen \<and> state (fst t) = StateHalfOpen
               then period s + 1 else period s)
      in s\<lparr>shared := t, period := p,
           inflight := (if err = None
             then (if state (fst t) = StateHalfOpen then Some p else None) # inflight s
             else inflight s)\<rparr>)"
| "act s (Finish c ok) =
     (if c \<in> set (inflight s)
      then s\<lparr>shared := Breaker_record ok (shared s), inflight := remove1 c (inflight s)\<rparr> else s)"
| "act s (Abandon c) =
     (if c \<in> set (inflight s)
      then s\<lparr>shared := release (shared s), inflight := remove1 c (inflight s)\<rparr> else s)"
| "act s Observe =
     (let t = snd (Breaker_State (shared s))
      in s\<lparr>shared := t,
           period := (if state (fst (shared s)) = StateOpen \<and> state (fst t) = StateHalfOpen
             then period s + 1 else period s)\<rparr>)"
| "act s (Elapse w) = s\<lparr>shared := (fst (shared s), w)\<rparr>"

text \<open>While the breaker is half open, only calls admitted in the current period come to an end.\<close>

fun timely :: "'w callers \<Rightarrow> 'w action \<Rightarrow> bool" where
  "timely s (Finish c ok) \<longleftrightarrow> state (fst (shared s)) = StateHalfOpen \<longrightarrow> c = Some (period s)"
| "timely s (Abandon c) \<longleftrightarrow> state (fst (shared s)) = StateHalfOpen \<longrightarrow> c = Some (period s)"
| "timely s _ \<longleftrightarrow> True"

fun all_timely :: "'w callers \<Rightarrow> 'w action list \<Rightarrow> bool" where
  "all_timely s [] = True"
| "all_timely s (a # as) = (timely s a \<and> all_timely (act s a) as)"

definition start_callers :: "'w bstate \<Rightarrow> 'w callers" where
  "start_callers s = \<lparr>shared = s, period = 0, inflight = []\<rparr>"

abbreviation trials :: "'w callers \<Rightarrow> int" where
  "trials s \<equiv> int (count_list (inflight s) (Some (period s)))"

definition callers_inv :: "'w callers \<Rightarrow> bool" where
  "callers_inv s \<longleftrightarrow>
     breaker_inv (fst (shared s)) \<and>
     (\<forall>p. Some p \<in> set (inflight s) \<longrightarrow> p \<le> period s) \<and>
     (state (fst (shared s)) = StateHalfOpen \<longrightarrow> trials s = halfOpenActive (fst (shared s)))"

lemma allow_halfOpen:
  assumes "state b = StateHalfOpen"
  shows "allow (b, w) =
    (if HalfOpenMaxCalls (cfg b) \<le> halfOpenActive b then (Some ErrBreakerOpen, (b, w))
     else (None, (b\<lparr>halfOpenActive := halfOpenActive b + 1\<rparr>, w)))"
  by (simp add: allow_def maybeHalfOpenLocked_def assms)

lemma allow_closed: "state b = StateClosed \<Longrightarrow> allow (b, w) = (None, rollWindowLocked (b, w))"
  by (simp add: allow_def maybeHalfOpenLocked_def)

lemma allow_open_early:
  assumes "state b = StateOpen" "time_Sub (fst (br_Now b w)) (openedAt b) < OpenTimeout (cfg b)"
  shows "allow (b, w) = (Some ErrBreakerOpen, (b, snd (br_Now b w)))"
  using assms by (simp add: allow_def maybeHalfOpenLocked_def Let_def split_beta)

lemma allow_open_due:
  assumes "state b = StateOpen" "OpenTimeout (cfg b) \<le> time_Sub (fst (br_Now b w)) (openedAt b)"
    and "0 < HalfOpenMaxCalls (cfg b)"
  shows "fst (allow (b, w)) = None"
    and "fst (snd (allow (b, w))) = b\<lparr>state := StateHalfOpen, halfOpenActive := 1, halfOpenOK := 0\<rparr>"
  using assms by (simp_all add: allow_def maybeHalfOpenLocked_def Let_def split_beta breaker_fst)

lemma state_close: "state (fst (resetCountsLocked (transitionLocked StateClosed (b, w)))) = StateClosed"
  using fst_transitionLocked [of StateClosed b w]
  by (cases "transitionLocked StateClosed (b, w)") (simp add: breaker_fst)

lemma record_state_halfOpen:
  assumes "state (fst (Breaker_record ok s)) = StateHalfOpen"
  shows "state (fst s) = StateHalfOpen"
    and "halfOpenActive (fst (Breaker_record ok s)) =
      (if 0 < halfOpenActive (fst s) then halfOpenActive (fst s) - 1 else halfOpenActive (fst s))"
proof -
  obtain b w where s: "s = (b, w)" by fastforce
  have no: "state (fst (openLocked x)) = StateOpen" for x :: "'a bstate"
    by (rule openLocked_cases [of "fst x" "snd x"]) simp
  show st: "state (fst s) = StateHalfOpen"
  proof (cases "state b")
    case StateClosed
    obtain b' w' where r: "rollWindowLocked (b, w) = (b', w')" by fastforce
    with rollWindowLocked_frame(1) [of "(b, w)"] StateClosed have "state b' = StateClosed" by simp
    with assms show ?thesis by (simp add: s record_closed [OF StateClosed r] no split: if_splits)
  qed (use assms in \<open>simp_all add: s Breaker_record_def\<close>)
  with assms show "halfOpenActive (fst (Breaker_record ok s)) =
      (if 0 < halfOpenActive (fst s) then halfOpenActive (fst s) - 1 else halfOpenActive (fst s))"
    by (simp add: s record_halfOpen no state_close Let_def split: if_splits)
qed

lemma count_fresh: "\<forall>p. Some p \<in> set cs \<longrightarrow> p \<le> n \<Longrightarrow> count_list cs (Some (Suc n)) = 0"
  by (rule count_notin) (auto dest: spec [of _ "Suc n"])

lemma admit_inv:
  assumes "callers_inv s" shows "callers_inv (act s Admit)"
proof -
  obtain b w where bw: "shared s = (b, w)" by fastforce
  have inv: "breaker_inv b" and cnt: "state b = StateHalfOpen \<Longrightarrow> trials s = halfOpenActive b"
    and le: "\<forall>p. Some p \<in> set (inflight s) \<longrightarrow> p \<le> period s"
    using assms by (simp_all add: callers_inv_def bw)
  have inv': "breaker_inv (fst (snd (allow (b, w))))" using allow_inv [of "(b, w)"] inv by simp
  show ?thesis
  proof (cases "state b")
    case StateClosed
    then show ?thesis using inv' le
      by (auto simp: callers_inv_def bw allow_closed Let_def split_beta)
  next
    case StateHalfOpen
    then show ?thesis using inv' le cnt
      by (auto simp: callers_inv_def bw allow_halfOpen Let_def split_beta)
  next
    case StateOpen
    show ?thesis
    proof (cases "OpenTimeout (cfg b) \<le> time_Sub (fst (br_Now b w)) (openedAt b)")
      case True
      have "0 < HalfOpenMaxCalls (cfg b)" using inv by (simp add: breaker_inv_def config_ok_def)
      note d = allow_open_due [OF StateOpen True this]
      show ?thesis using inv' le count_fresh [OF le]
        by (auto simp: callers_inv_def bw d StateOpen Let_def split_beta le_Suc_eq)
    next
      case False
      then show ?thesis using inv' le StateOpen
        by (simp add: callers_inv_def bw allow_open_early Let_def split_beta)
    qed
  qed
qed

lemma observe_inv:
  assumes "callers_inv s" shows "callers_inv (act s Observe)"
proof -
  obtain b w where bw: "shared s = (b, w)" by fastforce
  have inv: "breaker_inv b" and le: "\<forall>p. Some p \<in> set (inflight s) \<longrightarrow> p \<le> period s"
    using assms by (simp_all add: callers_inv_def bw)
  have "breaker_inv (fst (snd (Breaker_State (b, w))))"
    using maybeHalfOpenLocked_inv [of b w] inv by (simp add: Breaker_State_def split_beta)
  then show ?thesis using assms le count_fresh [OF le]
    by (cases "state b")
      (auto simp: callers_inv_def bw Breaker_State_def maybeHalfOpenLocked_def breaker_fst le_Suc_eq Let_def split_beta)
qed

lemma count_list_remove1: "x \<in> set xs \<Longrightarrow> int (count_list (remove1 x xs) y) = int (count_list xs y) - (if x = y then 1 else 0)"
  by (induction xs) auto

lemma count_list_pos: "x \<in> set xs \<Longrightarrow> 0 < count_list xs x"
  by (induction xs) auto

lemma act_inv:
  assumes "callers_inv s" "timely s a" shows "callers_inv (act s a)"
proof (cases a)
  case Admit
  with admit_inv [OF assms(1)] show ?thesis by simp
next
  case (Finish c ok)
  show ?thesis
  proof (cases "c \<in> set (inflight s)")
    case True
    have pos: "0 < count_list (inflight s) c" using True by (rule count_list_pos)
    have "breaker_inv (fst (Breaker_record ok (shared s)))"
      using assms(1) by (simp add: callers_inv_def record_inv)
    moreover have "Some p \<in> set (remove1 c (inflight s)) \<Longrightarrow> p \<le> period s" for p
      using assms(1) notin_set_remove1 [of "Some p" "inflight s" c] by (auto simp: callers_inv_def)
    ultimately show ?thesis
      using assms True pos record_state_halfOpen [of ok "shared s"]
      by (auto simp: callers_inv_def Finish count_list_remove1)
  next
    case False
    with assms Finish show ?thesis by simp
  qed
next
  case (Abandon c)
  show ?thesis
  proof (cases "c \<in> set (inflight s)")
    case True
    have pos: "0 < count_list (inflight s) c" using True by (rule count_list_pos)
    have "breaker_inv (fst (release (shared s)))"
      using assms(1) by (simp add: callers_inv_def release_inv)
    moreover have "Some p \<in> set (remove1 c (inflight s)) \<Longrightarrow> p \<le> period s" for p
      using assms(1) notin_set_remove1 [of "Some p" "inflight s" c] by (auto simp: callers_inv_def)
    ultimately show ?thesis
      using assms True pos
      by (auto simp: callers_inv_def Abandon count_list_remove1 release_def split_beta)
  next
    case False
    with assms Abandon show ?thesis by simp
  qed
next
  case Observe
  with observe_inv [OF assms(1)] show ?thesis by simp
next
  case (Elapse w)
  with assms show ?thesis by (simp add: callers_inv_def)
qed

lemma acts_inv: "callers_inv s \<Longrightarrow> all_timely s as \<Longrightarrow> callers_inv (foldl act s as)"
  by (induction as arbitrary: s) (auto intro: act_inv)

lemma start_callers_inv: "breaker_inv (fst s) \<Longrightarrow> state (fst s) = StateClosed \<Longrightarrow> callers_inv (start_callers s)"
  by (simp add: start_callers_def callers_inv_def)

section \<open>Recovery\<close>

text \<open>A dependency that answers: \<open>fn\<close> returns no error and nothing else touches the breaker.\<close>

definition healthy :: "('w bstate \<Rightarrow> go_error option \<times> 'w bstate) \<Rightarrow> bool" where
  "healthy fn \<longleftrightarrow> (\<forall>s. fst (fn s) = None \<and> fst (snd (fn s)) = fst s)"

abbreviation after_Do ::
  "('w \<Rightarrow> go_error option) \<Rightarrow> ('w bstate \<Rightarrow> go_error option \<times> 'w bstate) \<Rightarrow> 'w bstate \<Rightarrow> 'w bstate" where
  "after_Do ctxErr fn s \<equiv> snd (Breaker_Do ctxErr fn s)"

lemma Do_healthy:
  assumes "healthy fn" "allow s = (None, t)"
  shows "fst (after_Do ctxErr fn s) = fst (Breaker_record True (fst t, snd (snd (fn t))))"
proof -
  obtain u where "fn t = (None, u)" "fst u = fst t"
    using assms(1) by (metis healthy_def prod.collapse)
  then have "fn t = (None, (fst t, snd u))" by (metis prod.collapse)
  then show ?thesis by (simp add: Breaker_Do_def assms(2))
qed

text \<open>One successful trial: it closes the breaker or counts one more success.\<close>

lemma Do_healthy_trial:
  assumes "healthy fn" "breaker_inv b" "state b = StateHalfOpen" "halfOpenActive b = 0"
  shows "fst (after_Do ctxErr fn (b, w)) =
           b\<lparr>halfOpenOK := halfOpenOK b + 1\<rparr> \<and> halfOpenOK b + 1 < HalfOpenSuccesses (cfg b) \<or>
         state (fst (after_Do ctxErr fn (b, w))) = StateClosed \<and>
           HalfOpenSuccesses (cfg b) = halfOpenOK b + 1"
proof -
  have "allow (b, w) = (None, (b\<lparr>halfOpenActive := 1\<rparr>, w))"
    using assms by (simp add: allow_halfOpen breaker_inv_def config_ok_def)
  note d = Do_healthy [OF assms(1) this, of ctxErr]
  show ?thesis
    using assms unfolding d
    by (auto simp: record_halfOpen state_close Let_def breaker_inv_def)
qed

text \<open>The first successful trial after the timeout.\<close>

lemma Do_healthy_first:
  assumes "healthy fn" "breaker_inv b" "state b = StateOpen"
    and "OpenTimeout (cfg b) \<le> time_Sub (fst (br_Now b w)) (openedAt b)"
  shows "fst (after_Do ctxErr fn (b, w)) =
           b\<lparr>state := StateHalfOpen, halfOpenOK := 1\<rparr> \<and> 1 < HalfOpenSuccesses (cfg b) \<or>
         state (fst (after_Do ctxErr fn (b, w))) = StateClosed \<and> HalfOpenSuccesses (cfg b) = 1"
proof -
  have pos: "0 < HalfOpenMaxCalls (cfg b)" "0 < HalfOpenSuccesses (cfg b)" "halfOpenActive b = 0"
    using assms by (simp_all add: breaker_inv_def config_ok_def)
  note a = allow_open_due [OF assms(3,4) pos(1)]
  obtain t where t: "allow (b, w) = (None, t)" "fst t = b\<lparr>state := StateHalfOpen, halfOpenActive := 1, halfOpenOK := 0\<rparr>"
    using a by (metis prod.collapse)
  note d = Do_healthy [OF assms(1) t(1), of ctxErr]
  show ?thesis
    using assms pos unfolding d
    by (auto simp: t(2) record_halfOpen state_close Let_def)
qed

lemma healthy_trials_close:
  assumes "healthy fn"
  shows "breaker_inv b \<Longrightarrow> state b = StateHalfOpen \<Longrightarrow> halfOpenActive b = 0 \<Longrightarrow>
    n = nat (HalfOpenSuccesses (cfg b) - halfOpenOK b) \<Longrightarrow>
    state (fst ((after_Do ctxErr fn ^^ n) (b, w))) = StateClosed"
proof (induction n arbitrary: b w)
  case 0
  then show ?case by (simp add: breaker_inv_def)
next
  case (Suc n)
  obtain b' w' where d: "after_Do ctxErr fn (b, w) = (b', w')" by fastforce
  consider "b' = b\<lparr>halfOpenOK := halfOpenOK b + 1\<rparr>" "halfOpenOK b + 1 < HalfOpenSuccesses (cfg b)"
    | "state b' = StateClosed" "HalfOpenSuccesses (cfg b) = halfOpenOK b + 1"
    using Do_healthy_trial [OF assms Suc.prems(1-3), of ctxErr w] by (auto simp: d)
  then show ?case
  proof cases
    case 1
    have "breaker_inv b'" using Suc.prems(1) 1 Suc.prems(2) by (simp add: breaker_inv_def)
    moreover have "n = nat (HalfOpenSuccesses (cfg b') - halfOpenOK b')"
      using Suc.prems(4) 1 by simp
    ultimately have "state (fst ((after_Do ctxErr fn ^^ n) (b', w'))) = StateClosed"
      using Suc.prems(2,3) 1 by (intro Suc.IH) simp_all
    then show ?thesis by (simp add: funpow_Suc_right d del: funpow.simps)
  next
    case 2
    with Suc.prems(4) have "n = 0" by simp
    with 2 show ?thesis by (simp add: d)
  qed
qed

section \<open>Properties\<close>

text \<open>
  C12. Whatever calls arrive in whatever order, and whatever the clock and the notification do, a
  breaker made by \<open>NewBreaker\<close> stays well formed: counters are never negative, at most
  \<open>HalfOpenMaxCalls\<close> trials are counted as active, fewer than \<open>HalfOpenSuccesses\<close> successes are
  pending, and each state keeps the counters of the other states at zero.
\<close>

theorem breaker_invariant:
  "breaker_inv (fst (foldl breaker_step (NewBreaker tn nm c w) es))"
  by (rule br.good_run) (rule NewBreaker_inv)

text \<open>
  C13. The breaker implements the cycle closed, open, half open: the notifications sent to
  \<open>OnStateChange\<close> during any sequence of calls form an unbroken path of legal transitions from
  closed to the state the breaker is in.
\<close>

theorem breaker_notifications:
  assumes "logging lg (BreakerConfig_withDefaults tn c)"
  shows "\<exists>ps. lg (snd (foldl breaker_step (NewBreaker tn nm c w) es)) = lg w @ ps \<and>
    spec_path StateClosed ps (state (fst (foldl breaker_step (NewBreaker tn nm c w) es)))"
proof -
  let ?s = "NewBreaker tn nm c w"
  have new: "cfg (fst ?s) = BreakerConfig_withDefaults tn c" "state (fst ?s) = StateClosed" "lg (snd ?s) = lg w"
    using assms by (simp_all add: NewBreaker_def logging_def Let_def split_beta)
  have "logged lg ?s (foldl breaker_step ?s es)"
    using br_log.rel_run [where s = ?s and lg = lg and es = es] assms by (simp add: new)
  then show ?thesis by (simp add: logged_def new)
qed

definition wit_now :: "time \<times> (State \<times> State) list \<Rightarrow> time \<times> time \<times> (State \<times> State) list" where
  "wit_now w = (fst w, (fst w + 20 * Second, snd w))"

definition wit_cfg :: "(time \<times> (State \<times> State) list) BreakerConfig" where
  "wit_cfg = \<lparr>MinimumRequests = 1, FailureRatio = 1/2, OpenTimeout = 0, HalfOpenMaxCalls = 1,
     HalfOpenSuccesses = 1, Window = 0, Now = None,
     OnStateChange = Some (\<lambda>a b w. (fst w, snd w @ [(a, b)]))\<rparr>"

theorem breaker_notifications_witness:
  "logging snd (BreakerConfig_withDefaults wit_now wit_cfg) \<and>
   (\<exists>ps. snd (snd (foldl breaker_step (NewBreaker wit_now ''x'' wit_cfg (0, []))
        [CallAllow, CallRecord False, CallAllow, CallRecord True])) = [] @ ps \<and>
     spec_path StateClosed ps (state (fst (foldl breaker_step (NewBreaker wit_now ''x'' wit_cfg (0, []))
        [CallAllow, CallRecord False, CallAllow, CallRecord True]))))"
proof -
  have l: "logging snd (BreakerConfig_withDefaults wit_now wit_cfg)"
    by (simp add: logging_def BreakerConfig_withDefaults_def wit_cfg_def wit_now_def)
  show ?thesis
    using l breaker_notifications [OF l, of "''x''" "(0, [])" "[CallAllow, CallRecord False, CallAllow, CallRecord True]"]
    by simp
qed

text \<open>
  An open breaker whose timeout has not elapsed fails fast: \<open>Do\<close> returns \<open>ErrBreakerOpen\<close>,
  never runs \<open>fn\<close> (the result does not depend on it), changes nothing in the breaker and reads
  the clock once.
\<close>

lemma open_fails_fast:
  assumes "state b = StateOpen" "time_Sub (fst (br_Now b w)) (openedAt b) < OpenTimeout (cfg b)"
  shows "Breaker_Do ctxErr fn (b, w) = (Some ErrBreakerOpen, (b, snd (br_Now b w)))"
  by (simp add: Breaker_Do_def allow_open_early [OF assms])

definition wit_plain :: "time BreakerConfig" where
  "wit_plain = \<lparr>MinimumRequests = 2, FailureRatio = 1/2, OpenTimeout = 15 * Second,
     HalfOpenMaxCalls = 1, HalfOpenSuccesses = 2, Window = 30 * Second,
     Now = Some (\<lambda>w. (w, w)), OnStateChange = None\<rparr>"

definition wit_breaker :: "State \<Rightarrow> time Breaker" where
  "wit_breaker st = \<lparr>br_name = ''scorer'', cfg = wit_plain, state = st, successes = 0, failures = 0,
     windowStart = 0, openedAt = 0, halfOpenActive = 0, halfOpenOK = 0\<rparr>"

lemma wit_breaker_inv: "breaker_inv (wit_breaker st)"
  by (simp add: breaker_inv_def config_ok_def wit_breaker_def wit_plain_def)

text \<open>
  C27. The trip decision, for the failure ratio one half that the gateway configures: a failure
  recorded by a closed breaker inside its window opens it exactly when the window then holds at
  least \<open>MinimumRequests\<close> outcomes and at least half of them are failures. The floating-point
  test of the code agrees with this integer test for every count up to \<open>2 ^ 53\<close>.
\<close>

theorem failure_trips_iff:
  assumes "breaker_inv b" "state b = StateClosed" "FailureRatio (cfg b) = 1/2"
    and "time_Sub (fst (br_Now b w)) (windowStart b) < Window (cfg b)"
    and "successes b + failures b < 2 ^ 53"
  shows "state (fst (Breaker_record False (b, w))) =
    (if MinimumRequests (cfg b) \<le> successes b + failures b + 1 \<and> successes b \<le> failures b + 1
     then StateOpen else StateClosed)"
proof -
  have r: "rollWindowLocked (b, w) = (b, snd (br_Now b w))"
    using assms(4) by (simp add: rollWindowLocked_def Let_def split_beta)
  have "0 \<le> successes b" "0 \<le> failures b" using assms(1) by (simp_all add: breaker_inv_def)
  then have "trips (cfg b) (failures b + 1) (successes b + (failures b + 1)) \<longleftrightarrow>
      MinimumRequests (cfg b) \<le> successes b + failures b + 1 \<and> successes b \<le> failures b + 1"
    using half_ratio [of "successes b + (failures b + 1)" "failures b + 1"] assms(3,5)
    by (auto simp: trips_def)
  moreover have "state (fst (openLocked (d, v))) = StateOpen" for d :: "'a Breaker" and v
    by (rule openLocked_cases [of d v]) simp
  ultimately show ?thesis using assms(2) by (simp add: record_closed [OF assms(2) r])
qed

theorem failure_trips_iff_witness:
  "state (fst (Breaker_record False ((wit_breaker StateClosed)\<lparr>successes := 1\<rparr>, Second))) = StateOpen \<and>
   state (fst (Breaker_record False ((wit_breaker StateClosed)\<lparr>successes := 2\<rparr>, Second))) = StateClosed"
proof -
  have "breaker_inv ((wit_breaker StateClosed)\<lparr>successes := n\<rparr>)" if "0 \<le> n" for n
    using wit_breaker_inv [of StateClosed] that by (simp add: breaker_inv_def wit_breaker_def)
  from failure_trips_iff [OF this, of 1 Second] failure_trips_iff [OF this, of 2 Second]
  show ?thesis
    by (simp add: wit_breaker_def wit_plain_def time_Sub_def maxDuration_def minDuration_def)
qed

text \<open>
  C28. A recovered dependency is let back in: once the timeout has elapsed, \<open>HalfOpenSuccesses\<close>
  consecutive calls of \<open>Do\<close> that succeed close the breaker.
\<close>

theorem recovery_closes:
  assumes "healthy fn" "breaker_inv b" "state b = StateOpen"
    and "OpenTimeout (cfg b) \<le> time_Sub (fst (br_Now b w)) (openedAt b)"
  shows "state (fst ((after_Do ctxErr fn ^^ nat (HalfOpenSuccesses (cfg b))) (b, w))) = StateClosed"
proof -
  obtain b' w' where d: "after_Do ctxErr fn (b, w) = (b', w')" by fastforce
  have pos: "0 < HalfOpenSuccesses (cfg b)" using assms(2) by (simp add: breaker_inv_def config_ok_def)
  then obtain n where n: "nat (HalfOpenSuccesses (cfg b)) = Suc n" by (cases "nat (HalfOpenSuccesses (cfg b))") auto
  consider "b' = b\<lparr>state := StateHalfOpen, halfOpenOK := 1\<rparr>" "1 < HalfOpenSuccesses (cfg b)"
    | "state b' = StateClosed" "HalfOpenSuccesses (cfg b) = 1"
    using Do_healthy_first [OF assms, of ctxErr] by (auto simp: d)
  then have "state (fst ((after_Do ctxErr fn ^^ n) (b', w'))) = StateClosed"
  proof cases
    case 1
    with assms n show ?thesis
      by (intro healthy_trials_close) (auto simp: breaker_inv_def)
  next
    case 2
    with n show ?thesis by simp
  qed
  then show ?thesis by (simp add: n funpow_Suc_right d del: funpow.simps)
qed

theorem recovery_closes_witness:
  "state (fst ((after_Do (\<lambda>_. None) (\<lambda>s. (None, s)) ^^ 2) (wit_breaker StateOpen, 20 * Second))) = StateClosed"
proof -
  have "healthy (\<lambda>s :: time bstate. (None, s))" by (simp add: healthy_def)
  moreover note wit_breaker_inv [of StateOpen]
  moreover have "state (wit_breaker StateOpen) = StateOpen"
    "OpenTimeout (cfg (wit_breaker StateOpen))
       \<le> time_Sub (fst (br_Now (wit_breaker StateOpen) (20 * Second))) (openedAt (wit_breaker StateOpen))"
    by (simp_all add: wit_breaker_def wit_plain_def time_Sub_def maxDuration_def minDuration_def)
  ultimately have "state (fst ((after_Do (\<lambda>_. None) (\<lambda>s. (None, s)) ^^
      nat (HalfOpenSuccesses (cfg (wit_breaker StateOpen)))) (wit_breaker StateOpen, 20 * Second))) = StateClosed"
    by (rule recovery_closes)
  then show ?thesis by (simp add: wit_breaker_def wit_plain_def)
qed

text \<open>
  A call that the caller itself cancelled is not held against the dependency: when \<open>fn\<close>
  returns the context's own error, \<open>Do\<close> leaves the breaker exactly as it was. In a half-open
  breaker the trial's slot is given back; in a closed one no outcome is counted.
\<close>

definition cancelled ::
  "('w \<Rightarrow> go_error option) \<Rightarrow> ('w bstate \<Rightarrow> go_error option \<times> 'w bstate) \<Rightarrow> bool" where
  "cancelled ctxErr fn \<longleftrightarrow>
     (\<forall>s. \<exists>e ce v. fn s = (Some e, (fst s, v)) \<and> ctxErr v = Some ce \<and> errors_Is e ce)"

lemma Do_cancelled:
  assumes "cancelled ctxErr fn" "allow s = (None, t)"
  shows "fst (after_Do ctxErr fn s) = fst (release t)"
proof -
  obtain e ce v where "fn t = (Some e, (fst t, v))" "ctxErr v = Some ce" "errors_Is e ce"
    using assms(1) unfolding cancelled_def by blast
  then show ?thesis by (simp add: Breaker_Do_def assms(2) release_def split_beta)
qed

lemma cancellation_not_counted:
  assumes "cancelled ctxErr fn" "breaker_inv b" "state b \<noteq> StateOpen"
    and "time_Sub (fst (br_Now b w)) (windowStart b) < Window (cfg b)"
  shows "fst (after_Do ctxErr fn (b, w)) = b"
proof (cases "state b")
  case StateClosed
  with assms(4) have "allow (b, w) = (None, (b, snd (br_Now b w)))"
    by (simp add: allow_closed rollWindowLocked_def Let_def split_beta)
  with assms(1) StateClosed show ?thesis by (simp add: Do_cancelled release_def)
next
  case StateHalfOpen
  have "0 \<le> halfOpenActive b" using assms(2) by (simp add: breaker_inv_def)
  show ?thesis
  proof (cases "HalfOpenMaxCalls (cfg b) \<le> halfOpenActive b")
    case True
    with StateHalfOpen show ?thesis by (simp add: Breaker_Do_def allow_halfOpen)
  next
    case False
    with StateHalfOpen have "allow (b, w) = (None, (b\<lparr>halfOpenActive := halfOpenActive b + 1\<rparr>, w))"
      by (simp add: allow_halfOpen)
    from Do_cancelled [OF assms(1) this] show ?thesis
      using StateHalfOpen \<open>0 \<le> halfOpenActive b\<close> by (simp add: release_def)
  qed
qed (use assms(3) in simp)

text \<open>
  C1. While the breaker is half open, the trial calls of the current period that are actually in
  flight number at most \<open>HalfOpenMaxCalls\<close>, for any interleaving of callers of \<open>Do\<close> and of \<open>State\<close> in
  which the calls that end during a half-open period were admitted in that period.
\<close>

theorem trials_in_flight_bounded:
  assumes "all_timely (start_callers (NewBreaker tn nm c w)) as"
    and "state (fst (shared (foldl act (start_callers (NewBreaker tn nm c w)) as))) = StateHalfOpen"
  shows "trials (foldl act (start_callers (NewBreaker tn nm c w)) as)
    \<le> HalfOpenMaxCalls (cfg (fst (shared (foldl act (start_callers (NewBreaker tn nm c w)) as))))"
proof -
  let ?s = "NewBreaker tn nm c w"
  have "callers_inv (start_callers ?s)"
    by (rule start_callers_inv) (simp_all add: NewBreaker_inv, simp add: NewBreaker_def Let_def split_beta)
  then have "callers_inv (foldl act (start_callers ?s) as)" using assms(1) by (rule acts_inv)
  with assms(2) show ?thesis by (simp add: callers_inv_def breaker_inv_def)
qed

definition wit_trial :: "time action list" where
  "wit_trial = [Admit, Finish None False, Admit, Finish None False, Elapse (20 * Second), Observe, Admit]"

lemma wit_plain_fields:
  "BreakerConfig_withDefaults tn wit_plain = wit_plain"
  "OpenTimeout wit_plain = 15 * Second" "HalfOpenMaxCalls wit_plain = 1"
  "HalfOpenSuccesses wit_plain = 2" "Window wit_plain = 30 * Second"
  "Now wit_plain = Some (\<lambda>w. (w, w))" "OnStateChange wit_plain = None"
  by (simp_all add: wit_plain_def BreakerConfig_withDefaults_def)

lemma wit_plain_trips: "\<not> trips wit_plain 1 1" "trips wit_plain 2 2"
  by code_simp+

lemmas wit_exec = wit_plain_fields wit_plain_trips start_callers_def NewBreaker_def allow_def Breaker_State_def
  maybeHalfOpenLocked_def rollWindowLocked_def Breaker_record_def openLocked_def transitionLocked_def
  resetCountsLocked_def time_Sub_def maxDuration_def minDuration_def

theorem trials_in_flight_bounded_witness:
  "trials (foldl act (start_callers (NewBreaker (\<lambda>w. (w, w)) ''scorer'' wit_plain 0)) wit_trial) \<le> 1"
proof -
  have "all_timely (start_callers (NewBreaker (\<lambda>w. (w, w)) ''scorer'' wit_plain 0)) wit_trial"
    by (simp add: wit_trial_def wit_exec)
  moreover have "state (fst (shared (foldl act (start_callers (NewBreaker (\<lambda>w. (w, w)) ''scorer'' wit_plain 0)) wit_trial))) = StateHalfOpen"
    by (simp add: wit_trial_def wit_exec)
  ultimately have "trials (foldl act (start_callers (NewBreaker (\<lambda>w. (w, w)) ''scorer'' wit_plain 0)) wit_trial)
      \<le> HalfOpenMaxCalls (cfg (fst (shared (foldl act (start_callers (NewBreaker (\<lambda>w. (w, w)) ''scorer'' wit_plain 0)) wit_trial))))"
    by (rule trials_in_flight_bounded)
  also have "\<dots> = 1" by (simp add: wit_trial_def wit_exec)
  finally show ?thesis .
qed

text \<open>
  Each of these ends a call, successfully or by the caller's own cancellation, and then starts another one.
\<close>

definition replaced :: "nat option \<times> bool \<Rightarrow> 'w action list" where
  "replaced = (\<lambda>(c, ok). [if ok then Finish c True else Abandon c, Admit])"

text \<open>A half-open breaker with no trial slot left, and room for \<open>n\<close> more successes before it closes.\<close>

definition full_for :: "int \<Rightarrow> 'w callers \<Rightarrow> bool" where
  "full_for n s \<longleftrightarrow> (let b = fst (shared s)
     in state b = StateHalfOpen \<and> 0 < HalfOpenMaxCalls (cfg b) \<and> halfOpenActive b = HalfOpenMaxCalls (cfg b) \<and>
        halfOpenOK b + n < HalfOpenSuccesses (cfg b))"

lemma replaced_full:
  assumes "full_for n s" "c \<in> set (inflight s)" "c \<noteq> Some (period s)" "(if ok then 1 else 0) \<le> n"
  shows "full_for (n - (if ok then 1 else 0)) (foldl act s (replaced (c, ok)))"
    "period (foldl act s (replaced (c, ok))) = period s"
    "inflight (foldl act s (replaced (c, ok))) = Some (period s) # remove1 c (inflight s)"
    "cfg (fst (shared (foldl act s (replaced (c, ok))))) = cfg (fst (shared s))"
proof -
  obtain b w where bw: "shared s = (b, w)" by fastforce
  have b: "state b = StateHalfOpen" "0 < HalfOpenMaxCalls (cfg b)" "halfOpenActive b = HalfOpenMaxCalls (cfg b)"
    "halfOpenOK b + n < HalfOpenSuccesses (cfg b)" using assms(1) by (simp_all add: full_for_def bw Let_def)
  let ?b = "b\<lparr>halfOpenActive := halfOpenActive b - 1, halfOpenOK := halfOpenOK b + (if ok then 1 else 0)\<rparr>"
  define s1 where "s1 = act s (if ok then Finish c True else Abandon c)"
  have s1: "shared s1 = (?b, w)" "period s1 = period s" "inflight s1 = remove1 c (inflight s)"
    using b assms(2,4) by (auto simp: s1_def bw record_halfOpen release_def Let_def)
  have "allow (?b, w) = (None, (?b\<lparr>halfOpenActive := HalfOpenMaxCalls (cfg b)\<rparr>, w))"
    using b by (simp add: allow_halfOpen)
  then have e: "shared (act s1 Admit) = (?b\<lparr>halfOpenActive := HalfOpenMaxCalls (cfg b)\<rparr>, w)" "period (act s1 Admit) = period s"
    "inflight (act s1 Admit) = Some (period s) # remove1 c (inflight s)"
    using b(1) s1 by (simp_all add: Let_def)
  have "foldl act s (replaced (c, ok)) = act s1 Admit" by (simp add: replaced_def s1_def del: act.simps)
  then show "full_for (n - (if ok then 1 else 0)) (foldl act s (replaced (c, ok)))"
    "period (foldl act s (replaced (c, ok))) = period s"
    "inflight (foldl act s (replaced (c, ok))) = Some (period s) # remove1 c (inflight s)"
    "cfg (fst (shared (foldl act s (replaced (c, ok))))) = cfg (fst (shared s))"
    using b e by (simp_all add: full_for_def bw Let_def del: act.simps)
qed

lemma replaced_run:
  assumes "full_for (int (length (filter snd ends))) s" "Some (period s) \<notin> set (map fst ends)"
    and "\<And>c. count_list (map fst ends) c \<le> count_list (inflight s) c"
  shows "full_for 0 (foldl act s (concat (map replaced ends))) \<and>
    trials (foldl act s (concat (map replaced ends))) = trials s + int (length ends) \<and>
    cfg (fst (shared (foldl act s (concat (map replaced ends))))) = cfg (fst (shared s))"
  using assms
proof (induction ends arbitrary: s)
  case (Cons e ends)
  obtain c ok where e: "e = (c, ok)" by fastforce
  let ?s = "foldl act s (replaced (c, ok))"
  have "0 < count_list (inflight s) c" using Cons.prems(3) [of c] by (simp add: e)
  then have c: "c \<in> set (inflight s)" "c \<noteq> Some (period s)"
    using count_notin [of c "inflight s"] Cons.prems(2) by (auto simp: e)
  have n: "(if ok then 1 else 0) \<le> int (length (filter snd (e # ends)))" by (simp add: e)
  note r = replaced_full [OF Cons.prems(1) c n]
  have "count_list (map fst ends) d \<le> count_list (inflight ?s) d" for d
  proof -
    have "int (count_list (remove1 c (inflight s)) d) = int (count_list (inflight s) d) - (if c = d then 1 else 0)"
      using c(1) by (rule count_list_remove1)
    then show ?thesis using Cons.prems(3) [of d] unfolding r(3) by (auto simp: e split: if_splits)
  qed
  moreover have "full_for (int (length (filter snd ends))) ?s" using r(1) by (cases ok) (simp_all add: e)
  moreover have "Some (period ?s) \<notin> set (map fst ends)" using Cons.prems(2) unfolding r(2) by simp
  ultimately have "full_for 0 (foldl act ?s (concat (map replaced ends))) \<and>
      trials (foldl act ?s (concat (map replaced ends))) = trials ?s + int (length ends) \<and>
      cfg (fst (shared (foldl act ?s (concat (map replaced ends))))) = cfg (fst (shared ?s))"
    by (intro Cons.IH)
  moreover have "trials ?s = trials s + 1"
    unfolding r(2,3) using count_list_remove1 [OF c(1), of "Some (period s)"] c(2) by simp
  ultimately show ?case using r(4) by (simp add: e)
qed simp

text \<open>
  C40. Without that condition the bound fails, by as much as there are late calls. In any state that callers reach
  in time, where the breaker is half open with all its trial slots taken, let calls of an earlier period, which
  are still in flight, succeed or be cancelled by their callers, and another call arrive after each. The breaker
  takes each for a trial and gives its slot away, so it admits all the new calls, and the trials in flight
  are \<open>HalfOpenMaxCalls\<close> and as many more as late calls ended. The successes among them are too few to close it.
\<close>

theorem stale_verdict_exceeds_bound:
  assumes "s = foldl act (start_callers (NewBreaker tn nm c w)) as" "all_timely (start_callers (NewBreaker tn nm c w)) as"
    and "state (fst (shared s)) = StateHalfOpen" "halfOpenActive (fst (shared s)) = HalfOpenMaxCalls (cfg (fst (shared s)))"
    and "Some (period s) \<notin> set (map fst ends)" "\<And>c. count_list (map fst ends) c \<le> count_list (inflight s) c"
    and "halfOpenOK (fst (shared s)) + int (length (filter snd ends)) < HalfOpenSuccesses (cfg (fst (shared s)))"
  shows "state (fst (shared (foldl act s (concat (map replaced ends))))) = StateHalfOpen \<and>
    trials (foldl act s (concat (map replaced ends))) = HalfOpenMaxCalls (cfg (fst (shared s))) + int (length ends)"
proof -
  have "callers_inv (start_callers (NewBreaker tn nm c w))"
    by (rule start_callers_inv) (simp_all add: NewBreaker_inv, simp add: NewBreaker_def Let_def split_beta)
  then have inv: "callers_inv s" unfolding assms(1) using assms(2) by (rule acts_inv)
  then have t: "trials s = HalfOpenMaxCalls (cfg (fst (shared s)))" using assms(3,4) by (simp add: callers_inv_def)
  have "0 < HalfOpenMaxCalls (cfg (fst (shared s)))" using inv by (simp add: callers_inv_def breaker_inv_def config_ok_def)
  then have "full_for (int (length (filter snd ends))) s" using assms(3,4,7) by (simp add: full_for_def Let_def)
  from replaced_run [OF this assms(5,6)] t show ?thesis by (simp add: full_for_def Let_def)
qed

text \<open>Three calls are admitted, two of them fail and trip the breaker, and the third succeeds while a trial runs.\<close>

definition stale_run :: "time action list" where
  "stale_run = [Admit, Admit, Admit, Finish None False, Finish None False, Elapse (20 * Second), Admit]"

lemma stale_verdict_exceeds_bound_witness:
  "trials (foldl act (start_callers (NewBreaker (\<lambda>w. (w, w)) ''scorer'' wit_plain 0)) (stale_run @ [Finish None True, Admit])) = 2"
proof -
  define s where "s = foldl act (start_callers (NewBreaker (\<lambda>w. (w, w)) ''scorer'' wit_plain 0)) stale_run"
  have t: "all_timely (start_callers (NewBreaker (\<lambda>w. (w, w)) ''scorer'' wit_plain 0)) stale_run"
    by (simp add: stale_run_def wit_exec)
  have f: "state (fst (shared s)) = StateHalfOpen" "halfOpenActive (fst (shared s)) = HalfOpenMaxCalls (cfg (fst (shared s)))"
    "period s = 1" "inflight s = [Some 1, None]" "HalfOpenMaxCalls (cfg (fst (shared s))) = 1"
    "halfOpenOK (fst (shared s)) + 1 < HalfOpenSuccesses (cfg (fst (shared s)))"
    by (simp_all add: s_def stale_run_def wit_exec)
  have "trials (foldl act s (concat (map replaced [(None, True)]))) = HalfOpenMaxCalls (cfg (fst (shared s))) + int (length [(None :: nat option, True)])"
    using stale_verdict_exceeds_bound [OF s_def t f(1,2), of "[(None, True)]"] f by auto
  then show ?thesis using f(5) by (simp add: s_def replaced_def del: act.simps)
qed

end
