(* ===== verification/Retry.thy ===== *)
theory Retry
  imports Float64
begin

text \<open>
  The bounded retry loop of \<open>internal/platform/resilience/retry.go\<close>.

  The loop's effects are its function arguments: the attempt \<open>fn\<close>, the random source, the sleep,
  the callback before each retry, the caller's context and the clock. Each acts on a world \<open>'w\<close>
  that the loop threads through in the order the code calls them.
\<close>

section \<open>Configuration\<close>

definition Permanently :: "go_error \<Rightarrow> go_error" where
  "Permanently err = Permanent err"

text \<open>A context: its error, which the world may set at any time, and its fixed deadline.\<close>

record 'w Context =
  ctx_Err :: "'w \<Rightarrow> go_error option"
  ctx_Deadline :: "time option"

record 'w RetryConfig =
  MaxAttempts :: int
  BaseDelay :: duration
  MaxDelay :: duration
  JitterFraction :: rat
  Rand :: "('w \<Rightarrow> rat \<times> 'w) option"
  Sleep :: "('w Context \<Rightarrow> duration \<Rightarrow> 'w \<Rightarrow> go_error option \<times> 'w) option"
  OnRetry :: "(int \<Rightarrow> duration \<Rightarrow> go_error \<Rightarrow> 'w \<Rightarrow> 'w) option"

text \<open>
  \<open>sleepCtx\<close> waits for a timer or for the context, whichever is first: \<open>wait d\<close> is that
  \<open>select\<close>, and tells whether the context was ready.
\<close>

definition sleepCtx ::
  "(duration \<Rightarrow> 'w \<Rightarrow> bool \<times> 'w) \<Rightarrow> 'w Context \<Rightarrow> duration \<Rightarrow> 'w \<Rightarrow> go_error option \<times> 'w" where
  "sleepCtx wait ctx d w =
     (let (ctx_done, w) = wait d w in (if ctx_done then ctx_Err ctx w else None, w))"

definition RetryConfig_withDefaults ::
  "('w \<Rightarrow> rat \<times> 'w) \<Rightarrow> (duration \<Rightarrow> 'w \<Rightarrow> bool \<times> 'w) \<Rightarrow> 'w RetryConfig \<Rightarrow> 'w RetryConfig" where
  "RetryConfig_withDefaults rand_Float64 wait c =
     (let c = (if MaxAttempts c \<le> 0 then c\<lparr>MaxAttempts := 3\<rparr> else c);
          c = (if BaseDelay c \<le> 0 then c\<lparr>BaseDelay := 50 * Millisecond\<rparr> else c);
          c = (if MaxDelay c \<le> 0 then c\<lparr>MaxDelay := 2 * Second\<rparr> else c);
          c = (if JitterFraction c < 0 \<or> 1 < JitterFraction c then c\<lparr>JitterFraction := rnd64 (3/10)\<rparr> else c);
          c = (if Rand c = None then c\<lparr>Rand := Some rand_Float64\<rparr> else c);
          c = (if Sleep c = None then c\<lparr>Sleep := Some (sleepCtx wait)\<rparr> else c)
      in c)"

section \<open>The backoff\<close>

text \<open>
  \<open>math.Pow (2, n)\<close> is exact. The result of \<open>Rand\<close> is read only when there is jitter to apply.
\<close>

definition nominal :: "'w RetryConfig \<Rightarrow> int \<Rightarrow> rat" where
  "nominal c attempt =
     (let backoff = rnd64 (float64_of_int (BaseDelay c) * 2 powi (attempt - 1))
      in if float64_of_int (MaxDelay c) < backoff then float64_of_int (MaxDelay c) else backoff)"

definition jittered :: "rat \<Rightarrow> rat \<Rightarrow> rat \<Rightarrow> rat" where
  "jittered backoff j r =
     (let spread = rnd64 (backoff * j)
      in rnd64 (rnd64 (backoff - spread) + rnd64 (rnd64 (2 * spread) * r)))"

definition delayFor :: "'w RetryConfig \<Rightarrow> int \<Rightarrow> 'w \<Rightarrow> duration \<times> 'w" where
  "delayFor c attempt w =
     (let backoff = nominal c attempt;
          (backoff, w) =
            (if 0 < JitterFraction c
             then let (r, w) = the (Rand c) w in (jittered backoff (JitterFraction c) r, w)
             else (backoff, w));
          backoff = (if backoff < 0 then 0 else backoff)
      in (int64_of backoff, w))"

section \<open>The loop\<close>

text \<open>Whether the caller's deadline falls within the delay about to be slept.\<close>

definition deadline_within ::
  "('w \<Rightarrow> time \<times> 'w) \<Rightarrow> 'w Context \<Rightarrow> duration \<Rightarrow> 'w \<Rightarrow> bool \<times> 'w" where
  "deadline_within time_Now ctx delay w =
     (case ctx_Deadline ctx of
        None \<Rightarrow> (False, w)
      | Some deadline \<Rightarrow> let (t, w) = time_Now w in (time_Sub deadline t \<le> delay, w))"

definition notifyRetry :: "'w RetryConfig \<Rightarrow> int \<Rightarrow> duration \<Rightarrow> go_error \<Rightarrow> 'w \<Rightarrow> 'w" where
  "notifyRetry c attempt delay err w =
     (case OnRetry c of None \<Rightarrow> w | Some f \<Rightarrow> f attempt delay err w)"

text \<open>
  One turn of the loop: \<open>Inl\<close> is what the function returns, \<open>Inr\<close> is the error after which the
  loop goes on to the next attempt. \<open>Retry_backoff\<close> is its second half, from the computation of
  the delay on.
\<close>

definition Retry_backoff ::
  "('w \<Rightarrow> time \<times> 'w) \<Rightarrow> 'w Context \<Rightarrow> 'w RetryConfig \<Rightarrow> int \<Rightarrow> go_error \<Rightarrow> 'w \<Rightarrow>
   (go_error option + go_error) \<times> 'w" where
  "Retry_backoff time_Now ctx c attempt err w =
     (let (delay, w) = delayFor c attempt w;
          (late, w) = deadline_within time_Now ctx delay w
      in if late then (Inl (Some err), w)
         else let (serr, w) = the (Sleep c) ctx delay (notifyRetry c attempt delay err w)
              in if serr \<noteq> None then (Inl (Some err), w) else (Inr err, w))"

definition Retry_round ::
  "('w \<Rightarrow> time \<times> 'w) \<Rightarrow> 'w Context \<Rightarrow> 'w RetryConfig \<Rightarrow> (int \<Rightarrow> 'w \<Rightarrow> go_error option \<times> 'w) \<Rightarrow>
   int \<Rightarrow> go_error option \<Rightarrow> 'w \<Rightarrow> (go_error option + go_error) \<times> 'w" where
  "Retry_round time_Now ctx c fn attempt lastErr w =
     (case ctx_Err ctx w of
        Some err \<Rightarrow> (Inl (case lastErr of Some l \<Rightarrow> Some l | None \<Rightarrow> Some err), w)
      | None \<Rightarrow>
          (case fn attempt w of
             (None, w) \<Rightarrow> (Inl None, w)
           | (Some err, w) \<Rightarrow>
               (case errors_As_Permanent err of
                  Some inner \<Rightarrow> (Inl (Some inner), w)
                | None \<Rightarrow>
                    if attempt = MaxAttempts c then (Inl (Some err), w)
                    else if ctx_Err ctx w \<noteq> None then (Inl (Some err), w)
                    else Retry_backoff time_Now ctx c attempt err w)))"

function Retry_loop ::
  "('w \<Rightarrow> time \<times> 'w) \<Rightarrow> 'w Context \<Rightarrow> 'w RetryConfig \<Rightarrow> (int \<Rightarrow> 'w \<Rightarrow> go_error option \<times> 'w) \<Rightarrow>
   int \<Rightarrow> go_error option \<Rightarrow> 'w \<Rightarrow> go_error option \<times> 'w" where
  "Retry_loop time_Now ctx c fn attempt lastErr w =
     (if attempt \<le> MaxAttempts c
      then (case Retry_round time_Now ctx c fn attempt lastErr w of
              (Inl res, w) \<Rightarrow> (res, w)
            | (Inr err, w) \<Rightarrow> Retry_loop time_Now ctx c fn (attempt + 1) (Some err) w)
      else (lastErr, w))"
  by pat_completeness auto
termination
  by (relation "measure (\<lambda>(tn, ctx, c, fn, attempt, l, w). nat (MaxAttempts c + 1 - attempt))") auto

declare Retry_loop.simps [simp del]

definition Retry ::
  "('w \<Rightarrow> time \<times> 'w) \<Rightarrow> ('w \<Rightarrow> rat \<times> 'w) \<Rightarrow> (duration \<Rightarrow> 'w \<Rightarrow> bool \<times> 'w) \<Rightarrow>
   'w Context \<Rightarrow> 'w RetryConfig \<Rightarrow> (int \<Rightarrow> 'w \<Rightarrow> go_error option \<times> 'w) \<Rightarrow> 'w \<Rightarrow> go_error option \<times> 'w" where
  "Retry time_Now rand_Float64 wait ctx c fn w =
     Retry_loop time_Now ctx (RetryConfig_withDefaults rand_Float64 wait c) fn 1 None w"

section \<open>How long a backoff is\<close>

lemma nominal_exact:
  assumes "0 < BaseDelay c" "BaseDelay c \<le> 2 ^ 50" "0 < MaxDelay c" "MaxDelay c \<le> 2 ^ 50" "1 \<le> attempt"
  shows "nominal c attempt = min (of_int (BaseDelay c) * 2 ^ nat (attempt - 1)) (of_int (MaxDelay c))"
proof -
  have p: "(2::rat) powi (attempt - 1) = 2 ^ nat (attempt - 1)" using assms(5) by (simp add: power_int_def)
  have "representable (of_int (BaseDelay c) * 2 powi (attempt - 1))"
    using assms by (intro representableI [of _ "BaseDelay c" "attempt - 1"]) simp_all
  with assms show ?thesis by (simp add: nominal_def p Let_def min_def)
qed

lemma nominal_representable [simp]: "representable (nominal c attempt)"
  by (simp add: nominal_def Let_def)

lemma spread_bounds:
  assumes "representable b" "0 \<le> b" "0 \<le> j" "j \<le> 1"
  shows "0 \<le> rnd64 (b * j)" "rnd64 (b * j) \<le> b" "\<bar>rnd64 (b * j) - b * j\<bar> \<le> (b + 1) / 2 ^ 53"
proof -
  have bj: "0 \<le> b * j" "b * j \<le> b" using assms by (simp_all add: mult_left_le)
  then show "0 \<le> rnd64 (b * j)" "rnd64 (b * j) \<le> b" using assms by (simp_all add: fl.rnd_le)
  show "\<bar>rnd64 (b * j) - b * j\<bar> \<le> (b + 1) / 2 ^ 53"
    using rnd64_error [OF bj(1)] bj(2) by (rule_tac order_trans) (auto simp: divide_right_mono)
qed

lemma jittered_bounds:
  assumes "representable b" "0 \<le> b" "b \<le> 2 ^ 50" "0 \<le> j" "j \<le> 1" "0 \<le> r" "r \<le> 1"
  shows "b * (1 - j) - 1 \<le> jittered b j r" "jittered b j r \<le> b * (1 + j) + 1" "0 \<le> jittered b j r"
proof -
  define s where "s = rnd64 (b * j)"
  define d where "d = rnd64 (b - s)"
  define p where "p = rnd64 (rnd64 (2 * s) * r)"
  have J: "jittered b j r = rnd64 (d + p)"
    by (simp add: jittered_def s_def d_def p_def Let_def)
  have e: "(b + 1) / 2 ^ 53 \<le> 1/4" using assms(3) by simp
  have s: "0 \<le> s" "s \<le> b" "\<bar>s - b * j\<bar> \<le> 1/4" "representable s"
    using spread_bounds [OF assms(1,2,4,5)] order_trans [OF _ e] by (simp_all add: s_def)
  have "rnd64 (2 * s) = 2 * s" using representable_double [OF s(4)] by simp
  then have p: "0 \<le> p" "p \<le> 2 * s"
    using s(1) assms(6,7) representable_double [OF s(4)]
    by (simp_all add: p_def fl.rnd_scale_le)
  have "\<bar>d - (b - s)\<bar> \<le> (b - s + 1) / 2 ^ 53" using rnd64_error [of "b - s"] s(2) by (simp add: d_def)
  also have "\<dots> \<le> (b + 1) / 2 ^ 53" using s(1) by (intro divide_right_mono) simp_all
  finally have d: "\<bar>d - (b - s)\<bar> \<le> 1/4" "0 \<le> d" "representable d"
    using e s(2) by (simp_all add: d_def)
  then show "0 \<le> jittered b j r" using p by (simp add: J)
  have "d \<le> rnd64 (d + p)" using d(3) p(1) by (rule fl.rnd_add_ge)
  moreover have "b * (1 - j) - 1 \<le> d" using d(1) s(3) unfolding right_diff_distrib by linarith
  ultimately show "b * (1 - j) - 1 \<le> jittered b j r" by (simp add: J)
  have q: "d + p \<le> b + s + 1/4" using d(1) p(2) by linarith
  have "rnd64 (d + p) - (d + p) \<le> (d + p + 1) / 2 ^ 53"
    by (rule order_trans [OF abs_ge_self rnd64_error]) (use d(2) p(1) in simp)
  also have "\<dots> \<le> 1/2" using q s(2) assms(3) by simp
  finally show "jittered b j r \<le> b * (1 + j) + 1"
    using q s(3) unfolding J distrib_left by linarith
qed

lemma delayFor_min: "minDuration \<le> fst (delayFor c attempt w)"
  using int64_of_min by (simp add: delayFor_def minDuration_def Let_def split_beta)

section \<open>Rules for the loop\<close>

text \<open>
  A property of the world that every effect keeps is kept by the whole loop. \<open>Q\<close> is what the
  deadline check establishes for the sleep that follows it.
\<close>

locale retry_effects =
  fixes tn :: "'w \<Rightarrow> time \<times> 'w" and ctx :: "'w Context" and c :: "'w RetryConfig"
    and fn :: "int \<Rightarrow> 'w \<Rightarrow> go_error option \<times> 'w"
    and P :: "'w \<Rightarrow> bool" and Q :: "duration \<Rightarrow> 'w \<Rightarrow> bool"
  assumes P_fn: "P w \<Longrightarrow> P (snd (fn k w))"
    and P_rand: "P w \<Longrightarrow> P (snd (the (Rand c) w))"
    and P_check: "P w \<Longrightarrow> P (snd (deadline_within tn ctx d w))"
    and Q_check: "P w \<Longrightarrow> minDuration \<le> d \<Longrightarrow> \<not> fst (deadline_within tn ctx d w) \<Longrightarrow> Q d (snd (deadline_within tn ctx d w))"
    and PQ_notify: "P w \<Longrightarrow> Q d w \<Longrightarrow> OnRetry c = Some f \<Longrightarrow> P (f k d e w) \<and> Q d (f k d e w)"
    and P_sleep: "P w \<Longrightarrow> Q d w \<Longrightarrow> P (snd (the (Sleep c) ctx d w))"
begin

lemma P_delay: "P w \<Longrightarrow> P (snd (delayFor c k w))"
  using P_rand [of w] by (simp add: delayFor_def Let_def split_beta)

lemma P_backoff: "P w \<Longrightarrow> P (snd (Retry_backoff tn ctx c k e w))"
proof -
  assume w: "P w"
  obtain d w2 where 2: "delayFor c k w = (d, w2)" by fastforce
  obtain late w3 where 3: "deadline_within tn ctx d w2 = (late, w3)" by fastforce
  have P2: "P w2" using P_delay [OF w, of k] by (simp add: 2)
  then have P3: "P w3" using P_check [of w2 d] by (simp add: 3)
  have "minDuration \<le> d" using delayFor_min [of c k w] by (simp add: 2)
  with P2 have "Q d w3" if "\<not> late" using Q_check [of w2 d] that by (simp add: 3)
  with P3 have "P (notifyRetry c k d e w3) \<and> Q d (notifyRetry c k d e w3)" if "\<not> late"
    using that PQ_notify [of w3 d _ k e] by (auto simp: notifyRetry_def split: option.split)
  then have "P (snd (the (Sleep c) ctx d (notifyRetry c k d e w3)))" if "\<not> late"
    using that by (blast intro: P_sleep)
  with P3 show ?thesis by (simp add: Retry_backoff_def 2 3 split_beta Let_def)
qed

lemma P_round: "P w \<Longrightarrow> P (snd (Retry_round tn ctx c fn k l w))"
  using P_fn [of w k] P_backoff [of "snd (fn k w)" k]
  by (auto simp: Retry_round_def split: option.split prod.split)

lemma P_loop: "P w \<Longrightarrow> P (snd (Retry_loop tn ctx c fn k l w))"
proof (induction "nat (MaxAttempts c + 1 - k)" arbitrary: k l w rule: less_induct)
  case less
  then show ?case using P_round [OF less.prems, of k l]
    by (subst Retry_loop.simps) (auto split: prod.split sum.split)
qed

end

section \<open>What the loop calls and returns\<close>

text \<open>A world that keeps a log of the attempts and their results, which no other effect touches.\<close>

definition observes ::
  "('w \<Rightarrow> (int \<times> go_error option) list) \<Rightarrow> ('w \<Rightarrow> time \<times> 'w) \<Rightarrow> 'w Context \<Rightarrow> 'w RetryConfig \<Rightarrow>
   (int \<Rightarrow> 'w \<Rightarrow> go_error option \<times> 'w) \<Rightarrow> bool" where
  "observes lg tn ctx c fn \<longleftrightarrow>
     (\<forall>k w. lg (snd (fn k w)) = lg w @ [(k, fst (fn k w))]) \<and>
     (\<forall>w. lg (snd (tn w)) = lg w) \<and>
     (\<forall>w. lg (snd (the (Rand c) w)) = lg w) \<and>
     (\<forall>d w. lg (snd (the (Sleep c) ctx d w)) = lg w) \<and>
     (\<forall>f k d e w. OnRetry c = Some f \<longrightarrow> lg (f k d e w) = lg w)"

text \<open>What a result of \<open>fn\<close> makes \<open>Retry\<close> return if the loop stops there.\<close>

definition verdict :: "go_error option \<Rightarrow> go_error option" where
  "verdict r = (case r of None \<Rightarrow> None
     | Some e \<Rightarrow> (case errors_As_Permanent e of Some inner \<Rightarrow> Some inner | None \<Rightarrow> Some e))"

definition retryable :: "go_error option \<Rightarrow> bool" where
  "retryable r = (case r of None \<Rightarrow> False | Some e \<Rightarrow> errors_As_Permanent e = None)"

text \<open>Attempts \<open>k, k + 1, \<dots>\<close> up to \<open>n\<close>, all but the last of which failed with a retryable error.\<close>

fun attempts_ok :: "int \<Rightarrow> int \<Rightarrow> (int \<times> go_error option) list \<Rightarrow> bool" where
  "attempts_ok n k [] = True"
| "attempts_ok n k ((i, r) # cs) =
     (i = k \<and> k \<le> n \<and> (cs \<noteq> [] \<longrightarrow> retryable r) \<and> attempts_ok n (k + 1) cs)"

lemma attempts_ok_length: "attempts_ok n k cs \<Longrightarrow> cs \<noteq> [] \<Longrightarrow> int (length cs) \<le> n + 1 - k"
proof (induction n k cs rule: attempts_ok.induct)
  case (2 n k i r cs)
  then show ?case by (cases cs) auto
qed simp

lemma attempts_ok_butlast: "attempts_ok n k cs \<Longrightarrow> x \<in> set (butlast cs) \<Longrightarrow> retryable (snd x)"
  by (induction n k cs rule: attempts_ok.induct) (auto split: if_splits)

lemma backoff_quiet: "observes lg tn ctx c fn \<Longrightarrow> lg (snd (Retry_backoff tn ctx c k e w)) = lg w"
  by (simp add: Retry_backoff_def delayFor_def deadline_within_def notifyRetry_def observes_def
      Let_def split_beta split: option.split)

lemma backoff_result: "fst (Retry_backoff tn ctx c k e w) \<in> {Inl (Some e), Inr e}"
  by (simp add: Retry_backoff_def Let_def split_beta)

lemma round_cases:
  assumes "observes lg tn ctx c fn"
  obtains
    (cancelled) err where "ctx_Err ctx w = Some err"
      "Retry_round tn ctx c fn k l w = (Inl (case l of Some e \<Rightarrow> Some e | None \<Rightarrow> Some err), w)"
  | (stop) r v where "ctx_Err ctx w = None" "Retry_round tn ctx c fn k l w = (Inl (verdict r), v)"
      "lg v = lg w @ [(k, r)]"
  | (again) e v where "ctx_Err ctx w = None" "Retry_round tn ctx c fn k l w = (Inr e, v)"
      "errors_As_Permanent e = None" "lg v = lg w @ [(k, Some e)]"
proof (cases "ctx_Err ctx w")
  case None
  obtain r v where fn: "fn k w = (r, v)" by fastforce
  have lg: "lg v = lg w @ [(k, r)]" using assms fn by (metis observes_def fst_conv snd_conv)
  show ?thesis
  proof (cases "r = None \<or> \<not> retryable r \<or> k = MaxAttempts c \<or> ctx_Err ctx v \<noteq> None")
    case True
    then have "Retry_round tn ctx c fn k l w = (Inl (verdict r), v)"
      using None by (auto simp: Retry_round_def fn verdict_def retryable_def split: option.splits)
    with None lg show ?thesis by (intro stop)
  next
    case False
    then obtain e where e: "r = Some e" "errors_As_Permanent e = None"
      by (auto simp: retryable_def)
    obtain out u where b: "Retry_backoff tn ctx c k e v = (out, u)" by fastforce
    have "lg u = lg w @ [(k, r)]" using backoff_quiet [OF assms, of k e v] lg by (simp add: b)
    moreover have "Retry_round tn ctx c fn k l w = (out, u)"
      using None False e by (simp add: Retry_round_def fn b)
    ultimately show ?thesis
      using backoff_result [of tn ctx c k e v] None e stop [of r u] again [of e u] by (auto simp: b verdict_def)
  qed
qed (auto simp: Retry_round_def intro: cancelled)

lemma loop_trace:
  assumes "observes lg tn ctx c fn"
  shows "\<exists>cs. lg (snd (Retry_loop tn ctx c fn k l w)) = lg w @ cs \<and> attempts_ok (MaxAttempts c) k cs \<and>
    (if cs \<noteq> [] then fst (Retry_loop tn ctx c fn k l w) = verdict (snd (last cs))
     else MaxAttempts c < k \<and> fst (Retry_loop tn ctx c fn k l w) = l \<or>
       (\<exists>err. ctx_Err ctx w = Some err \<and>
          fst (Retry_loop tn ctx c fn k l w) = (case l of Some e \<Rightarrow> Some e | None \<Rightarrow> Some err)))"
    (is "\<exists>cs. ?P k l w cs")
proof (induction "nat (MaxAttempts c + 1 - k)" arbitrary: k l w rule: less_induct)
  case less
  show ?case
  proof (cases "k \<le> MaxAttempts c")
    case False
    then have "?P k l w []" by (subst (1 2 3) Retry_loop.simps) (simp add: Retry_loop.simps)
    then show ?thesis ..
  next
    case True
    show ?thesis using assms
    proof (cases rule: round_cases [where w = w and k = k and l = l])
      case (cancelled err)
      with True have "?P k l w []" by (simp add: Retry_loop.simps [of _ _ _ _ k])
      then show ?thesis ..
    next
      case (stop r v)
      with True have "?P k l w [(k, r)]" by (simp add: Retry_loop.simps [of _ _ _ _ k])
      then show ?thesis ..
    next
      case (again e v)
      from True less [of "k + 1" "Some e" v] obtain cs where cs: "?P (k + 1) (Some e) v cs" by auto
      have step: "Retry_loop tn ctx c fn k l w = Retry_loop tn ctx c fn (k + 1) (Some e) v"
        using True again(2) by (simp add: Retry_loop.simps [of _ _ _ _ k])
      have "?P k l w ((k, Some e) # cs)"
        unfolding step using cs True again(3,4)
        by (auto simp: retryable_def verdict_def split: if_splits)
      then show ?thesis ..
    qed
  qed
qed

section \<open>Properties\<close>

text \<open>
  The backoff after an attempt lies within the jitter band of the capped exponential: with
  \<open>b = min (BaseDelay * 2 ^ (attempt - 1)) MaxDelay\<close>, the delay is at least \<open>b * (1 - j) - 2\<close> and at
  most \<open>b * (1 + j) + 1\<close> nanoseconds, rounding of every floating-point step and the final
  truncation included.
\<close>

lemma delayFor_band:
  assumes "0 < BaseDelay c" "BaseDelay c \<le> 2 ^ 50" "0 < MaxDelay c" "MaxDelay c \<le> 2 ^ 50"
    and "0 \<le> JitterFraction c" "JitterFraction c \<le> 1" "1 \<le> attempt"
    and "0 \<le> fst (the (Rand c) w)" "fst (the (Rand c) w) \<le> 1"
    and "b = min (of_int (BaseDelay c) * 2 ^ nat (attempt - 1)) (of_int (MaxDelay c))"
  shows "b * (1 - JitterFraction c) - 2 \<le> of_int (fst (delayFor c attempt w)) \<and>
    of_int (fst (delayFor c attempt w)) \<le> b * (1 + JitterFraction c) + 1"
proof -
  have b: "nominal c attempt = b" using assms by (simp add: nominal_exact)
  have pos: "0 \<le> b" using assms by simp
  have "of_int (MaxDelay c) \<le> (of_int (2 ^ 50) :: rat)" using assms(4) by (simp only: of_int_le_iff)
  then have le: "b \<le> 2 ^ 50" using assms(10) by simp
  have rep: "representable b" using nominal_representable [of c attempt] by (simp add: b)
  note jb = jittered_bounds [OF rep pos le assms(5,6,8,9)]
  define x where "x = (if 0 < JitterFraction c then jittered b (JitterFraction c) (fst (the (Rand c) w)) else b)"
  have x: "0 \<le> x" "b * (1 - JitterFraction c) - 1 \<le> x" "x \<le> b * (1 + JitterFraction c) + 1"
    using jb assms(5) pos by (auto simp: x_def)
  have "b * JitterFraction c \<le> 2 ^ 50 * 1" using le assms(5,6) by (intro mult_mono) auto
  then have "x < 2 ^ 63" using x(3) le by (simp add: distrib_left)
  then have "int64_of x = \<lfloor>x\<rfloor>" using x(1) by (simp add: int64_of_small trunc64_def)
  then have "fst (delayFor c attempt w) = \<lfloor>x\<rfloor>"
    using x(1) by (auto simp: delayFor_def b x_def Let_def split_beta)
  moreover have "of_int \<lfloor>x\<rfloor> \<le> x" "x < of_int \<lfloor>x\<rfloor> + 1" by linarith+
  ultimately show ?thesis using x by linarith
qed

definition wit_retry :: "(time \<times> (int \<times> go_error option) list \<times> (time \<times> duration) list) RetryConfig" where
  "wit_retry = \<lparr>MaxAttempts = 3, BaseDelay = 10, MaxDelay = 100, JitterFraction = 1/4,
     Rand = Some (\<lambda>w. (1/2, w)),
     Sleep = Some (\<lambda>ctx d (t, cs, ss). (None, (t + d, cs, ss @ [(t, d)]))), OnRetry = None\<rparr>"

text \<open>
  C22. What \<open>Retry\<close> does, whatever \<open>fn\<close>, the clock, the random source, the sleep and the context do:
  it calls \<open>fn\<close> with attempts \<open>1, 2, \<dots>\<close> in order, at most \<open>MaxAttempts\<close> times; every call but the last
  failed with an error that is not permanent; it returns what the last call determines (no error,
  the error inside a \<open>Permanent\<close>, or the error itself); and if it never called \<open>fn\<close>, the context
  was already done and its error is returned.
\<close>

theorem Retry_attempts:
  assumes "observes lg tn ctx (RetryConfig_withDefaults rf wait c) fn"
  shows "\<exists>cs. lg (snd (Retry tn rf wait ctx c fn w)) = lg w @ cs \<and>
    attempts_ok (MaxAttempts (RetryConfig_withDefaults rf wait c)) 1 cs \<and>
    int (length cs) \<le> MaxAttempts (RetryConfig_withDefaults rf wait c) \<and>
    fst (Retry tn rf wait ctx c fn w) = (if cs = [] then ctx_Err ctx w else verdict (snd (last cs))) \<and>
    (cs = [] \<longrightarrow> ctx_Err ctx w \<noteq> None)"
proof -
  let ?c = "RetryConfig_withDefaults rf wait c"
  have pos: "1 \<le> MaxAttempts ?c" by (auto simp: RetryConfig_withDefaults_def Let_def)
  from loop_trace [OF assms, of 1 None w] obtain cs where
    cs: "lg (snd (Retry tn rf wait ctx c fn w)) = lg w @ cs" "attempts_ok (MaxAttempts ?c) 1 cs"
    and res: "cs \<noteq> [] \<Longrightarrow> fst (Retry tn rf wait ctx c fn w) = verdict (snd (last cs))"
      "cs = [] \<Longrightarrow> \<exists>err. ctx_Err ctx w = Some err \<and> fst (Retry tn rf wait ctx c fn w) = Some err"
    unfolding Retry_def using pos by (auto split: if_splits)
  moreover have "int (length cs) \<le> MaxAttempts ?c"
    using attempts_ok_length [OF cs(2)] pos by (cases cs) auto
  ultimately show ?thesis by (intro exI [of _ cs]) auto
qed

definition wit_ctx :: "time option \<Rightarrow> (time \<times> (int \<times> go_error option) list \<times> (time \<times> duration) list) Context" where
  "wit_ctx d = \<lparr>ctx_Err = (\<lambda>_. None), ctx_Deadline = d\<rparr>"

definition wit_fn :: "int \<Rightarrow> time \<times> (int \<times> go_error option) list \<times> (time \<times> duration) list \<Rightarrow>
    go_error option \<times> time \<times> (int \<times> go_error option) list \<times> (time \<times> duration) list" where
  "wit_fn k = (\<lambda>(t, cs, ss).
     let r = (if k = 2 then Some (Permanent (ErrText ''bad'')) else Some (ErrText ''down''))
     in (r, (t + 1, cs @ [(k, r)], ss)))"

lemma wit_retry_defaults [simp]: "RetryConfig_withDefaults rf wait wit_retry = wit_retry"
  by (simp add: RetryConfig_withDefaults_def wit_retry_def)

theorem Retry_attempts_witness:
  "\<exists>cs. fst (snd (snd (Retry (\<lambda>w. (fst w, w)) (\<lambda>w. (0, w)) (\<lambda>d w. (False, w)) (wit_ctx None) wit_retry wit_fn (0, [], []))))
      = [] @ cs \<and> attempts_ok 3 1 cs \<and> int (length cs) \<le> 3"
proof -
  have "observes (fst \<circ> snd) (\<lambda>w. (fst w, w)) (wit_ctx None)
      (RetryConfig_withDefaults (\<lambda>w. (0, w)) (\<lambda>d w. (False, w)) wit_retry) wit_fn"
    by (auto simp: observes_def wit_fn_def Let_def) (simp_all add: wit_retry_def)
  from Retry_attempts [OF this, of "(0, [], [])"] show ?thesis
    by (auto simp: wit_retry_def RetryConfig_withDefaults_def)
qed

text \<open>A world whose \<open>slog\<close> holds each sleep with the instant it starts at.\<close>

definition sleeps_logged ::
  "('w \<Rightarrow> time) \<Rightarrow> ('w \<Rightarrow> (time \<times> duration) list) \<Rightarrow> ('w \<Rightarrow> time \<times> 'w) \<Rightarrow> 'w Context \<Rightarrow>
   'w RetryConfig \<Rightarrow> (int \<Rightarrow> 'w \<Rightarrow> go_error option \<times> 'w) \<Rightarrow> bool" where
  "sleeps_logged now_of slog tn ctx c fn \<longleftrightarrow>
     (\<forall>w. tn w = (now_of w, w)) \<and>
     (\<forall>k w. slog (snd (fn k w)) = slog w) \<and>
     (\<forall>w. slog (snd (the (Rand c) w)) = slog w) \<and>
     (\<forall>f k d e w. OnRetry c = Some f \<longrightarrow> slog (f k d e w) = slog w \<and> now_of (f k d e w) = now_of w) \<and>
     (\<forall>d w. slog (snd (the (Sleep c) ctx d w)) = slog w @ [(now_of w, d)])"

text \<open>
  C23. The caller's deadline outranks the attempt budget: no sleep that \<open>Retry\<close> starts would run to or
  past the deadline.
\<close>

theorem Retry_sleeps_before_deadline:
  assumes "sleeps_logged now_of slog tn ctx (RetryConfig_withDefaults rf wait c) fn"
    and "ctx_Deadline ctx = Some deadline" and "slog w = []"
  shows "\<forall>(t, d) \<in> set (slog (snd (Retry tn rf wait ctx c fn w))). t + d < deadline"
proof -
  let ?c = "RetryConfig_withDefaults rf wait c"
  let ?P = "\<lambda>w. \<forall>(t, d) \<in> set (slog w). t + d < deadline"
  have soon: "d < deadline - t" if "minDuration \<le> d" "\<not> time_Sub deadline t \<le> d" for t d
    using that by (auto simp: time_Sub_def)
  have "retry_effects tn ctx ?c fn ?P (\<lambda>d w. now_of w + d < deadline)"
    using assms(1,2) soon
    by unfold_locales (auto simp: sleeps_logged_def deadline_within_def, fastforce)
  from retry_effects.P_loop [OF this, of w 1 None] show ?thesis using assms(3) by (simp add: Retry_def)
qed

theorem Retry_sleeps_before_deadline_witness:
  "list_all (\<lambda>(t, d). t + d < 25) (snd (snd (snd (Retry (\<lambda>w. (fst w, w)) (\<lambda>w. (0, w))
      (\<lambda>d w. (False, w)) (wit_ctx (Some 25)) wit_retry wit_fn (0, [], [])))))"
proof -
  have "sleeps_logged fst (snd \<circ> snd) (\<lambda>w. (fst w, w)) (wit_ctx (Some 25))
      (RetryConfig_withDefaults (\<lambda>w. (0, w)) (\<lambda>d w. (False, w)) wit_retry) wit_fn"
    by (auto simp: sleeps_logged_def wit_fn_def Let_def) (simp_all add: wit_retry_def)
  from Retry_sleeps_before_deadline [OF this, of 25 "(0, [], [])"] show ?thesis
    by (simp add: wit_ctx_def list_all_iff)
qed

end
