(* ===== verification/Strconv.thy ===== *)
theory Strconv
  imports Prelude
begin

text \<open>
  What the services use of Go's \<open>strconv\<close>, \<open>encoding/hex\<close> and \<open>net/textproto\<close>: printing and
  parsing of integers and booleans, hexadecimal digits, and the canonical form of header names.
\<close>

section \<open>Integers\<close>

definition digit_char :: "nat \<Rightarrow> char" where
  "digit_char d = (if d < 10 then char_of (48 + d) else char_of (87 + d))"

fun format_nat :: "nat \<Rightarrow> nat \<Rightarrow> string" where
  "format_nat b n =
     (if b < 2 then [] else if n < b then [digit_char n] else format_nat b (n div b) @ [digit_char (n mod b)])"

declare format_nat.simps [simp del]

definition FormatInt :: "nat \<Rightarrow> int \<Rightarrow> string" where
  "FormatInt b i = (if i < 0 then ''-'' @ format_nat b (nat (- i)) else format_nat b (nat i))"

definition Itoa :: "int \<Rightarrow> string" where
  "Itoa i = FormatInt 10 i"

text \<open>
  \<open>strconv.Atoi\<close>: an optional sign, then at least one decimal digit and nothing else, within the
  range of a 64-bit integer. \<open>None\<close> stands for its two errors, syntax and range.
\<close>

definition digit_value :: "char \<Rightarrow> nat option" where
  "digit_value c =
     (if 48 \<le> (of_char c :: nat) \<and> (of_char c :: nat) \<le> 57 then Some (of_char c - 48) else None)"

fun parse_digits :: "nat \<Rightarrow> string \<Rightarrow> nat option" where
  "parse_digits acc [] = Some acc"
| "parse_digits acc (c # cs) =
     (case digit_value c of None \<Rightarrow> None | Some d \<Rightarrow> parse_digits (10 * acc + d) cs)"

definition parse_unsigned :: "string \<Rightarrow> nat option" where
  "parse_unsigned s = (if s = [] then None else parse_digits 0 s)"

definition int64_range :: "int \<Rightarrow> bool" where
  "int64_range i \<longleftrightarrow> - (2 ^ 63) \<le> i \<and> i < 2 ^ 63"

definition Atoi :: "string \<Rightarrow> int option" where
  "Atoi s =
     (let (neg, ds) = (case s of [] \<Rightarrow> (False, [])
        | c # cs \<Rightarrow> if c = CHR ''-'' then (True, cs) else if c = CHR ''+'' then (False, cs) else (False, s))
      in case parse_unsigned ds of
           None \<Rightarrow> None
         | Some n \<Rightarrow> let i = (if neg then - int n else int n) in if int64_range i then Some i else None)"

text \<open>\<open>strconv.ParseBool\<close>.\<close>

definition ParseBool :: "string \<Rightarrow> bool option" where
  "ParseBool s =
     (if s \<in> {''1'', ''t'', ''T'', ''TRUE'', ''true'', ''True''} then Some True
      else if s \<in> {''0'', ''f'', ''F'', ''FALSE'', ''false'', ''False''} then Some False
      else None)"

section \<open>Hexadecimal\<close>

definition is_hex_digit :: "char \<Rightarrow> bool" where
  "is_hex_digit c \<longleftrightarrow> (let n = (of_char c :: nat) in
     48 \<le> n \<and> n \<le> 57 \<or> 97 \<le> n \<and> n \<le> 102 \<or> 65 \<le> n \<and> n \<le> 70)"

text \<open>Whether \<open>hex.DecodeString\<close> succeeds, and \<open>hex.EncodeToString\<close>.\<close>

definition hex_decodable :: "string \<Rightarrow> bool" where
  "hex_decodable s \<longleftrightarrow> even (length s) \<and> list_all is_hex_digit s"

definition hex_byte :: "char \<Rightarrow> string" where
  "hex_byte c = [digit_char (of_char c div 16), digit_char (of_char c mod 16)]"

definition hex_EncodeToString :: "string \<Rightarrow> string" where
  "hex_EncodeToString s = concat (map hex_byte s)"

section \<open>Header names\<close>

definition token_char :: "char \<Rightarrow> bool" where
  "token_char c \<longleftrightarrow> (let n = (of_char c :: nat) in
     48 \<le> n \<and> n \<le> 57 \<or> 65 \<le> n \<and> n \<le> 90 \<or> 97 \<le> n \<and> n \<le> 122 \<or> c \<in> set ''!#$%&*+-.^_`|~'' \<or> n = 39)"

definition ascii_upper :: "char \<Rightarrow> char" where
  "ascii_upper c =
     (if 97 \<le> (of_char c :: nat) \<and> (of_char c :: nat) \<le> 122 then char_of (of_char c - 32 :: nat) else c)"

fun canon_chars :: "bool \<Rightarrow> string \<Rightarrow> string" where
  "canon_chars up [] = []"
| "canon_chars up (c # cs) =
     (if up then ascii_upper c else ascii_lower c) # canon_chars (c = CHR ''-'') cs"

definition CanonicalHeaderKey :: "string \<Rightarrow> string" where
  "CanonicalHeaderKey k = (if list_all token_char k then canon_chars True k else k)"

text \<open>\<open>strings.ToUpper\<close>; the mapping of code points outside ASCII is the argument \<open>uni\<close>.\<close>

definition ToUpper :: "(string \<Rightarrow> string) \<Rightarrow> string \<Rightarrow> string" where
  "ToUpper uni s = (if isASCII s then map ascii_upper s else uni s)"

section \<open>Round trips\<close>

lemma digit_char_decimal: "d < 10 \<Longrightarrow> digit_value (digit_char d) = Some d"
  by (simp add: digit_value_def digit_char_def)

lemma digit_char_not_sign: "d < 10 \<Longrightarrow> digit_char d \<noteq> CHR ''-'' \<and> digit_char d \<noteq> CHR ''+''"
  by (auto simp: digit_char_def dest!: arg_cong [of _ _ "of_char :: char \<Rightarrow> nat"])

lemma parse_digits_append:
  "parse_digits a (s @ t) = (case parse_digits a s of None \<Rightarrow> None | Some b \<Rightarrow> parse_digits b t)"
  by (induction a s rule: parse_digits.induct) (auto split: option.splits)

lemma parse_format_nat: "parse_digits 0 (format_nat 10 n) = Some n"
proof (induction n rule: less_induct)
  case (less n)
  show ?case
  proof (cases "n < 10")
    case True
    then show ?thesis by (simp add: format_nat.simps digit_char_decimal)
  next
    case False
    then show ?thesis
      using less [of "n div 10"] by (subst format_nat.simps) (simp add: parse_digits_append digit_char_decimal)
  qed
qed

lemma format_nat_head:
  "\<exists>d ds. format_nat 10 n = digit_char d # ds \<and> d < 10"
proof (induction n rule: less_induct)
  case (less n)
  show ?case
  proof (cases "n < 10")
    case True
    then show ?thesis by (subst format_nat.simps) auto
  next
    case False
    then have "format_nat 10 n = format_nat 10 (n div 10) @ [digit_char (n mod 10)]"
      by (subst format_nat.simps) simp
    with less [of "n div 10"] False show ?thesis by fastforce
  qed
qed

theorem Atoi_Itoa:
  assumes "int64_range i" shows "Atoi (Itoa i) = Some i"
proof (cases "i < 0")
  case True
  have "format_nat 10 (nat (- i)) \<noteq> []" using format_nat_head [of "nat (- i)"] by auto
  with True assms show ?thesis by (simp add: Atoi_def Itoa_def FormatInt_def parse_unsigned_def parse_format_nat)
next
  case False
  obtain d ds where d: "format_nat 10 (nat i) = digit_char d # ds" "d < 10" using format_nat_head by blast
  have "parse_unsigned (digit_char d # ds) = Some (nat i)"
    using parse_format_nat [of "nat i"] by (simp add: parse_unsigned_def d(1))
  with False assms d digit_char_not_sign [OF d(2)] show ?thesis
    by (simp add: Atoi_def Itoa_def FormatInt_def)
qed

lemma Itoa_inj: "Itoa i = Itoa j \<Longrightarrow> int64_range i \<Longrightarrow> int64_range j \<Longrightarrow> i = j"
  by (metis Atoi_Itoa option.inject)

lemma is_hex_digit_char: "d < 16 \<Longrightarrow> is_hex_digit (digit_char d)"
  by (auto simp: is_hex_digit_def digit_char_def Let_def)

lemma length_hex_EncodeToString: "length (hex_EncodeToString s) = 2 * length s"
  by (induction s) (simp_all add: hex_EncodeToString_def hex_byte_def)

lemma hex_EncodeToString_decodable: "hex_decodable (hex_EncodeToString s)"
proof -
  have "is_hex_digit (digit_char ((of_char c :: nat) div 16))" "is_hex_digit (digit_char ((of_char c :: nat) mod 16))" for c
    by (rule is_hex_digit_char; simp add: less_mult_imp_div_less)+
  then show ?thesis
    by (auto simp: hex_decodable_def length_hex_EncodeToString) (induction s, auto simp: hex_EncodeToString_def hex_byte_def)
qed

lemma of_char_digit_char: "d < 16 \<Longrightarrow> (of_char (digit_char d) :: nat) = (if d < 10 then 48 + d else 87 + d)"
  by (simp add: digit_char_def)

lemma digit_char_inj:
  assumes "d < 16" "e < 16" "digit_char d = digit_char e" shows "d = e"
proof -
  have "(of_char (digit_char d) :: nat) = of_char (digit_char e)" by (simp only: assms(3))
  then show ?thesis unfolding of_char_digit_char [OF assms(1)] of_char_digit_char [OF assms(2)]
    by (simp split: if_splits)
qed

lemma hex_EncodeToString_inj: "hex_EncodeToString s = hex_EncodeToString t \<Longrightarrow> s = t"
proof (induction s arbitrary: t)
  case Nil
  then show ?case by (cases t) (simp_all add: hex_EncodeToString_def hex_byte_def)
next
  case (Cons c s)
  then obtain d t' where t: "t = d # t'" by (cases t) (auto simp: hex_EncodeToString_def hex_byte_def)
  have b: "(of_char x :: nat) div 16 < 16" for x by (simp add: less_mult_imp_div_less)
  have "(of_char c :: nat) div 16 = of_char d div 16" "(of_char c :: nat) mod 16 = of_char d mod 16"
    using Cons.prems digit_char_inj [OF b b] digit_char_inj [of "of_char c mod 16" "of_char d mod 16"]
    by (simp_all add: t hex_EncodeToString_def hex_byte_def)
  then have "(of_char c :: nat) = of_char d" by (metis div_mod_decomp)
  then have "c = d" by simp
  with Cons t show ?case by (simp add: hex_EncodeToString_def)
qed

end
