(* ===== verification/Http.thy ===== *)
theory Http
  imports Retry Strconv
begin

text \<open>
  The HTTP layer of \<open>internal/platform/httpx\<close>: requests, responses and problem bodies
  (\<open>response.go\<close>), the response recorder, and the contexts and events the middleware works with.

  A handler only ever writes to its \<open>ResponseWriter\<close>: it sets headers, sends a status and sends
  bodies, and ignores what these calls return. So a run of a handler is the list of its writer
  operations, with how it ended; what a wrapping recorder does is a function from the operations
  of the inner handler to the operations it forwards; and what the client receives is the fold of
  \<open>net/http\<close>'s writer over the operations that reach it.

  Bodies are kept as the values that are encoded: a problem, a value given to the JSON encoder, or
  raw bytes. The number of bytes an encoded body has is the argument \<open>sz\<close>.
\<close>

section \<open>Headers\<close>

type_synonym Header = "string \<rightharpoonup> string list"

definition Header_Get :: "Header \<Rightarrow> string \<Rightarrow> string" where
  "Header_Get h k = (case h (CanonicalHeaderKey k) of Some (v # vs) \<Rightarrow> v | _ \<Rightarrow> [])"

definition Header_Set :: "string \<Rightarrow> string \<Rightarrow> Header \<Rightarrow> Header" where
  "Header_Set k v h = h(CanonicalHeaderKey k \<mapsto> [v])"

lemma Header_Get_Set: "Header_Get (Header_Set k v h) k' =
  (if CanonicalHeaderKey k' = CanonicalHeaderKey k then v else Header_Get h k')"
  by (simp add: Header_Get_def Header_Set_def)

section \<open>Contexts and events\<close>

datatype attr = AStr string | AInt int | ADuration duration | AError go_error

type_synonym attrs = "(string \<times> attr) list"

datatype level = LevelDebug | LevelInfo | LevelWarn | LevelError

fun level_value :: "level \<Rightarrow> int" where
  "level_value LevelDebug = -4"
| "level_value LevelInfo = 0"
| "level_value LevelWarn = 4"
| "level_value LevelError = 8"

text \<open>
  What the services tell the outside world: log lines, with the attributes of the logger that
  emits them first, and updates of the metrics of \<open>telemetry.Metrics\<close>.
\<close>

datatype event =
    Log level string attrs
  | RequestsInFlight int
  | RequestsTotal string string string string
  | RequestDuration string string rat
  | ResponseSize string rat
  | UpstreamRequestsTotal string string
  | UpstreamRequestDuration string rat
  | UpstreamRetriesTotal string
  | BreakerTransitions string string string
  | BreakerStateGauge string rat
  | BuildInfo string string string

text \<open>A request's context: the deadline and error of the standard library's context, and the values
  stored under the keys of the services.\<close>

record 'w RequestContext =
  std :: "'w Context"
  ctxRequestID :: "string option"
  ctxLogger :: "attrs option"
  ctxClientID :: "string option"
  ctxSpan :: "(string \<times> string) option"

text \<open>The effects of the process: clock, randomness, log and metrics.\<close>

record 'w Env =
  env_now :: "'w \<Rightarrow> time \<times> 'w"
  env_rand16 :: "'w \<Rightarrow> string option \<times> 'w"
  env_emit :: "event \<Rightarrow> 'w \<Rightarrow> 'w"

text \<open>A logger with a minimum level drops the lines below it.\<close>

definition at_level :: "int \<Rightarrow> 'w Env \<Rightarrow> 'w Env" where
  "at_level minimum env = env\<lparr>env_emit := (\<lambda>e w. case e of
     Log l m a \<Rightarrow> if minimum \<le> level_value l then env_emit env e w else w
   | _ \<Rightarrow> env_emit env e w)\<rparr>"

definition RequestIDFrom :: "'w RequestContext \<Rightarrow> string" where
  "RequestIDFrom ctx = (case ctxRequestID ctx of Some i \<Rightarrow> i | None \<Rightarrow> [])"

text \<open>\<open>LoggerFrom\<close> is the attributes of the request's logger; the default logger has none.\<close>

definition LoggerFrom :: "'w RequestContext \<Rightarrow> attrs" where
  "LoggerFrom ctx = (case ctxLogger ctx of Some l \<Rightarrow> l | None \<Rightarrow> [])"

section \<open>Requests\<close>

text \<open>A body and the limits that \<open>http.MaxBytesReader\<close> has put on reading it.\<close>

record ReqBody =
  content :: string
  maxBytes :: "int option"

definition ReadAll :: "ReqBody \<Rightarrow> go_error + string" where
  "ReadAll b = (case maxBytes b of
      Some m \<Rightarrow> if m < int (length (content b)) then Inl (ErrText ''http: request body too large'') else Inr (content b)
    | None \<Rightarrow> Inr (content b))"

definition MaxBytesReader :: "int \<Rightarrow> ReqBody \<Rightarrow> ReqBody" where
  "MaxBytesReader n b = b\<lparr>maxBytes := Some (case maxBytes b of Some m \<Rightarrow> min m (max 0 n) | None \<Rightarrow> max 0 n)\<rparr>"

record 'w Request =
  Method :: string
  Path :: string
  RawQuery :: string
  ReqHeader :: Header
  Body :: ReqBody
  Pattern :: string
  PathValues :: "string \<rightharpoonup> string"
  Ctx :: "'w RequestContext"

definition PathValue :: "'w Request \<Rightarrow> string \<Rightarrow> string" where
  "PathValue r k = (case PathValues r k of Some v \<Rightarrow> v | None \<Rightarrow> [])"

definition WithContext :: "'w RequestContext \<Rightarrow> 'w Request \<Rightarrow> 'w Request" where
  "WithContext ctx r = r\<lparr>Ctx := ctx\<rparr>"

section \<open>Writer operations and responses\<close>

record Problem =
  Type :: string
  Title :: string
  Status :: int
  Detail :: string
  Code :: string
  RequestID :: string

datatype 'v payload = ProblemBody Problem | JSON 'v | Raw string

datatype 'v wop = HeaderSet string string | SendHeader int | SendBody "'v payload"

text \<open>\<open>http.StatusText\<close>.\<close>

definition status_texts :: "(int \<times> string) list" where
  "status_texts = [(100, ''Continue''), (101, ''Switching Protocols''), (102, ''Processing''), (103, ''Early Hints''),
    (200, ''OK''), (201, ''Created''), (202, ''Accepted''), (203, ''Non-Authoritative Information''),
    (204, ''No Content''), (205, ''Reset Content''), (206, ''Partial Content''), (207, ''Multi-Status''),
    (208, ''Already Reported''), (226, ''IM Used''), (300, ''Multiple Choices''), (301, ''Moved Permanently''),
    (302, ''Found''), (303, ''See Other''), (304, ''Not Modified''), (305, ''Use Proxy''),
    (307, ''Temporary Redirect''), (308, ''Permanent Redirect''), (400, ''Bad Request''), (401, ''Unauthorized''),
    (402, ''Payment Required''), (403, ''Forbidden''), (404, ''Not Found''), (405, ''Method Not Allowed''),
    (406, ''Not Acceptable''), (407, ''Proxy Authentication Required''), (408, ''Request Timeout''),
    (409, ''Conflict''), (410, ''Gone''), (411, ''Length Required''), (412, ''Precondition Failed''),
    (413, ''Request Entity Too Large''), (414, ''Request URI Too Long''), (415, ''Unsupported Media Type''),
    (416, ''Requested Range Not Satisfiable''), (417, ''Expectation Failed''), (418, ''I'' @ [CHR 0x27] @ ''m a teapot''),
    (421, ''Misdirected Request''), (422, ''Unprocessable Entity''), (423, ''Locked''), (424, ''Failed Dependency''),
    (425, ''Too Early''), (426, ''Upgrade Required''), (428, ''Precondition Required''), (429, ''Too Many Requests''),
    (431, ''Request Header Fields Too Large''), (451, ''Unavailable For Legal Reasons''),
    (500, ''Internal Server Error''), (501, ''Not Implemented''), (502, ''Bad Gateway''),
    (503, ''Service Unavailable''), (504, ''Gateway Timeout''), (505, ''HTTP Version Not Supported''),
    (506, ''Variant Also Negotiates''), (507, ''Insufficient Storage''), (508, ''Loop Detected''),
    (510, ''Not Extended''), (511, ''Network Authentication Required'')]"

definition StatusText :: "int \<Rightarrow> string" where
  "StatusText code = (case map_of status_texts code of Some t \<Rightarrow> t | None \<Rightarrow> [])"

definition problem :: "'w Request \<Rightarrow> int \<Rightarrow> string \<Rightarrow> string \<Rightarrow> Problem" where
  "problem r status code detail =
     \<lparr>Type = ''about:blank'', Title = StatusText status, Status = status, Detail = detail, Code = code,
      RequestID = RequestIDFrom (Ctx r)\<rparr>"

definition WriteProblem :: "'w Request \<Rightarrow> int \<Rightarrow> string \<Rightarrow> string \<Rightarrow> 'v wop list" where
  "WriteProblem r status code detail =
     [HeaderSet ''Content-Type'' ''application/problem+json'', SendHeader status,
      SendBody (ProblemBody (problem r status code detail))]"

definition WriteJSON :: "int \<Rightarrow> 'v \<Rightarrow> 'v wop list" where
  "WriteJSON status v = [HeaderSet ''Content-Type'' ''application/json'', SendHeader status, SendBody (JSON v)]"

text \<open>
  The server's own writer. The first status sent fixes status and headers; a body sent before any
  status sends 200 first; statuses that admit no body drop it.
\<close>

record 'v Reply =
  live :: Header
  sent :: "(int \<times> Header) option"
  bodies :: "'v payload list"

definition new_reply :: "'v Reply" where
  "new_reply = \<lparr>live = Map.empty, sent = None, bodies = []\<rparr>"

definition bodyAllowed :: "int \<Rightarrow> bool" where
  "bodyAllowed status \<longleftrightarrow> \<not> (100 \<le> status \<and> status \<le> 199) \<and> status \<noteq> 204 \<and> status \<noteq> 304"

fun server_op :: "'v Reply \<Rightarrow> 'v wop \<Rightarrow> 'v Reply" where
  "server_op s (HeaderSet k v) = s\<lparr>live := Header_Set k v (live s)\<rparr>"
| "server_op s (SendHeader code) = (if sent s = None then s\<lparr>sent := Some (code, live s)\<rparr> else s)"
| "server_op s (SendBody b) =
     (let s = (if sent s = None then s\<lparr>sent := Some (200, live s)\<rparr> else s)
      in if bodyAllowed (fst (the (sent s))) then s\<lparr>bodies := bodies s @ [b]\<rparr> else s)"

definition reply_of :: "'v wop list \<Rightarrow> 'v Reply" where
  "reply_of ops = foldl server_op new_reply ops"

text \<open>The status the client sees; a handler that sends nothing gets 200.\<close>

definition reply_status :: "'v Reply \<Rightarrow> int" where
  "reply_status s = (case sent s of Some (code, h) \<Rightarrow> code | None \<Rightarrow> 200)"

definition reply_header :: "'v Reply \<Rightarrow> Header" where
  "reply_header s = (case sent s of Some (code, h) \<Rightarrow> h | None \<Rightarrow> live s)"

section \<open>The response recorder\<close>

record responseRecorder =
  rec_status :: int
  written :: int
  wroteHeader :: bool
  timedOut :: bool

definition new_recorder :: responseRecorder where
  "new_recorder = \<lparr>rec_status = 200, written = 0, wroteHeader = False, timedOut = False\<rparr>"

text \<open>The recorder's methods: the new recorder, and the calls made on the wrapped writer.\<close>

definition rec_WriteHeader :: "int \<Rightarrow> responseRecorder \<Rightarrow> responseRecorder \<times> 'v wop list" where
  "rec_WriteHeader code rc =
     (if wroteHeader rc \<or> timedOut rc then (rc, [])
      else (rc\<lparr>wroteHeader := True, rec_status := code\<rparr>, [SendHeader code]))"

definition rec_Write ::
  "('v payload \<Rightarrow> int) \<Rightarrow> 'v payload \<Rightarrow> responseRecorder \<Rightarrow> responseRecorder \<times> 'v wop list" where
  "rec_Write sz b rc =
     (if timedOut rc then (rc, [])
      else let (rc, ops) =
             (if \<not> wroteHeader rc then (rc\<lparr>wroteHeader := True, rec_status := 200\<rparr>, [SendHeader 200]) else (rc, []))
           in (rc\<lparr>written := written rc + sz b\<rparr>, ops @ [SendBody b]))"

definition markTimedOut :: "responseRecorder \<Rightarrow> bool \<times> responseRecorder" where
  "markTimedOut rc = (if wroteHeader rc then (False, rc) else (True, rc\<lparr>timedOut := True\<rparr>))"

definition Recorder_Status :: "responseRecorder \<Rightarrow> int" where
  "Recorder_Status rc = rec_status rc"

fun rec_op :: "('v payload \<Rightarrow> int) \<Rightarrow> responseRecorder \<Rightarrow> 'v wop \<Rightarrow> responseRecorder \<times> 'v wop list" where
  "rec_op sz rc (HeaderSet k v) = (rc, [HeaderSet k v])"
| "rec_op sz rc (SendHeader code) = rec_WriteHeader code rc"
| "rec_op sz rc (SendBody b) = rec_Write sz b rc"

fun through :: "('v payload \<Rightarrow> int) \<Rightarrow> responseRecorder \<Rightarrow> 'v wop list \<Rightarrow> responseRecorder \<times> 'v wop list" where
  "through sz rc [] = (rc, [])"
| "through sz rc (op # ops) =
     (let (rc, out) = rec_op sz rc op; (rc, rest) = through sz rc ops in (rc, out @ rest))"

subsection \<open>A recorder is transparent\<close>

text \<open>
  What relates a recorder to the reply it writes into, as long as nobody has claimed the response
  for a timeout.
\<close>

definition tracks :: "responseRecorder \<Rightarrow> 'v Reply \<Rightarrow> bool" where
  "tracks rc s \<longleftrightarrow> \<not> timedOut rc \<and> wroteHeader rc = (sent s \<noteq> None) \<and> rec_status rc = reply_status s"

lemma tracks_new: "tracks new_recorder new_reply"
  by (simp add: tracks_def new_recorder_def new_reply_def reply_status_def)

lemma rec_op_transparent:
  assumes "tracks rc s"
  shows "foldl server_op s (snd (rec_op sz rc op)) = server_op s op \<and>
    tracks (fst (rec_op sz rc op)) (server_op s op)"
  using assms
  by (cases op) (auto simp: tracks_def rec_WriteHeader_def rec_Write_def reply_status_def Let_def split: prod.splits)

lemma through_transparent:
  assumes "tracks rc s"
  shows "foldl server_op s (snd (through sz rc ops)) = foldl server_op s ops \<and>
    tracks (fst (through sz rc ops)) (foldl server_op s ops)"
  using assms
proof (induction ops arbitrary: rc s)
  case (Cons op ops)
  from rec_op_transparent [OF Cons.prems, of sz op] Cons.IH show ?case
    by (simp add: split_beta)
qed simp

end
