(* ===== verification/Middleware.thy ===== *)
theory Middleware
  imports Http
begin

text \<open>
  The middleware of \<open>internal/platform/httpx/middleware.go\<close>. A handler maps a request and the world
  to a run: the operations it performed on its writer, how it ended, and the \<open>Pattern\<close> field of the
  request object it was given as the call left it. The last matters because \<open>ServeMux\<close> stores the
  matched pattern in the request it receives, and \<open>r.WithContext\<close> gives the next handler a copy.
\<close>

section \<open>Handlers\<close>

datatype panic = ErrAbortHandler | PanicValue string

text \<open>\<open>Crashed\<close>: a panic in a goroutine that nothing recovers, which ends the process.\<close>

datatype ending = Returned | Panicked panic | Crashed

record 'v run =
  ops :: "'v wop list"
  ending :: ending
  patternAfter :: string

type_synonym ('v, 'w) Handler = "'w Request \<Rightarrow> 'w \<Rightarrow> 'v run \<times> 'w"
type_synonym ('v, 'w) Middleware = "('v, 'w) Handler \<Rightarrow> ('v, 'w) Handler"

text \<open>A handler that performs some operations, returns, and leaves the request alone.\<close>

definition respond :: "'w Request \<Rightarrow> 'v wop list \<Rightarrow> 'v run" where
  "respond r os = \<lparr>ops = os, ending = Returned, patternAfter = Pattern r\<rparr>"

definition Chain :: "('v, 'w) Handler \<Rightarrow> ('v, 'w) Middleware list \<Rightarrow> ('v, 'w) Handler" where
  "Chain h mw = foldr (\<lambda>m h. m h) mw h"

text \<open>Operations performed before and after those of an inner run.\<close>

definition before :: "'v wop list \<Rightarrow> 'v run \<Rightarrow> 'v run" where
  "before os x = x\<lparr>ops := os @ ops x\<rparr>"

section \<open>Correlation ids\<close>

definition RequestIDHeader :: string where
  "RequestIDHeader = ''X-Request-Id''"

definition validRequestID :: "string \<Rightarrow> bool" where
  "validRequestID i \<longleftrightarrow> length i = 32 \<and> hex_decodable i"

definition newRequestID :: "'w Env \<Rightarrow> 'w \<Rightarrow> string \<times> 'w" where
  "newRequestID env w =
     (case env_rand16 env w of
        (None, w) \<Rightarrow> let (t, w) = env_now env w in (FormatInt 16 t, w)
      | (Some b, w) \<Rightarrow> (hex_EncodeToString b, w))"

definition RequestIDMiddleware :: "'w Env \<Rightarrow> ('v, 'w) Middleware" where
  "RequestIDMiddleware env next r w =
     (let i = Header_Get (ReqHeader r) RequestIDHeader;
          (i, w) = (if validRequestID i then (i, w) else newRequestID env w);
          (x, w) = next (WithContext ((Ctx r)\<lparr>ctxRequestID := Some i\<rparr>) r) w
      in ((before [HeaderSet RequestIDHeader i] x)\<lparr>patternAfter := Pattern r\<rparr>, w))"

section \<open>Labels\<close>

definition routeOf :: "string \<Rightarrow> string" where
  "routeOf pattern = (if pattern \<noteq> [] then pattern else ''unmatched'')"

definition statusClass :: "int \<Rightarrow> string" where
  "statusClass code =
     (if code < 200 then ''1xx'' else if code < 300 then ''2xx'' else if code < 400 then ''3xx''
      else if code < 500 then ''4xx'' else ''5xx'')"

section \<open>Logging, recovery, metrics\<close>

definition logLevel :: "int \<Rightarrow> level" where
  "logLevel status = (if 500 \<le> status then LevelError else if 400 \<le> status then LevelWarn else LevelInfo)"

definition loggerAttrs :: "'w Request \<Rightarrow> attrs" where
  "loggerAttrs r =
     [(''request_id'', AStr (RequestIDFrom (Ctx r))), (''method'', AStr (Method r)), (''path'', AStr (Path r))]
     @ (case ctxSpan (Ctx r) of Some (t, s) \<Rightarrow> [(''trace_id'', AStr t), (''span_id'', AStr s)] | None \<Rightarrow> [])"

definition Logging :: "'w Env \<Rightarrow> ('v payload \<Rightarrow> int) \<Rightarrow> attrs \<Rightarrow> ('v, 'w) Middleware" where
  "Logging env sz base next r w =
     (let (start, w) = env_now env w;
          logger = base @ loggerAttrs r;
          (x, w) = next (WithContext ((Ctx r)\<lparr>ctxLogger := Some logger\<rparr>) r) w;
          (rc, out) = through sz new_recorder (ops x);
          x = x\<lparr>ops := out, patternAfter := Pattern r\<rparr>
      in if ending x \<noteq> Returned then (x, w)
         else let (t, w) = env_now env w
              in (x, env_emit env (Log (logLevel (rec_status rc)) ''http_request''
                   (logger @ [(''status'', AInt (rec_status rc)), (''bytes'', AInt (written rc)),
                      (''duration'', ADuration (time_Sub t start)), (''route'', AStr (routeOf (Pattern r))),
                      (''user_agent'', AStr (Header_Get (ReqHeader r) ''User-Agent''))])) w))"

fun panic_text :: "panic \<Rightarrow> string" where
  "panic_text ErrAbortHandler = ''net/http: abort Handler''"
| "panic_text (PanicValue v) = v"

text \<open>
  The stack trace that \<open>Recovery\<close> logs is the argument \<open>stack\<close>: what \<open>stack_trace\<close> keeps of the trace that
  \<open>runtime.Stack\<close> would write.
\<close>

definition stack_trace :: "string \<Rightarrow> string" where
  "stack_trace dump = take (8 * 2 ^ 10) dump"

definition Recovery :: "'w Env \<Rightarrow> string \<Rightarrow> ('v, 'w) Middleware" where
  "Recovery env stack next r w =
     (let (x, w) = next r w
      in case ending x of
           Panicked v \<Rightarrow>
             if v = ErrAbortHandler then (x, w)
             else (x\<lparr>ops := ops x @ WriteProblem r 500 ''internal_error'' ''The service failed to handle this request.'',
                     ending := Returned\<rparr>,
                   env_emit env (Log LevelError ''panic recovered''
                     (LoggerFrom (Ctx r) @ [(''panic'', AStr (panic_text v)), (''stack'', AStr stack)])) w)
         | _ \<Rightarrow> (x, w))"

definition Metrics :: "'w Env \<Rightarrow> ('v payload \<Rightarrow> int) \<Rightarrow> ('v, 'w) Middleware" where
  "Metrics env sz next r w =
     (let w = env_emit env (RequestsInFlight 1) w;
          (start, w) = env_now env w;
          (x, w) = next r w;
          (rc, out) = through sz new_recorder (ops x);
          x = x\<lparr>ops := out\<rparr>
      in case ending x of
           Returned \<Rightarrow>
             let route = routeOf (patternAfter x);
                 status = Itoa (rec_status rc);
                 w = env_emit env (RequestsTotal (Method r) route status (statusClass (rec_status rc))) w;
                 (t, w) = env_now env w;
                 w = env_emit env (RequestDuration (Method r) route (Seconds (time_Sub t start))) w;
                 w = env_emit env (ResponseSize route (float64_of_int (written rc))) w
             in (x, env_emit env (RequestsInFlight (-1)) w)
         | Panicked v \<Rightarrow> (x, env_emit env (RequestsInFlight (-1)) w)
         | Crashed \<Rightarrow> (x, w))"

section \<open>Static headers and body limits\<close>

definition security_headers :: "(string \<times> string) list" where
  "security_headers = [(''X-Content-Type-Options'', ''nosniff''), (''X-Frame-Options'', ''DENY''),
     (''Referrer-Policy'', ''no-referrer''),
     (''Content-Security-Policy'', ''default-src '' @ [CHR 0x27] @ ''none'' @ [CHR 0x27] @ ''; frame-ancestors ''
        @ [CHR 0x27] @ ''none'' @ [CHR 0x27])]"

definition SecurityHeaders :: "('v, 'w) Middleware" where
  "SecurityHeaders next r w =
     (let (x, w) = next r w in (before (map (\<lambda>(k, v). HeaderSet k v) security_headers) x, w))"

definition MaxBodyBytes :: "int \<Rightarrow> ('v, 'w) Middleware" where
  "MaxBodyBytes limit next r w = next (r\<lparr>Body := MaxBytesReader limit (Body r)\<rparr>) w"

section \<open>The timeout\<close>

text \<open>
  \<open>Timeout\<close> runs the handler in a goroutine of its own and waits for it or for the deadline. The
  two share the recorder, whose methods take its mutex, and the wrapped writer, which has none. The
  machine below is their interleaving: a step of the handler either runs the locked part of its
  next call on the recorder, which leaves the calls to forward, or forwards one of them; the
  middleware sees the handler done, sees the deadline, or performs one call of the problem response.
\<close>

datatype 'v waiter = Waiting | Writing "'v wop list" | Gone

record 'v race =
  todo :: "'v wop list"
  forwarding :: "'v wop list"
  recorder :: responseRecorder
  waiter :: "'v waiter"
  out :: "'v wop list"

datatype choice = Handler | HandlerDone | Deadline | Write

fun handler_step :: "('v payload \<Rightarrow> int) \<Rightarrow> 'v race \<Rightarrow> 'v race" where
  "handler_step sz s =
     (case forwarding s of
        op # rest \<Rightarrow> s\<lparr>forwarding := rest, out := out s @ [op]\<rparr>
      | [] \<Rightarrow>
          (case todo s of
             [] \<Rightarrow> s
           | op # rest \<Rightarrow>
               let (rc, fw) = rec_op sz (recorder s) op
               in s\<lparr>todo := rest, recorder := rc, forwarding := fw\<rparr>))"

definition timeout_problem :: "'w Request \<Rightarrow> 'v wop list" where
  "timeout_problem r = WriteProblem r 504 ''timeout'' ''The request exceeded its time budget.''"

fun race_step :: "('v payload \<Rightarrow> int) \<Rightarrow> 'w Request \<Rightarrow> 'v race \<Rightarrow> choice \<Rightarrow> 'v race" where
  "race_step sz r s Handler = (if waiter s = Gone then s else handler_step sz s)"
| "race_step sz r s HandlerDone =
     (if waiter s = Waiting \<and> todo s = [] \<and> forwarding s = [] then s\<lparr>waiter := Gone\<rparr> else s)"
| "race_step sz r s Deadline =
     (if waiter s = Waiting
      then let (claimed, rc) = markTimedOut (recorder s)
           in s\<lparr>recorder := rc, waiter := (if claimed then Writing (timeout_problem r) else Gone)\<rparr>
      else s)"
| "race_step sz r s Write =
     (case waiter s of
        Writing (op # rest) \<Rightarrow> s\<lparr>out := out s @ [op], waiter := (if rest = [] then Gone else Writing rest)\<rparr>
      | _ \<Rightarrow> s)"

definition race_start :: "'v wop list \<Rightarrow> 'v race" where
  "race_start os = \<lparr>todo = os, forwarding = [], recorder = new_recorder, waiter = Waiting, out = []\<rparr>"

text \<open>
  A schedule is any list of choices; choices that are not possible are skipped, and steps of the
  handler after the middleware has returned are not part of the response. When the schedule is
  used up before the middleware has returned, the side that is ahead goes on alone: the middleware
  writes its problem, or the handler runs to its end.
\<close>

definition race_end :: "('v payload \<Rightarrow> int) \<Rightarrow> 'v race \<Rightarrow> 'v wop list" where
  "race_end sz s = out s @ (case waiter s of Gone \<Rightarrow> [] | Writing os \<Rightarrow> os
     | Waiting \<Rightarrow> forwarding s @ snd (through sz (recorder s) (todo s)))"

definition race_run :: "('v payload \<Rightarrow> int) \<Rightarrow> 'w Request \<Rightarrow> choice list \<Rightarrow> 'v wop list \<Rightarrow> 'v wop list" where
  "race_run sz r sch os = race_end sz (foldl (race_step sz r) (race_start os) sch)"

definition WithTimeout :: "'w Env \<Rightarrow> time \<Rightarrow> 'w Context \<Rightarrow> 'w Context" where
  "WithTimeout env deadline ctx =
     \<lparr>ctx_Err = (\<lambda>w. case ctx_Err ctx w of Some e \<Rightarrow> Some e
         | None \<Rightarrow> if deadline \<le> fst (env_now env w) then Some DeadlineExceeded else None),
      ctx_Deadline = Some (case ctx_Deadline ctx of Some d \<Rightarrow> min d deadline | None \<Rightarrow> deadline)\<rparr>"

definition Timeout ::
  "'w Env \<Rightarrow> ('v payload \<Rightarrow> int) \<Rightarrow> ('w \<Rightarrow> choice list \<times> 'w) \<Rightarrow> duration \<Rightarrow> ('v, 'w) Middleware" where
  "Timeout env sz sched d next r w =
     (let (t, w) = env_now env w;
          ctx = (Ctx r)\<lparr>std := WithTimeout env (t + d) (std (Ctx r))\<rparr>;
          (x, w) = next (WithContext ctx r) w;
          (sch, w) = sched w
      in (\<lparr>ops = race_run sz r sch (ops x),
           ending = (if ending x = Returned then Returned else Crashed),
           patternAfter = Pattern r\<rparr>, w))"


section \<open>One response per request\<close>

text \<open>The operations other than header settings decide the status and the bodies of a reply.\<close>

fun visible_op :: "'v wop \<Rightarrow> bool" where
  "visible_op (HeaderSet k v) = False"
| "visible_op _ = True"

abbreviation visible :: "'v wop list \<Rightarrow> 'v wop list" where
  "visible \<equiv> filter visible_op"

definition shown :: "'v Reply \<Rightarrow> int option \<times> 'v payload list" where
  "shown s = (map_option fst (sent s), bodies s)"

lemma shown_step: "shown s = shown s' \<Longrightarrow> shown (server_op s op) = shown (server_op s' op)"
  by (cases op) (auto simp: shown_def Let_def)

lemma shown_fields:
  "reply_status s = (case fst (shown s) of Some c \<Rightarrow> c | None \<Rightarrow> 200)" "(sent s = None) = (fst (shown s) = None)"
  "bodies s = snd (shown s)"
  by (cases "sent s"; auto simp: shown_def reply_status_def)+

lemma shown_skip: "\<not> visible_op op \<Longrightarrow> shown (server_op s op) = shown s"
  by (cases op) (auto simp: shown_def)

lemma shown_cong: "shown s = shown s' \<Longrightarrow> shown (foldl server_op s os) = shown (foldl server_op s' os)"
proof (induction os arbitrary: s s')
  case (Cons op os)
  show ?case using Cons.IH [OF shown_step [OF Cons.prems, of op]] by simp
qed simp

lemma shown_visible: "shown (foldl server_op s (visible os)) = shown (foldl server_op s os)"
proof (induction os arbitrary: s)
  case (Cons op os)
  show ?case
  proof (cases "visible_op op")
    case False
    then have "shown (foldl server_op (server_op s op) os) = shown (foldl server_op s os)"
      by (intro shown_cong shown_skip)
    with False Cons.IH show ?thesis by simp
  qed (use Cons.IH in simp)
qed simp

lemma server_op_grows:
  "prefix (bodies s) (bodies (server_op s op)) \<and>
   (sent s \<noteq> None \<longrightarrow> sent (server_op s op) = sent s)"
  by (cases op) (auto simp: Let_def)

interpretation reply: progressing server_op
  "\<lambda>s t. prefix (bodies s) (bodies t) \<and> (sent s \<noteq> None \<longrightarrow> sent t = sent s)"
  by unfold_locales (auto simp: server_op_grows)

interpretation replies: stepping server_op "\<lambda>s. sent s = None \<longrightarrow> bodies s = []"
proof
  show "sent (server_op s op) = None \<longrightarrow> bodies (server_op s op) = []"
    if "sent s = None \<longrightarrow> bodies s = []" for s :: "'v Reply" and op
    using that by (cases op) (auto simp: Let_def)
qed

lemma shown_prefix:
  assumes "prefix (visible os) (visible os')"
  shows "prefix (bodies (reply_of os)) (bodies (reply_of os')) \<and>
    (sent (reply_of os) \<noteq> None \<longrightarrow> reply_status (reply_of os') = reply_status (reply_of os))"
proof -
  from assms obtain zs where z: "visible os' = visible os @ zs" by (auto simp: prefix_def)
  let ?s = "foldl server_op new_reply (visible os)"
  have "shown (reply_of os') = shown (foldl server_op ?s zs)" "shown (reply_of os) = shown ?s"
    using shown_visible [of new_reply os'] shown_visible [of new_reply os] by (simp_all add: reply_of_def z)
  moreover have "prefix (bodies ?s) (bodies (foldl server_op ?s zs)) \<and>
      (sent ?s \<noteq> None \<longrightarrow> fst (shown (foldl server_op ?s zs)) = fst (shown ?s))"
    using reply.rel_run [of ?s zs] by (simp add: shown_def)
  ultimately show ?thesis unfolding shown_fields by auto
qed

subsection \<open>The race\<close>

text \<open>
  Either nobody has claimed the response, and what was sent, is being forwarded and is still to
  come is what the recorder makes of the handler's operations; or the middleware has claimed it
  before the handler sent anything, and only the problem is ever visible.
\<close>

definition race_inv :: "('v payload \<Rightarrow> int) \<Rightarrow> 'w Request \<Rightarrow> 'v wop list \<Rightarrow> 'v race \<Rightarrow> bool" where
  "race_inv sz r os s \<longleftrightarrow>
     (if timedOut (recorder s)
      then \<not> wroteHeader (recorder s) \<and> visible (forwarding s) = [] \<and>
        (case waiter s of Waiting \<Rightarrow> False
         | Writing rest \<Rightarrow> rest \<noteq> [] \<and> visible (out s) @ visible rest = visible (timeout_problem r)
         | Gone \<Rightarrow> visible (out s) = visible (timeout_problem r))
      else (\<forall>rest. waiter s \<noteq> Writing rest) \<and>
        out s @ forwarding s @ snd (through sz (recorder s) (todo s)) = snd (through sz new_recorder os) \<and>
        (\<not> wroteHeader (recorder s) \<longrightarrow> visible (out s) = [] \<and> visible (forwarding s) = []))"

lemma race_inv_start: "race_inv sz r os (race_start os)"
  by (simp add: race_inv_def race_start_def new_recorder_def)

lemma rec_op_timedOut:
  "timedOut rc \<Longrightarrow> fst (rec_op sz rc op) = rc \<and> visible (snd (rec_op sz rc op)) = []"
  by (cases op) (auto simp: rec_WriteHeader_def rec_Write_def)

lemma rec_op_open:
  assumes "\<not> timedOut rc"
  shows "\<not> timedOut (fst (rec_op sz rc op)) \<and>
    (\<not> wroteHeader (fst (rec_op sz rc op)) \<longrightarrow> \<not> wroteHeader rc \<and> visible (snd (rec_op sz rc op)) = [])"
  using assms by (cases op) (auto simp: rec_WriteHeader_def rec_Write_def Let_def)

lemma race_inv_handler:
  assumes "race_inv sz r os s" shows "race_inv sz r os (handler_step sz s)"
proof (cases "forwarding s")
  case (Cons op rest)
  with assms show ?thesis
    by (auto simp: race_inv_def split: waiter.splits if_splits)
next
  case Nil
  show ?thesis
  proof (cases "todo s")
    case (Cons op rest)
    with Nil assms rec_op_timedOut [of "recorder s" sz op] rec_op_open [of "recorder s" sz op] show ?thesis
      by (cases "timedOut (recorder s)") (auto simp: race_inv_def split_beta Let_def split: waiter.splits)
  qed (use Nil assms in simp)
qed

lemma race_inv_step:
  assumes "race_inv sz r os s" shows "race_inv sz r os (race_step sz r s c)"
proof (cases c)
  case Handler
  then show ?thesis using assms race_inv_handler [OF assms] by (simp del: handler_step.simps)
next
  case HandlerDone
  then show ?thesis using assms by (auto simp: race_inv_def)
next
  case Deadline
  then show ?thesis using assms
    by (auto simp: race_inv_def markTimedOut_def timeout_problem_def WriteProblem_def split: if_splits)
next
  case Write
  show ?thesis
  proof (cases "waiter s")
    case (Writing xs)
    with assms Write show ?thesis by (cases xs) (auto simp: race_inv_def split: if_splits)
  qed (use Write assms in simp_all)
qed

interpretation race: stepping "race_step sz r" "race_inv sz r os" for sz r os
  by unfold_locales (rule race_inv_step)

lemma reply_of_through: "reply_of (snd (through sz new_recorder os)) = reply_of os"
  using through_transparent [OF tracks_new, of sz os] by (simp add: reply_of_def)

section \<open>Properties\<close>

text \<open>Until the deadline is noticed the response is the handler's, and it is complete when the middleware has returned.\<close>

definition undisturbed :: "'v race \<Rightarrow> bool" where
  "undisturbed s \<longleftrightarrow> \<not> timedOut (recorder s) \<and> (waiter s = Waiting \<or> waiter s = Gone \<and> todo s = [] \<and> forwarding s = [])"

lemma undisturbed_step:
  assumes "undisturbed s" "c \<noteq> Deadline" shows "undisturbed (race_step sz r s c)"
proof (cases c)
  case Handler
  show ?thesis
  proof (cases "forwarding s")
    case Nil
    then show ?thesis using assms Handler rec_op_open [of "recorder s" sz]
      by (cases "todo s") (auto simp: undisturbed_def split_beta Let_def)
  qed (use assms Handler in \<open>auto simp: undisturbed_def\<close>)
qed (use assms in \<open>auto simp: undisturbed_def\<close>)

lemma undisturbed_run:
  "undisturbed s \<Longrightarrow> Deadline \<notin> set sch \<Longrightarrow> undisturbed (foldl (race_step sz r) s sch)"
  by (induction sch arbitrary: s) (auto simp: undisturbed_step)

lemma undisturbed_start: "undisturbed (race_start os)"
  by (simp add: undisturbed_def race_start_def new_recorder_def)

lemma undisturbed_end:
  assumes "race_inv sz r os s" "undisturbed s" shows "race_end sz s = snd (through sz new_recorder os)"
  using assms by (auto simp: race_inv_def undisturbed_def race_end_def)

lemma gone_step: "waiter s = Gone \<Longrightarrow> race_step sz r s c = s"
  by (cases c) simp_all

lemma gone_run: "waiter s = Gone \<Longrightarrow> foldl (race_step sz r) s sch = s"
  by (induction sch) (simp_all add: gone_step)

lemma timedOut_step: "timedOut (recorder s) \<Longrightarrow> timedOut (recorder (race_step sz r s c))"
  by (cases c) (auto simp: rec_op_timedOut markTimedOut_def split_beta Let_def split: list.split waiter.split)

lemma timedOut_run: "timedOut (recorder s) \<Longrightarrow> timedOut (recorder (foldl (race_step sz r) s sch))"
  by (induction sch arbitrary: s) (simp_all add: timedOut_step)

lemma race_end_claimed:
  assumes "race_inv sz r os s" "timedOut (recorder s)"
  shows "shown (reply_of (race_end sz s)) =
    (Some 504, [ProblemBody (problem r 504 ''timeout'' ''The request exceeded its time budget.'')])"
proof -
  have "visible (race_end sz s) = visible (timeout_problem r)"
    using assms by (auto simp: race_inv_def race_end_def split: waiter.splits)
  then have "shown (reply_of (race_end sz s)) = shown (reply_of (timeout_problem r))"
    unfolding reply_of_def by (metis shown_visible)
  then show ?thesis
    by (simp add: shown_def reply_of_def timeout_problem_def WriteProblem_def new_reply_def bodyAllowed_def Let_def)
qed

text \<open>
  What the deadline finds: the middleware has returned, the handler has claimed the response, or nobody has.
\<close>

lemma race_split:
  assumes "Deadline \<in> set sch"
  obtains post where "sch = takeWhile (\<lambda>c. c \<noteq> Deadline) sch @ Deadline # post"
proof -
  from split_list_first [OF assms] obtain ys zs where "sch = ys @ Deadline # zs" "Deadline \<notin> set ys" by blast
  moreover from this have "takeWhile (\<lambda>c. c \<noteq> Deadline) sch = ys" by (auto simp: takeWhile_append)
  ultimately show ?thesis using that by simp
qed

lemma deadline_claimed:
  assumes "waiter s = Waiting" "wroteHeader (recorder s)"
  shows "race_end sz (foldl (race_step sz r) s (Deadline # post)) = out s"
proof -
  have "waiter (race_step sz r s Deadline) = Gone" "out (race_step sz r s Deadline) = out s"
    using assms by (simp_all add: markTimedOut_def)
  then show ?thesis by (simp add: gone_run race_end_def del: race_step.simps)
qed

lemma deadline_first:
  assumes "waiter s = Waiting" "\<not> wroteHeader (recorder s)" "undisturbed s"
  shows "timedOut (recorder (foldl (race_step sz r) s (Deadline # post)))"
proof -
  have "timedOut (recorder (race_step sz r s Deadline))"
    using assms by (simp add: markTimedOut_def undisturbed_def)
  then show ?thesis by (simp add: timedOut_run del: race_step.simps)
qed



text \<open>
  A deadline that strikes while the handler is between its status and its body cuts the response
  short: the middleware returns without waiting for the handler, and the client gets a 200 whose
  body is missing.
\<close>

theorem timeout_truncates:
  "let rep = reply_of (race_run sz r [Handler, Handler, Handler, Handler, Deadline] (WriteJSON 200 v))
   in reply_status rep = 200 \<and> bodies rep = [] \<and> bodies (reply_of (WriteJSON 200 v)) = [JSON v]"
  by (simp add: race_run_def race_start_def race_end_def WriteJSON_def new_recorder_def rec_WriteHeader_def
      markTimedOut_def reply_of_def new_reply_def reply_status_def bodyAllowed_def Let_def)

text \<open>
  When it strikes between the recorder's flag and the call that sends the status, the status is lost too: a
  404 reaches the client as an empty 200.
\<close>

lemma timeout_loses_status:
  "let rep = reply_of (race_run sz r [Handler, Handler, Handler, Deadline] (WriteJSON 404 v))
   in sent rep = None \<and> reply_status rep = 200 \<and> bodies rep = [] \<and> reply_status (reply_of (WriteJSON 404 v)) = 404"
  by (simp add: race_run_def race_start_def race_end_def WriteJSON_def new_recorder_def rec_WriteHeader_def
      markTimedOut_def reply_of_def new_reply_def reply_status_def bodyAllowed_def Let_def)

text \<open>
  The recorder guards statuses and bodies but not the header map, which both goroutines change: a
  handler that sets its content type after the timeout has set its own relabels the 504 problem.
\<close>

theorem timeout_header_race:
  "let rep = reply_of (race_run sz r [Handler, Deadline, Write, Handler, Write, Write] (WriteJSON 200 v))
   in reply_status rep = 504 \<and> Header_Get (reply_header rep) ''Content-Type'' = ''application/json''"
proof -
  have "race_run sz r [Handler, Deadline, Write, Handler, Write, Write] (WriteJSON 200 v) =
      [HeaderSet ''Content-Type'' ''application/problem+json'', HeaderSet ''Content-Type'' ''application/json'',
       SendHeader 504, SendBody (ProblemBody (problem r 504 ''timeout'' ''The request exceeded its time budget.''))]"
    by (simp add: race_run_def race_start_def race_end_def WriteJSON_def new_recorder_def markTimedOut_def
        timeout_problem_def WriteProblem_def)
  then show ?thesis
    by (simp add: reply_of_def new_reply_def reply_status_def reply_header_def bodyAllowed_def Header_Get_Set)
qed

section \<open>Flushing\<close>

text \<open>
  \<open>Flush\<close> goes to the wrapped writer if that can flush, past the recorder's mutex and its flags; the
  server's writer sends 200 first when no status was sent. No handler of the services flushes, so their
  operations have no constructor for it.
\<close>

definition server_flush :: "'v Reply \<Rightarrow> 'v Reply" where
  "server_flush s = (if sent s = None then s\<lparr>sent := Some (200, live s)\<rparr> else s)"

definition rec_Flush :: "bool \<Rightarrow> responseRecorder \<Rightarrow> 'v Reply \<Rightarrow> responseRecorder \<times> 'v Reply" where
  "rec_Flush flusher rc s = (rc, if flusher then server_flush s else s)"

text \<open>
  So a handler that flushes would break what the recorder promises: after the timeout has claimed the
  response, a late flush turns the 504 into a 200 that carries the timeout's problem; and a flush before
  the status makes the recorder record another status than the client gets.
\<close>

lemma flush_after_timeout:
  assumes "markTimedOut new_recorder = (True, rc)"
  shows "let s = foldl server_op (snd (rec_Flush True rc new_reply)) (timeout_problem r)
    in reply_status s = 200 \<and> bodies s = [ProblemBody (problem r 504 ''timeout'' ''The request exceeded its time budget.'')]"
  by (simp add: rec_Flush_def server_flush_def new_reply_def timeout_problem_def WriteProblem_def reply_status_def bodyAllowed_def)

lemma flush_before_status:
  assumes "rec_Flush True new_recorder new_reply = (rc, s)" "rec_WriteHeader 404 rc = (rc', os)"
  shows "rec_status rc' = 404" "reply_status (foldl server_op s os) = 200"
  using assms by (auto simp: rec_Flush_def server_flush_def new_reply_def new_recorder_def rec_WriteHeader_def reply_status_def)

section \<open>Logging reports what the client sees\<close>

lemma recorder_status: "rec_status (fst (through sz new_recorder os)) = reply_status (reply_of os)"
  using through_transparent [OF tracks_new, of sz os] by (simp add: tracks_def reply_of_def)

text \<open>
  The recorder of \<open>Logging\<close> does not change the response, and the status and level of the log
  line are those of the response the client receives.
\<close>

theorem logging_status:
  assumes "Logging env sz base next r w = (x, w')" "ending x = Returned"
  shows "\<exists>y w1 w2 start rest. env_now env w = (start, w1) \<and>
      next (WithContext ((Ctx r)\<lparr>ctxLogger := Some (base @ loggerAttrs r)\<rparr>) r) w1 = (y, w2) \<and>
      reply_of (ops x) = reply_of (ops y) \<and>
      w' = env_emit env (Log (logLevel (reply_status (reply_of (ops x)))) ''http_request''
        (base @ loggerAttrs r @ (''status'', AInt (reply_status (reply_of (ops x)))) # rest)) (snd (env_now env w2))"
proof -
  obtain start w1 where 1: "env_now env w = (start, w1)" by fastforce
  obtain y w2 where 2: "next (WithContext ((Ctx r)\<lparr>ctxLogger := Some (base @ loggerAttrs r)\<rparr>) r) w1 = (y, w2)"
    by fastforce
  have x: "x = y\<lparr>ops := snd (through sz new_recorder (ops y)), patternAfter := Pattern r\<rparr>"
    using assms by (auto simp: Logging_def 1 2 Let_def split_beta split: if_splits)
  with assms show ?thesis
    by (auto simp: Logging_def 1 2 Let_def split_beta recorder_status reply_of_through)
qed

definition wit_env :: "(time \<times> event list) Env" where
  "wit_env = \<lparr>env_now = (\<lambda>(t, es). (t, (t + 1, es))), env_rand16 = (\<lambda>w. (Some (replicate 16 CHR ''a''), w)),
     env_emit = (\<lambda>e (t, es). (t, es @ [e]))\<rparr>"

definition wit_request :: "string \<Rightarrow> string \<Rightarrow> Header \<Rightarrow> string \<Rightarrow> 'w Request" where
  "wit_request m p h b = \<lparr>Method = m, Path = p, RawQuery = [], ReqHeader = h, Body = \<lparr>content = b, maxBytes = None\<rparr>,
     Pattern = [], PathValues = Map.empty,
     Ctx = \<lparr>std = \<lparr>ctx_Err = (\<lambda>_. None), ctx_Deadline = None\<rparr>, ctxRequestID = None, ctxLogger = None,
       ctxClientID = None, ctxSpan = None\<rparr>\<rparr>"

lemma logging_status_witness:
  "\<exists>rest. snd (snd (Logging wit_env (\<lambda>_. 1) [] (\<lambda>r w. (respond r (WriteProblem r 404 ''c'' ''d'' :: unit wop list), w))
      (wit_request ''GET'' ''/x'' Map.empty []) (0, [])))
    = [Log LevelWarn ''http_request'' ([] @ loggerAttrs (wit_request ''GET'' ''/x'' Map.empty [] :: (time \<times> event list) Request)
        @ (''status'', AInt 404) # rest)]"
proof -
  let ?L = "Logging wit_env (\<lambda>_. 1) [] (\<lambda>r w. (respond r (WriteProblem r 404 ''c'' ''d'' :: unit wop list), w))
      (wit_request ''GET'' ''/x'' Map.empty []) (0, [])"
  have e: "ending (fst ?L) = Returned" "reply_status (reply_of (ops (fst ?L))) = 404"
    by (simp_all add: Logging_def Let_def split_beta respond_def recorder_status reply_of_through)
      (simp add: reply_of_def WriteProblem_def new_reply_def reply_status_def bodyAllowed_def)
  from logging_status [OF surjective_pairing e(1)] e(2) show ?thesis
    by (auto simp: logLevel_def wit_env_def)
qed

section \<open>Correlation ids\<close>

lemma newRequestID_valid:
  "env_rand16 env w = (Some b, w1) \<Longrightarrow> length b = 16 \<Longrightarrow> validRequestID (fst (newRequestID env w))"
  by (simp add: newRequestID_def validRequestID_def length_hex_EncodeToString hex_EncodeToString_decodable)

text \<open>
  The correlation id that the handlers, the logs and the response see is always 32 hexadecimal
  digits: an inbound id of any other form is replaced, and only a well-formed one is kept.
\<close>

lemma request_id_wellformed:
  assumes "env_rand16 env w = (Some b, w1)" "length b = 16"
  shows "\<exists>i w2 x w'. validRequestID i \<and>
    (validRequestID (Header_Get (ReqHeader r) RequestIDHeader) \<longrightarrow> i = Header_Get (ReqHeader r) RequestIDHeader) \<and>
    next (WithContext ((Ctx r)\<lparr>ctxRequestID := Some i\<rparr>) r) w2 = (x, w') \<and>
    RequestIDMiddleware env next r w = (x\<lparr>ops := HeaderSet RequestIDHeader i # ops x, patternAfter := Pattern r\<rparr>, w')"
proof -
  let ?i = "Header_Get (ReqHeader r) RequestIDHeader"
  obtain i w2 where i: "(if validRequestID ?i then (?i, w) else newRequestID env w) = (i, w2)" by fastforce
  then have "validRequestID i" "validRequestID ?i \<longrightarrow> i = ?i"
    using newRequestID_valid [OF assms] by (auto split: if_splits)
  moreover obtain x w' where "next (WithContext ((Ctx r)\<lparr>ctxRequestID := Some i\<rparr>) r) w2 = (x, w')" by fastforce
  ultimately show ?thesis using i by (auto simp: RequestIDMiddleware_def before_def Let_def)
qed

end
