(* ===== verification/Upstream.thy ===== *)
theory Upstream
  imports Breaker Middleware
begin

text \<open>
  The resilient client of \<open>internal/platform/httpx/client.go\<close>: every attempt of a call goes through the
  breaker, and the retry loop goes around both.

  The network is the argument \<open>up_client\<close>, the client that \<open>NewUpstream\<close> builds from its transport: it
  maps a request to a response or a transport error. The world \<open>'w\<close> is what the clock, the network
  and the metrics act on; the breaker stands beside it.
\<close>

section \<open>Requests and responses\<close>

definition ErrUpstreamUnavailable :: go_error where
  "ErrUpstreamUnavailable = ErrVar ''httpx.ErrUpstreamUnavailable'' ''upstream unavailable''"

record UpRequest =
  up_method :: string
  up_url :: string
  up_header :: Header
  up_body :: "string option"

text \<open>A response's status, the bytes its body delivers, and the error, if any, that it ends with.\<close>

record HttpResponse =
  StatusCode :: int
  resp_bytes :: string
  resp_fault :: "go_error option"

record Response =
  rsp_Status :: int
  rsp_Body :: string

text \<open>\<open>io.ReadAll (io.LimitReader (body, n))\<close>\<close>

definition ReadLimited :: "nat \<Rightarrow> HttpResponse \<Rightarrow> go_error + string" where
  "ReadLimited n resp =
     (if n \<le> length (resp_bytes resp) then Inr (take n (resp_bytes resp))
      else case resp_fault resp of None \<Rightarrow> Inr (resp_bytes resp) | Some e \<Rightarrow> Inl e)"

section \<open>The client\<close>

record 'w UpstreamConfig =
  uc_Name :: string
  uc_BaseURL :: string
  uc_Timeout :: duration
  uc_Retry :: "'w RetryConfig"
  uc_Breaker :: "'w BreakerConfig"

record 'w Upstream =
  up_name :: string
  up_baseURL :: string
  up_client :: "UpRequest \<Rightarrow> 'w \<Rightarrow> (go_error + HttpResponse) \<times> 'w"
  up_retry :: "'w RetryConfig"
  up_metrics :: bool
  up_logger :: attrs

definition stateValue :: "State \<Rightarrow> rat" where
  "stateValue s = (case s of StateClosed \<Rightarrow> 0 | StateHalfOpen \<Rightarrow> 1 | StateOpen \<Rightarrow> 2)"

definition onStateChange :: "'w Env \<Rightarrow> bool \<Rightarrow> string \<Rightarrow> attrs \<Rightarrow> State \<Rightarrow> State \<Rightarrow> 'w \<Rightarrow> 'w" where
  "onStateChange env m name logger from to w =
     (let w = (if m then env_emit env (BreakerStateGauge name (stateValue to))
                 (env_emit env (BreakerTransitions name (State_String from) (State_String to)) w) else w)
      in env_emit env (Log LevelWarn ''circuit breaker state change''
           (logger @ [(''from'', AStr (State_String from)), (''to'', AStr (State_String to))])) w)"

definition onRetry :: "'w Env \<Rightarrow> bool \<Rightarrow> string \<Rightarrow> attrs \<Rightarrow> int \<Rightarrow> duration \<Rightarrow> go_error \<Rightarrow> 'w \<Rightarrow> 'w" where
  "onRetry env m name logger k delay err w =
     (let w = (if m then env_emit env (UpstreamRetriesTotal name) w else w)
      in env_emit env (Log LevelDebug ''retrying upstream call''
           (logger @ [(''attempt'', AInt k), (''delay'', ADuration delay), (''error'', AError err)])) w)"

text \<open>\<open>mk_client\<close> is the client over the configured transport, with the timeout of one attempt; \<open>m\<close>
  says whether metrics are given.\<close>

definition NewUpstream ::
  "'w Env \<Rightarrow> (duration \<Rightarrow> UpRequest \<Rightarrow> 'w \<Rightarrow> (go_error + HttpResponse) \<times> 'w) \<Rightarrow> 'w UpstreamConfig \<Rightarrow> bool \<Rightarrow> attrs \<Rightarrow>
   'w \<Rightarrow> 'w Upstream \<times> 'w bstate" where
  "NewUpstream env mk_client c m logger w =
     (let c = (if uc_Timeout c \<le> 0 then c\<lparr>uc_Timeout := 2 * Second\<rparr> else c);
          lg = logger @ [(''upstream'', AStr (uc_Name c))];
          breakerCfg = (uc_Breaker c)\<lparr>OnStateChange := Some (onStateChange env m (uc_Name c) lg)\<rparr>;
          (b, w) = NewBreaker (env_now env) (uc_Name c) breakerCfg w;
          w = (if m then env_emit env (BreakerStateGauge (uc_Name c) (stateValue StateClosed)) w else w)
      in (\<lparr>up_name = uc_Name c, up_baseURL = uc_BaseURL c, up_client = mk_client (uc_Timeout c),
           up_retry = (uc_Retry c)\<lparr>OnRetry := Some (onRetry env m (uc_Name c) lg)\<rparr>, up_metrics = m, up_logger = lg\<rparr>,
          (b, w)))"

definition BreakerState :: "'w bstate \<Rightarrow> State \<times> 'w bstate" where
  "BreakerState s = Breaker_State s"

definition Upstream_Name :: "'w Upstream \<Rightarrow> string" where
  "Upstream_Name u = up_name u"

section \<open>One attempt\<close>

text \<open>\<open>bodyReader\<close> gives every attempt a reader of its own over the whole body.\<close>

definition bodyReader :: "string option \<Rightarrow> string option" where
  "bodyReader b = b"

definition request_header :: "string \<Rightarrow> string option \<Rightarrow> (string \<times> string) list \<Rightarrow> int \<Rightarrow> Header" where
  "request_header rid body headers k =
     (let h = foldl (\<lambda>h (k, v). Header_Set k v h) Map.empty headers;
          h = (if body \<noteq> None then Header_Set ''Content-Type'' ''application/json'' h else h);
          h = Header_Set ''Accept'' ''application/json'' h;
          h = Header_Set ''X-Retry-Attempt'' (Itoa k) h
      in if rid \<noteq> [] then Header_Set RequestIDHeader rid h else h)"

text \<open>\<open>bad_url\<close> is the error of \<open>http.NewRequestWithContext\<close>, if it has one for the method and URL.\<close>

definition attempt ::
  "(string \<Rightarrow> string \<Rightarrow> go_error option) \<Rightarrow> 'w Upstream \<Rightarrow> string \<Rightarrow> string \<Rightarrow> string \<Rightarrow> string option \<Rightarrow>
   (string \<times> string) list \<Rightarrow> int \<Rightarrow> 'w \<Rightarrow> (go_error + Response) \<times> 'w" where
  "attempt bad_url u rid method path body headers k w =
     (case bad_url method (up_baseURL u @ path) of
        Some err \<Rightarrow> (Inl (Permanently err), w)
      | None \<Rightarrow>
          (case up_client u \<lparr>up_method = method, up_url = up_baseURL u @ path,
                  up_header = request_header rid body headers k, up_body = bodyReader body\<rparr> w of
             (Inl err, w) \<Rightarrow> (Inl err, w)
           | (Inr resp, w) \<Rightarrow>
               (case ReadLimited (4 * 2 ^ 20) resp of
                  Inl err \<Rightarrow> (Inl err, w)
                | Inr payload \<Rightarrow>
                    if 500 \<le> StatusCode resp \<or> StatusCode resp = 429
                    then (Inl (ErrText (''upstream '' @ up_name u @ '' returned '' @ Itoa (StatusCode resp))), w)
                    else (Inr \<lparr>rsp_Status = StatusCode resp, rsp_Body = payload\<rparr>, w))))"

section \<open>The call\<close>

text \<open>
  The state of a call in progress: the breaker, the world, and the variable \<open>result\<close> that the
  attempts assign. Effects on the world, the caller's context and the retry configuration are
  carried over to it.
\<close>

type_synonym 'w call = "'w bstate \<times> Response option"

definition lift :: "('w \<Rightarrow> 'a \<times> 'w) \<Rightarrow> 'w call \<Rightarrow> 'a \<times> 'w call" where
  "lift f = (\<lambda>((b, w), res). let (a, w) = f w in (a, ((b, w), res)))"

definition lift_ctx :: "'w Context \<Rightarrow> 'w call Context" where
  "lift_ctx ctx = \<lparr>ctx_Err = (\<lambda>((b, w), res). ctx_Err ctx w), ctx_Deadline = ctx_Deadline ctx\<rparr>"

definition lift_retry :: "'w Context \<Rightarrow> 'w RetryConfig \<Rightarrow> 'w call RetryConfig" where
  "lift_retry ctx c =
     \<lparr>MaxAttempts = MaxAttempts c, BaseDelay = BaseDelay c, MaxDelay = MaxDelay c, JitterFraction = JitterFraction c,
      Rand = map_option lift (Rand c),
      Sleep = map_option (\<lambda>f _ d. lift (f ctx d)) (Sleep c),
      OnRetry = map_option (\<lambda>f k d e ((b, w), res). ((b, f k d e w), res)) (OnRetry c)\<rparr>"

text \<open>
  The function that the loop retries: an attempt under the breaker, on the same inputs each time,
  that stores its response in \<open>result\<close>. The breaker's own function has no room for that variable, so
  the stored response is read off the same attempt from the same state.
\<close>

definition on_world :: "('w \<Rightarrow> (go_error + Response) \<times> 'w) \<Rightarrow> 'w bstate \<Rightarrow> go_error option \<times> 'w bstate" where
  "on_world f = (\<lambda>(b, w). let (r, w) = f w in (case r of Inl e \<Rightarrow> Some e | Inr _ \<Rightarrow> None, (b, w)))"

definition guarded :: "'w Context \<Rightarrow> (int \<Rightarrow> 'w \<Rightarrow> (go_error + Response) \<times> 'w) \<Rightarrow> int \<Rightarrow> 'w call \<Rightarrow> go_error option \<times> 'w call" where
  "guarded ctx f k = (\<lambda>(s, res).
     let (err, s') = Breaker_Do (ctx_Err ctx) (on_world (f k)) s;
         res = (case allow s of
                  (Some e, _) \<Rightarrow> res
                | (None, (b, w)) \<Rightarrow> (case f k w of (Inr r, _) \<Rightarrow> Some r | (Inl e, _) \<Rightarrow> res))
     in (err, (s', res)))"

definition outcome_of :: "go_error option \<Rightarrow> Response option \<Rightarrow> string" where
  "outcome_of err result =
     (if (case err of Some e \<Rightarrow> errors_Is e ErrBreakerOpen | None \<Rightarrow> False) then ''breaker_open''
      else if err \<noteq> None then ''error''
      else case result of
        Some r \<Rightarrow> if 500 \<le> rsp_Status r then ''server_error'' else if 400 \<le> rsp_Status r then ''client_error'' else ''success''
      | None \<Rightarrow> ''success'')"

text \<open>The arguments that stand for the environment of a call.\<close>

record 'w Net =
  net_env :: "'w Env"
  net_rand :: "'w \<Rightarrow> rat \<times> 'w"
  net_wait :: "duration \<Rightarrow> 'w \<Rightarrow> bool \<times> 'w"
  net_bad_url :: "string \<Rightarrow> string \<Rightarrow> go_error option"

definition do_retry ::
  "'w Net \<Rightarrow> 'w Upstream \<Rightarrow> 'w Context \<Rightarrow> (int \<Rightarrow> 'w \<Rightarrow> (go_error + Response) \<times> 'w) \<Rightarrow> 'w call \<Rightarrow> go_error option \<times> 'w call" where
  "do_retry net u ctx f =
     Retry (lift (env_now (net_env net))) (lift (net_rand net)) (\<lambda>d. lift (net_wait net d)) (lift_ctx ctx)
       (lift_retry ctx (up_retry u)) (guarded ctx f)"

definition Upstream_do ::
  "'w Net \<Rightarrow> 'w Upstream \<Rightarrow> 'w Context \<Rightarrow> string \<Rightarrow> string \<Rightarrow> string \<Rightarrow> string option \<Rightarrow> (string \<times> string) list \<Rightarrow>
   'w bstate \<Rightarrow> (go_error + Response option) \<times> 'w bstate" where
  "Upstream_do net u ctx rid method path body headers = (\<lambda>(b, w).
     let env = net_env net;
         (start, w) = env_now env w;
         (err, ((b, w), result)) =
           do_retry net u ctx (attempt (net_bad_url net) u rid method path body headers) ((b, w), None);
         w = (if up_metrics u
              then let w = env_emit env (UpstreamRequestsTotal (up_name u) (outcome_of err result)) w;
                       (t, w) = env_now env w
                   in env_emit env (UpstreamRequestDuration (up_name u) (Seconds (time_Sub t start))) w
              else w)
     in case err of
          Some e \<Rightarrow>
            if errors_Is e ErrBreakerOpen
            then (Inl (Wrapf [] ErrUpstreamUnavailable ('': '' @ up_name u @ '' breaker open'')), (b, w))
            else (Inl (Wrapf [] ErrUpstreamUnavailable ('': '' @ up_name u @ '': '' @ Error e)), (b, w))
        | None \<Rightarrow> (Inr result, (b, w)))"

definition Upstream_Get ::
  "'w Net \<Rightarrow> 'w Upstream \<Rightarrow> 'w Context \<Rightarrow> string \<Rightarrow> string \<Rightarrow> (string \<times> string) list \<Rightarrow>
   'w bstate \<Rightarrow> (go_error + Response option) \<times> 'w bstate" where
  "Upstream_Get net u ctx rid path headers = Upstream_do net u ctx rid ''GET'' path None headers"

definition Upstream_Post ::
  "'w Net \<Rightarrow> 'w Upstream \<Rightarrow> 'w Context \<Rightarrow> string \<Rightarrow> string \<Rightarrow> string option \<Rightarrow> (string \<times> string) list \<Rightarrow>
   'w bstate \<Rightarrow> (go_error + Response option) \<times> 'w bstate" where
  "Upstream_Post net u ctx rid path body headers = Upstream_do net u ctx rid ''POST'' path body headers"

section \<open>What a call keeps\<close>

lemma Breaker_Do_inv:
  assumes "breaker_inv (fst s)" "\<And>s. breaker_inv (fst s) \<Longrightarrow> breaker_inv (fst (snd (fn s)))"
  shows "breaker_inv (fst (snd (Breaker_Do ctxErr fn s)))"
proof -
  obtain a s1 where a: "allow s = (a, s1)" by (rule prod.exhaust)
  obtain e s2 where e: "fn s1 = (e, s2)" by (rule prod.exhaust)
  have "breaker_inv (fst s1)" using allow_inv [OF assms(1)] a by simp
  moreover from this have "breaker_inv (fst s2)" using assms(2) [of s1] e by simp
  ultimately show ?thesis
    by (auto simp: Breaker_Do_def a e release_inv record_inv split: option.split)
qed

text \<open>The responses that an attempt can return, and the invariant of a call in progress.\<close>

definition usable :: "Response \<Rightarrow> bool" where
  "usable r \<longleftrightarrow> rsp_Status r < 500 \<and> rsp_Status r \<noteq> 429 \<and> length (rsp_Body r) \<le> 4 * 2 ^ 20"

definition call_ok :: "'w call \<Rightarrow> bool" where
  "call_ok x \<longleftrightarrow> breaker_inv (fst (fst x)) \<and> pred_option usable (snd x)"

lemma ReadLimited_length: "ReadLimited n resp = Inr p \<Longrightarrow> length p \<le> n"
  by (auto simp: ReadLimited_def split: if_splits option.splits)

lemma attempt_usable: "fst (attempt bad u rid m p b hs k w) = Inr r \<Longrightarrow> usable r"
  by (auto simp: attempt_def usable_def dest: ReadLimited_length split: option.splits prod.splits sum.splits if_splits)

lemma call_ok_lift: "call_ok x \<Longrightarrow> call_ok (snd (lift f x))"
  by (cases x; cases "fst x") (auto simp: lift_def call_ok_def split: prod.split)

lemma on_world_fst: "fst (snd (on_world f s)) = fst s"
  by (cases s) (simp add: on_world_def split_beta)

lemma call_ok_guarded:
  assumes "call_ok x" "\<And>k w r. fst (f k w) = Inr r \<Longrightarrow> usable r"
  shows "call_ok (snd (guarded ctx f k x))"
proof -
  obtain s res where x: "x = (s, res)" by fastforce
  have b: "breaker_inv (fst (snd (Breaker_Do (ctx_Err ctx) (on_world (f k)) s)))"
    using assms(1) by (intro Breaker_Do_inv) (simp_all add: x call_ok_def on_world_fst)
  from b assms show ?thesis
    by (auto simp: guarded_def x call_ok_def split_beta Let_def split: option.split prod.split sum.split)
qed

text \<open>The retry loop of a call: every effect of it keeps the invariant.\<close>

abbreviation do_config :: "'w Net \<Rightarrow> 'w Upstream \<Rightarrow> 'w Context \<Rightarrow> 'w call RetryConfig" where
  "do_config net u ctx \<equiv>
     RetryConfig_withDefaults (lift (net_rand net)) (\<lambda>d. lift (net_wait net d)) (lift_retry ctx (up_retry u))"

abbreviation do_attempts ::
  "'w Net \<Rightarrow> 'w Upstream \<Rightarrow> 'w Context \<Rightarrow> string \<Rightarrow> string \<Rightarrow> string \<Rightarrow> string option \<Rightarrow> (string \<times> string) list \<Rightarrow>
   int \<Rightarrow> 'w call \<Rightarrow> go_error option \<times> 'w call" where
  "do_attempts net u ctx rid m p b hs \<equiv> guarded ctx (attempt (net_bad_url net) u rid m p b hs)"

lemma do_config_Rand: "call_ok x \<Longrightarrow> call_ok (snd (the (Rand (do_config net u ctx)) x))"
  by (cases "Rand (up_retry u)") (auto simp: RetryConfig_withDefaults_def lift_retry_def Let_def call_ok_lift)

lemma do_config_Sleep: "call_ok x \<Longrightarrow> call_ok (snd (the (Sleep (do_config net u ctx)) c d x))"
  by (cases "Sleep (up_retry u)")
    (auto simp: RetryConfig_withDefaults_def lift_retry_def sleepCtx_def split_beta Let_def call_ok_lift)

lemma do_config_OnRetry:
  assumes "call_ok x" "OnRetry (do_config net u ctx) = Some f" shows "call_ok (f k d e x)"
proof -
  have "OnRetry (do_config net u ctx) = OnRetry (lift_retry ctx (up_retry u))"
    by (simp add: RetryConfig_withDefaults_def Let_def)
  with assms(2) obtain g where "f = (\<lambda>k d e ((b, w), res). ((b, g k d e w), res))"
    by (cases "OnRetry (up_retry u)") (auto simp: lift_retry_def)
  with assms(1) show ?thesis by (cases x; cases "fst x") (simp add: call_ok_def)
qed

interpretation up: retry_effects "lift (env_now (net_env net))" "lift_ctx ctx" "do_config net u ctx"
    "do_attempts net u ctx rid m p b hs" call_ok "\<lambda>_ _. True"
  for net u ctx rid m p b hs
proof
  show "call_ok (snd (do_attempts net u ctx rid m p b hs k x))" if "call_ok x" for x k
    using that attempt_usable by (rule call_ok_guarded)
  show "call_ok (snd (deadline_within (lift (env_now (net_env net))) (lift_ctx ctx) d x))" if "call_ok x" for x d
    using that by (auto simp: deadline_within_def split_beta call_ok_lift split: option.split)
qed (simp_all add: do_config_Rand do_config_Sleep do_config_OnRetry)

section \<open>What a call returns\<close>

text \<open>A loop that returns without an error stopped right after an attempt without an error.\<close>

lemma Retry_round_nil:
  assumes "Retry_round tn ctx c fn k l w = (Inl None, w')"
  shows "fn k w = (None, w')"
proof -
  obtain r v where fn: "fn k w = (r, v)" by (rule prod.exhaust)
  have "fst (Retry_backoff tn ctx c k e v) \<noteq> Inl None" for e
    using backoff_result [of tn ctx c k e v] by auto
  with assms fn show ?thesis
    by (auto simp: Retry_round_def split: option.splits if_splits) (metis fst_conv)
qed

lemma Retry_loop_nil:
  assumes "Retry_loop tn ctx c fn k l w = (None, w')" "l = None \<Longrightarrow> k \<le> MaxAttempts c"
  shows "\<exists>k v. fn k v = (None, w')"
  using assms
proof (induction "nat (MaxAttempts c + 1 - k)" arbitrary: k l w rule: less_induct)
  case less
  show ?case
  proof (cases "k \<le> MaxAttempts c")
    case True
    obtain out v where r: "Retry_round tn ctx c fn k l w = (out, v)" by (rule prod.exhaust)
    show ?thesis
    proof (cases out)
      case (Inl res)
      with less.prems(1) True r have "res = None" "v = w'" by (simp_all add: Retry_loop.simps [of _ _ _ _ k])
      with Retry_round_nil [of tn ctx c fn k l w w'] r Inl show ?thesis by blast
    next
      case (Inr e)
      with less.prems(1) True r have "Retry_loop tn ctx c fn (k + 1) (Some e) v = (None, w')"
        by (simp add: Retry_loop.simps [of _ _ _ _ k])
      with less.hyps [of "k + 1" "Some e" v] True show ?thesis by simp
    qed
  qed (use less.prems in \<open>auto simp: Retry_loop.simps\<close>)
qed

lemma Breaker_Do_nil:
  assumes "Breaker_Do ctxErr fn s = (None, s')"
  obtains s1 s2 where "allow s = (None, s1)" "fn s1 = (None, s2)"
proof -
  obtain a s1 where a: "allow s = (a, s1)" by (rule prod.exhaust)
  obtain e s2 where e: "fn s1 = (e, s2)" by (rule prod.exhaust)
  with assms a that show ?thesis by (auto simp: Breaker_Do_def split: option.splits if_splits)
qed

lemma guarded_nil:
  assumes "guarded ctx f k x = (None, (s', res))" shows "res \<noteq> None"
proof -
  obtain s res0 where x: "x = (s, res0)" by (rule prod.exhaust)
  have "fst (Breaker_Do (ctx_Err ctx) (on_world (f k)) s) = None"
    using assms by (simp add: guarded_def x split_beta Let_def)
  then obtain s1 s2 where s1: "allow s = (None, s1)" "on_world (f k) s1 = (None, s2)"
    using Breaker_Do_nil [of "ctx_Err ctx" "on_world (f k)" s] by (metis prod.collapse)
  then have "\<exists>r. fst (f k (snd s1)) = Inr r"
    by (cases s1; cases "fst (f k (snd s1))") (auto simp: on_world_def split_beta)
  with assms s1 show ?thesis by (cases s1) (auto simp: guarded_def x split_beta Let_def split: sum.splits)
qed

lemma do_retry_cases:
  assumes "call_ok x"
    and "do_retry net u ctx (attempt (net_bad_url net) u rid m p b hs) x = (err, (s, result))"
  shows "breaker_inv (fst s)" "pred_option usable result" "err = None \<Longrightarrow> result \<noteq> None"
proof -
  have "call_ok (s, result)"
    using up.P_loop [OF assms(1), of net ctx u rid m p b hs 1 None] assms(2) by (simp add: do_retry_def Retry_def)
  then show "breaker_inv (fst s)" "pred_option usable result" by (simp_all add: call_ok_def)
  assume "err = None"
  moreover have "1 \<le> MaxAttempts (do_config net u ctx)" by (auto simp: RetryConfig_withDefaults_def Let_def)
  ultimately obtain k v where "do_attempts net u ctx rid m p b hs k v = (None, (s, result))"
    using Retry_loop_nil [of _ _ "do_config net u ctx" _ 1 None x "(s, result)"] assms(2)
    unfolding do_retry_def Retry_def by blast
  then show "result \<noteq> None" by (rule guarded_nil)
qed

text \<open>The possible results of a call: the two errors, or a usable response.\<close>

definition call_result :: "string \<Rightarrow> go_error + Response option \<Rightarrow> bool" where
  "call_result name res \<longleftrightarrow> (case res of
      Inl e \<Rightarrow> \<exists>why. e = Wrapf [] ErrUpstreamUnavailable ('': '' @ name @ why)
    | Inr None \<Rightarrow> False
    | Inr (Some r) \<Rightarrow> usable r)"

lemma Upstream_do_result:
  assumes "breaker_inv (fst s)" "Upstream_do net u ctx rid m p b hs s = (res, s')"
  shows "call_result (up_name u) res" "breaker_inv (fst s')"
proof -
  obtain b0 w where s: "s = (b0, w)" by (rule prod.exhaust)
  obtain start w1 where n: "env_now (net_env net) w = (start, w1)" by (rule prod.exhaust)
  obtain err s1 result where d:
    "do_retry net u ctx (attempt (net_bad_url net) u rid m p b hs) ((b0, w1), None) = (err, (s1, result))"
    by (metis prod.exhaust)
  have "call_ok ((b0, w1), None)" using assms(1) by (simp add: s call_ok_def)
  note c = do_retry_cases [OF this d]
  obtain b1 w2 where s1: "s1 = (b1, w2)" by (rule prod.exhaust)
  have "fst s' = b1" and res: "res = (case err of
      Some e \<Rightarrow> if errors_Is e ErrBreakerOpen
        then Inl (Wrapf [] ErrUpstreamUnavailable ('': '' @ up_name u @ '' breaker open''))
        else Inl (Wrapf [] ErrUpstreamUnavailable ('': '' @ up_name u @ '': '' @ Error e))
    | None \<Rightarrow> Inr result)"
    using assms(2) d s1 by (auto simp: Upstream_do_def s n Let_def split_beta split: option.splits if_splits)
  with c s1 show "call_result (up_name u) res" "breaker_inv (fst s')"
    by (auto simp: call_result_def split: option.splits)
qed

text \<open>
  C17. What a caller of the client can rely on, for every network, clock and configuration: either
  an error that is \<open>ErrUpstreamUnavailable\<close>, or a response, never nil, whose status is below 500 and
  not 429 and whose body has at most 4 MiB. The breaker stays well formed throughout.
\<close>

theorem upstream_result:
  assumes "breaker_inv (fst s)" "Upstream_do net u ctx rid m p b hs s = (res, s')"
  shows "(case res of
      Inl e \<Rightarrow> errors_Is e ErrUpstreamUnavailable
    | Inr None \<Rightarrow> False
    | Inr (Some r) \<Rightarrow> rsp_Status r < 500 \<and> rsp_Status r \<noteq> 429 \<and> length (rsp_Body r) \<le> 4 * 2 ^ 20)
    \<and> breaker_inv (fst s')"
  using Upstream_do_result [OF assms]
  by (auto simp: call_result_def usable_def errors_Is_Wrapf split: sum.splits option.splits)

definition wit_net :: "(time \<times> event list) Net" where
  "wit_net = \<lparr>net_env = wit_env, net_rand = (\<lambda>w. (0, w)), net_wait = (\<lambda>d (t, es). (False, (t + d, es))),
     net_bad_url = (\<lambda>_ _. None)\<rparr>"

definition wit_upstream :: "int \<Rightarrow> (time \<times> event list) Upstream \<times> (time \<times> event list) bstate" where
  "wit_upstream status = NewUpstream wit_env
     (\<lambda>_ rq w. (Inr \<lparr>StatusCode = status, resp_bytes = ''{}'', resp_fault = None\<rparr>, w))
     \<lparr>uc_Name = ''scorer'', uc_BaseURL = ''http://scorer'', uc_Timeout = 0,
      uc_Retry = \<lparr>MaxAttempts = 2, BaseDelay = 0, MaxDelay = 0, JitterFraction = 0, Rand = None, Sleep = None, OnRetry = None\<rparr>,
      uc_Breaker = \<lparr>MinimumRequests = 0, FailureRatio = 0, OpenTimeout = 0, HalfOpenMaxCalls = 0, HalfOpenSuccesses = 0,
        Window = 0, Now = None, OnStateChange = None\<rparr>\<rparr> True [] (0, [])"

lemma upstream_result_witness:
  "let (u, s) = wit_upstream 503;
       res = fst (Upstream_do wit_net u \<lparr>ctx_Err = (\<lambda>_. None), ctx_Deadline = None\<rparr> [] ''GET'' ''/v1/devices'' None [] s)
   in case res of Inl e \<Rightarrow> errors_Is e ErrUpstreamUnavailable
      | Inr None \<Rightarrow> False
      | Inr (Some r) \<Rightarrow> rsp_Status r < 500 \<and> rsp_Status r \<noteq> 429 \<and> length (rsp_Body r) \<le> 4 * 2 ^ 20"
proof -
  obtain u s where us: "wit_upstream 503 = (u, s)" by (rule prod.exhaust)
  have "breaker_inv (fst s)"
    using us NewBreaker_inv by (auto simp: wit_upstream_def NewUpstream_def Let_def split_beta)
  from upstream_result [OF this surjective_pairing, of wit_net u] show ?thesis by (simp add: us Let_def)
qed


text \<open>An upstream whose every attempt fails is unavailable.\<close>

lemma Upstream_do_down:
  assumes "\<And>k w. \<exists>e. fst (attempt (net_bad_url net) u rid m p b hs k w) = Inl e"
  shows "\<exists>e. fst (Upstream_do net u ctx rid m p b hs s) = Inl e"
proof -
  let ?f = "attempt (net_bad_url net) u rid m p b hs"
  obtain b0 w where s: "s = (b0, w)" by (rule prod.exhaust)
  obtain start w1 where n: "env_now (net_env net) w = (start, w1)" by (rule prod.exhaust)
  obtain err s1 result where d: "do_retry net u ctx ?f ((b0, w1), None) = (err, (s1, result))"
    by (metis prod.exhaust)
  have "err \<noteq> None"
  proof
    assume "err = None"
    moreover have "1 \<le> MaxAttempts (do_config net u ctx)" by (auto simp: RetryConfig_withDefaults_def Let_def)
    ultimately obtain k v where g: "guarded ctx ?f k v = (None, (s1, result))"
      using Retry_loop_nil [of _ _ "do_config net u ctx" _ 1 None "((b0, w1), None)" "(s1, result)"] d
      unfolding do_retry_def Retry_def by blast
    obtain v1 v2 where v: "v = (v1, v2)" by (rule prod.exhaust)
    have "fst (Breaker_Do (ctx_Err ctx) (on_world (?f k)) v1) = None"
      using g by (simp add: guarded_def v split_beta Let_def)
    then obtain t1 t2 where "on_world (?f k) t1 = (None, t2)"
      using Breaker_Do_nil [of "ctx_Err ctx" "on_world (?f k)" v1] by (metis prod.collapse)
    with assms [of k "snd t1"] show False by (cases t1) (auto simp: on_world_def split_beta)
  qed
  then show ?thesis using d by (cases s1) (auto simp: Upstream_do_def s n Let_def split_beta)
qed

lemma wit_503_down: "\<exists>e. fst (attempt bad (fst (wit_upstream 503)) rid m p b hs k w) = Inl e"
  by (auto simp: wit_upstream_def NewUpstream_def attempt_def ReadLimited_def Let_def split_beta split: option.split)

text \<open>A healthy upstream behind a closed breaker answers at the first attempt.\<close>

lemma admitted_closed:
  assumes "state b = StateClosed" "Q w" "\<And>w. Q w \<Longrightarrow> Q (snd (br_Now b w))"
  obtains b' w' where "allow (b, w) = (None, (b', w'))" "Q w'"
proof -
  obtain b' w' where r: "rollWindowLocked (b, w) = (b', w')" by (rule prod.exhaust)
  then have "Q w'" using assms(2,3) by (auto simp: rollWindowLocked_def Let_def split_beta split: if_splits)
  moreover have "allow (b, w) = (None, (b', w'))" using assms(1) r by (simp add: allow_def maybeHalfOpenLocked_def)
  ultimately show ?thesis by (rule that [rotated])
qed

lemma guarded_up:
  assumes "state b = StateClosed" "Q w" "\<And>w. Q w \<Longrightarrow> Q (snd (br_Now b w))" "\<And>w. Q w \<Longrightarrow> \<exists>r. R r \<and> fst (f k w) = Inr r"
  obtains r s where "R r" "guarded ctx f k ((b, w), res) = (None, (s, Some r))"
proof -
  obtain b1 w1 where a: "allow (b, w) = (None, (b1, w1))" "Q w1" by (rule admitted_closed [OF assms(1-3)])
  obtain r w2 where "R r" and f: "f k w1 = (Inr r, w2)" using assms(4) [OF a(2)] by (metis prod.collapse)
  then show ?thesis by (intro that [of r]) (simp_all add: guarded_def a Breaker_Do_def on_world_def)
qed

lemma Upstream_do_up:
  assumes "state b0 = StateClosed" "\<And>w. ctx_Err ctx w = None"
    and "Q w" "\<And>w. Q w \<Longrightarrow> Q (snd (br_Now b0 w))" "\<And>w. Q w \<Longrightarrow> Q (snd (env_now (net_env net) w))"
    and "\<And>w. Q w \<Longrightarrow> \<exists>r. R r \<and> fst (attempt (net_bad_url net) u rid m p b hs 1 w) = Inr r"
  obtains r where "R r" "fst (Upstream_do net u ctx rid m p b hs (b0, w)) = Inr (Some r)"
proof -
  let ?f = "attempt (net_bad_url net) u rid m p b hs"
  obtain start w1 where n: "env_now (net_env net) w = (start, w1)" by (rule prod.exhaust)
  then have "Q w1" using assms(5) [OF assms(3)] by simp
  obtain r s1 where r: "R r" and g: "guarded ctx ?f 1 ((b0, w1), None) = (None, (s1, Some r))"
    by (rule guarded_up [where Q = Q and R = R and f = ?f and k = 1 and ctx = ctx and res = None, OF assms(1) \<open>Q w1\<close> assms(4,6)]) blast
  have "1 \<le> MaxAttempts (do_config net u ctx)" by (auto simp: RetryConfig_withDefaults_def Let_def)
  moreover have "ctx_Err (lift_ctx ctx) ((b0, w1), None) = None" by (simp add: lift_ctx_def assms(2))
  ultimately have "do_retry net u ctx ?f ((b0, w1), None) = (None, (s1, Some r))"
    unfolding do_retry_def Retry_def by (subst Retry_loop.simps) (simp add: Retry_round_def g)
  then show ?thesis by (intro that [OF r]) (cases s1, simp add: Upstream_do_def n Let_def split_beta)
qed

lemma Upstream_do_steady:
  assumes "state b0 = StateClosed" "\<And>w. ctx_Err ctx w = None"
    and "\<And>w. fst (attempt (net_bad_url net) u rid m p b hs 1 w) = Inr r"
  shows "fst (Upstream_do net u ctx rid m p b hs (b0, w)) = Inr (Some r)"
  by (rule Upstream_do_up [OF assms(1,2), where Q = "\<lambda>_. True" and R = "(=) r"]) (use assms(3) in auto)

lemma wit_200_up: "fst (attempt (\<lambda>_ _. None) (fst (wit_upstream 200)) rid m p b hs k w) = Inr \<lparr>rsp_Status = 200, rsp_Body = ''{}''\<rparr>"
  by (simp add: wit_upstream_def NewUpstream_def attempt_def ReadLimited_def Let_def split_beta)

lemma wit_upstream_new: "breaker_inv (fst (snd (wit_upstream st)))" "state (fst (snd (wit_upstream st))) = StateClosed"
  using NewBreaker_inv by (auto simp: wit_upstream_def NewUpstream_def NewBreaker_def Let_def split_beta)

end
