(* ===== verification/RateLimit.thy ===== *)
theory RateLimit
  imports Float64
begin

text \<open>
  The per-client token bucket of \<open>internal/gateway/ratelimit.go\<close>. The limiter's \<open>now\<close> is a
  function of a world \<open>'w\<close>, as in the breaker, and may return any instants: \<open>Allow\<close> and \<open>evict\<close>
  read the clock before they take the mutex, so the instants that successive critical sections
  use need not increase. The map of buckets is a partial function. Rates and balances are the rationals
  that float64 values denote; \<open>Limiter\<close> adds infinities and NaN.
\<close>

section \<open>Buckets and limiter\<close>

record bucket =
  tokens :: rat
  bk_last :: time
  seen :: time

record 'w RateLimiterConfig =
  RequestsPerSecond :: rat
  Burst :: int
  IdleTTL :: duration
  rlc_Now :: "('w \<Rightarrow> time \<times> 'w) option"

record 'w RateLimiter =
  rate :: rat
  burst :: rat
  ttl :: duration
  rl_now :: "'w \<Rightarrow> time \<times> 'w"
  stopped :: bool
  buckets :: "string \<rightharpoonup> bucket"

type_synonym 'w rlstate = "'w RateLimiter \<times> 'w"

definition NewRateLimiter :: "('w \<Rightarrow> time \<times> 'w) \<Rightarrow> 'w RateLimiterConfig \<Rightarrow> 'w RateLimiter" where
  "NewRateLimiter time_Now c =
     (let c = (if RequestsPerSecond c \<le> 0 then c\<lparr>RequestsPerSecond := 50\<rparr> else c);
          c = (if Burst c \<le> 0 then c\<lparr>Burst := int64_of (RequestsPerSecond c)\<rparr> else c);
          c = (if IdleTTL c \<le> 0 then c\<lparr>IdleTTL := 10 * Minute\<rparr> else c);
          c = (if rlc_Now c = None then c\<lparr>rlc_Now := Some time_Now\<rparr> else c)
      in \<lparr>rate = RequestsPerSecond c, burst = float64_of_int (Burst c), ttl = IdleTTL c,
          rl_now = the (rlc_Now c), stopped = False, buckets = Map.empty\<rparr>)"

section \<open>Operations\<close>

definition RateLimiter_Close :: "'w RateLimiter \<Rightarrow> 'w RateLimiter" where
  "RateLimiter_Close rl = (if stopped rl then rl else rl\<lparr>stopped := True\<rparr>)"

definition evict :: "'w rlstate \<Rightarrow> 'w rlstate" where
  "evict = (\<lambda>(rl, w).
     let (t, w) = rl_now rl w; cutoff = t + - ttl rl
     in (rl\<lparr>buckets := (\<lambda>k. case buckets rl k of
            None \<Rightarrow> None
          | Some b \<Rightarrow> if seen b < cutoff then None else Some b)\<rparr>, w))"

text \<open>
  The eviction goroutine selects between the stop channel and its ticker; the list is what the
  successive selections find ready, and the goroutine returns at the first stop.
\<close>

datatype selected = Stop | Tick

fun evictLoop :: "selected list \<Rightarrow> 'w rlstate \<Rightarrow> 'w rlstate" where
  "evictLoop [] s = s"
| "evictLoop (Stop # es) s = s"
| "evictLoop (Tick # es) s = evictLoop es (evict s)"

definition refill :: "rat \<Rightarrow> rat \<Rightarrow> time \<Rightarrow> bucket \<Rightarrow> bucket" where
  "refill rt bst t b =
     (let elapsed = Seconds (time_Sub t (bk_last b))
      in if 0 < elapsed
         then let tk = rnd64 (tokens b + rnd64 (elapsed * rt));
                  tk = (if bst < tk then bst else tk)
              in b\<lparr>tokens := tk, bk_last := t\<rparr>
         else b)"

text \<open>The critical section of \<open>Allow\<close> on the caller's bucket, and \<open>Allow\<close>.\<close>

definition take_token :: "rat \<Rightarrow> rat \<Rightarrow> time \<Rightarrow> bucket \<Rightarrow> (bool \<times> duration) \<times> bucket" where
  "take_token rt bst t b =
     (let b = (refill rt bst t b)\<lparr>seen := t\<rparr>
      in if 1 \<le> tokens b then ((True, 0), b\<lparr>tokens := rnd64 (tokens b - 1)\<rparr>)
         else let deficit = rnd64 (1 - tokens b)
              in ((False, int64_of (rnd64 (rnd64 (deficit / rt) * 1000000000))), b))"

definition fresh_bucket :: "rat \<Rightarrow> time \<Rightarrow> bucket" where
  "fresh_bucket bst t = \<lparr>tokens = bst, bk_last = t, seen = zeroTime\<rparr>"

definition Allow :: "string \<Rightarrow> 'w rlstate \<Rightarrow> (bool \<times> duration) \<times> 'w rlstate" where
  "Allow key = (\<lambda>(rl, w).
     let (t, w) = rl_now rl w;
         b = (case buckets rl key of None \<Rightarrow> fresh_bucket (burst rl) t | Some b \<Rightarrow> b);
         (res, b) = take_token (rate rl) (burst rl) t b
     in (res, (rl\<lparr>buckets := (buckets rl)(key \<mapsto> b)\<rparr>, w)))"

definition Buckets :: "'w RateLimiter \<Rightarrow> nat" where
  "Buckets rl = card (dom (buckets rl))"

text \<open>The value of the \<open>Retry-After\<close> header that the middleware derives from a refusal.\<close>

definition retryAfterSeconds :: "duration \<Rightarrow> int" where
  "retryAfterSeconds retryAfter =
     (let seconds = trunc64 (Seconds retryAfter) in if seconds < 1 then 1 else seconds)"

section \<open>The invariant\<close>

definition bucket_ok :: "rat \<Rightarrow> bucket \<Rightarrow> bool" where
  "bucket_ok bst b \<longleftrightarrow> 0 \<le> tokens b \<and> tokens b \<le> bst \<and> representable (tokens b)"

definition limiter_ok :: "'w RateLimiter \<Rightarrow> bool" where
  "limiter_ok rl \<longleftrightarrow>
     0 < rate rl \<and> 0 \<le> burst rl \<and> representable (burst rl) \<and> 0 < ttl rl \<and>
     finite (dom (buckets rl)) \<and> (\<forall>k b. buckets rl k = Some b \<longrightarrow> bucket_ok (burst rl) b)"

text \<open>
  A burst that is derived from the rate has to fit an integer; otherwise the conversion makes it
  negative, and the limiter refuses everything.
\<close>

definition burst_fits :: "'w RateLimiterConfig \<Rightarrow> bool" where
  "burst_fits c \<longleftrightarrow> 0 < Burst c \<or> RequestsPerSecond c < 2 ^ 63"

lemma NewRateLimiter_ok: "burst_fits c \<Longrightarrow> limiter_ok (NewRateLimiter tn c)"
  by (auto simp: NewRateLimiter_def limiter_ok_def burst_fits_def Let_def int64_of_small float64_of_int_nonneg trunc64_nonneg)

lemma Seconds_time_Sub_pos: "0 < Seconds (time_Sub t u) \<Longrightarrow> u < t"
  using Seconds_nonpos [of "time_Sub t u"] time_Sub_pos [of t u] by linarith

lemma refill_ok:
  assumes "bucket_ok bst b" "0 < rt" "representable bst"
  shows "bucket_ok bst (refill rt bst t b)"
  using assms by (auto simp: refill_def bucket_ok_def Let_def intro!: rnd64_nonneg)

text \<open>Taking a token is exact: below \<open>2 ^ 53\<close> the last place of a bucket is at most one.\<close>

lemma representable_pred:
  assumes "representable x" "1 \<le> x" "x \<le> 2 ^ 53" shows "representable (x - 1)"
proof -
  from assms(1) obtain m e where x: "x = of_int m * 2 powi e" "\<bar>m\<bar> \<le> 2 ^ 53" "-1074 \<le> e"
    by (auto simp: representable_def)
  show ?thesis
  proof (cases "e \<le> 0")
    case True
    then have "(2::rat) ^ nat (- e) = 2 powi (- e)" by (simp add: power_int_def)
    then have p: "2 ^ nat (- e) * (2::rat) powi e = 1"
      using power_int_add [of "2::rat" "- e" e] by simp
    define k where "k = m - 2 ^ nat (- e)"
    have k: "x - 1 = of_int k * 2 powi e" using p by (simp add: k_def x(1) left_diff_distrib)
    then have "0 \<le> of_int k * (2::rat) powi e" using assms(2) by simp
    moreover have "(0::rat) < 2 powi e" by simp
    ultimately have "0 \<le> k" by (simp add: zero_le_mult_iff del: zero_less_power_int)
    moreover have "k \<le> m" by (simp add: k_def)
    ultimately show ?thesis using k x(2,3) by (intro representableI [of _ k e]) auto
  next
    case False
    then have i: "x = of_int (m * 2 ^ nat e)" by (simp add: x(1) power_int_def)
    define k where "k = m * 2 ^ nat e"
    have "(of_int 1 :: rat) \<le> of_int k" "(of_int k :: rat) \<le> of_int (2 ^ 53)" using assms(2,3) i by (simp_all add: k_def)
    then have "\<bar>k - 1\<bar> \<le> 2 ^ 53" by (simp only: of_int_le_iff)
    then have "representable (of_int (k - 1))" by (rule representable_of_int)
    then show ?thesis by (simp add: i k_def)
  qed
qed

lemma take_token_ok:
  assumes "bucket_ok bst b" "0 < rt" "representable bst"
  shows "bucket_ok bst (snd (take_token rt bst t b))"
proof -
  have ok: "bucket_ok bst (refill rt bst t b)" using assms by (rule refill_ok)
  then have "rnd64 (tokens (refill rt bst t b) - 1) \<le> bst"
    using assms(3) by (intro fl.rnd_le) (simp_all add: bucket_ok_def)
  with ok show ?thesis by (auto simp: take_token_def bucket_ok_def Let_def)
qed

lemma Allow_eq:
  "Allow key (rl, w) =
     (let t = fst (rl_now rl w);
          b = (case buckets rl key of None \<Rightarrow> fresh_bucket (burst rl) t | Some b \<Rightarrow> b)
      in (fst (take_token (rate rl) (burst rl) t b),
          (rl\<lparr>buckets := (buckets rl)(key \<mapsto> snd (take_token (rate rl) (burst rl) t b))\<rparr>, snd (rl_now rl w))))"
  by (cases "buckets rl key") (simp_all add: Allow_def Let_def split_beta)

lemma fresh_bucket_ok: "0 \<le> bst \<Longrightarrow> representable bst \<Longrightarrow> bucket_ok bst (fresh_bucket bst t)"
  by (simp add: bucket_ok_def fresh_bucket_def)

lemma Allow_ok:
  assumes "limiter_ok (fst s)" shows "limiter_ok (fst (snd (Allow key s)))"
proof (cases s)
  case (Pair rl w)
  let ?b = "case buckets rl key of None \<Rightarrow> fresh_bucket (burst rl) (fst (rl_now rl w)) | Some b \<Rightarrow> b"
  have "bucket_ok (burst rl) ?b"
    using assms fresh_bucket_ok by (auto simp: Pair limiter_ok_def split: option.split)
  then have "bucket_ok (burst rl) (snd (take_token (rate rl) (burst rl) (fst (rl_now rl w)) ?b))"
    using assms by (intro take_token_ok) (simp_all add: Pair limiter_ok_def)
  with assms show ?thesis by (auto simp: Pair Allow_eq Let_def limiter_ok_def)
qed

lemma evict_ok: "limiter_ok (fst s) \<Longrightarrow> limiter_ok (fst (evict s))"
proof -
  assume ok: "limiter_ok (fst s)"
  have "dom (buckets (fst (evict s))) \<subseteq> dom (buckets (fst s))"
    by (auto simp: evict_def Let_def split_beta split: option.splits if_splits)
  with ok show ?thesis
    by (auto simp: limiter_ok_def evict_def Let_def split_beta split: option.splits if_splits
        intro: finite_subset)
qed

section \<open>Runs\<close>

datatype limiter_event = AllowCall string | EvictRun "selected list" | CloseCall

fun limiter_step :: "'w rlstate \<Rightarrow> limiter_event \<Rightarrow> 'w rlstate" where
  "limiter_step s (AllowCall key) = snd (Allow key s)"
| "limiter_step s (EvictRun es) = evictLoop es s"
| "limiter_step s CloseCall = (RateLimiter_Close (fst s), snd s)"

lemma evictLoop_ok: "limiter_ok (fst s) \<Longrightarrow> limiter_ok (fst (evictLoop es s))"
  by (induction es s rule: evictLoop.induct) (auto intro: evict_ok)

interpretation rl: stepping limiter_step "\<lambda>s. limiter_ok (fst s)"
proof
  show "limiter_ok (fst (limiter_step s e))" if "limiter_ok (fst s)" for s :: "'a rlstate" and e
  proof (cases e)
    case CloseCall
    with that show ?thesis by (simp add: RateLimiter_Close_def limiter_ok_def)
  qed (use that in \<open>simp_all add: Allow_ok evictLoop_ok\<close>)
qed

section \<open>How many requests a client gets through\<close>

text \<open>
  The error that the floating-point operations of one call can add to a bucket. It is tiny: for a
  rate of 100 and a burst of 200 it is less than \<open>2 ^ -42\<close> tokens.
\<close>

definition slack :: "rat \<Rightarrow> rat \<Rightarrow> rat" where
  "slack rt bst = (4 * bst + 8 * rt + 8) / 2 ^ 53"


lemma rnd64_upper: "0 \<le> x \<Longrightarrow> rnd64 x \<le> x + (x + 1) / 2 ^ 53"
  using rnd64_error [of x] by linarith

lemma refill_gain:
  assumes "bucket_ok bst b" "0 < rt" "bst \<le> 2 ^ 53"
  shows "tokens (refill rt bst t b)
    \<le> tokens b + rt * (of_int (bk_last (refill rt bst t b) - bk_last b) / 1000000000) + slack rt bst"
proof (cases "0 < Seconds (time_Sub t (bk_last b))")
  case False
  have "0 \<le> tokens b" "tokens b \<le> bst" using assms(1) by (simp_all add: bucket_ok_def)
  then have "0 \<le> slack rt bst" using assms(2) by (simp add: slack_def)
  with False show ?thesis by (simp add: refill_def Let_def)
next
  case True
  define d where "d = time_Sub t (bk_last b)"
  define D where "D = (of_int d / 1000000000 :: rat)"
  define X where "X = rt * (of_int (t - bk_last b) / 1000000000 :: rat)"
  have later: "bk_last b < t" using True by (rule Seconds_time_Sub_pos)
  then have d: "0 \<le> d" "d \<le> maxDuration" "d \<le> t - bk_last b"
    by (simp_all add: d_def time_Sub_le time_Sub_def maxDuration_def minDuration_def)
  have tk: "0 \<le> tokens b" "tokens b \<le> bst" using assms(1) by (simp_all add: bucket_ok_def)
  have DX: "rt * D \<le> X"
    using d(3) assms(2) unfolding D_def X_def
    by (intro mult_left_mono divide_right_mono iffD2 [OF of_int_le_iff]) simp_all
  have D0: "0 \<le> D" using d(1) by (simp add: D_def)
  have sl0: "0 \<le> slack rt bst" using tk assms(2) by (simp add: slack_def)
  let ?y = "rnd64 (Seconds d * rt)"
  have r: "tokens (refill rt bst t b) = min bst (rnd64 (tokens b + ?y))"
    "bk_last (refill rt bst t b) = t"
    using True by (simp_all add: refill_def Let_def d_def min_def)
  have "min bst (rnd64 (tokens b + ?y)) \<le> tokens b + X + slack rt bst"
  proof (cases "bst \<le> rt * D")
    case True
    with DX tk sl0 show ?thesis by linarith
  next
    case False
    define P where "P = (1 / 2 ^ 53 :: rat)"
    have P: "0 \<le> P" "P * bst \<le> 1" "P \<le> 1" using assms(3) by (simp_all add: P_def)
    have "Seconds d \<le> D + (D + 4) * P" using Seconds_error [OF d(1,2)] by (simp add: D_def P_def)
    then have "Seconds d * rt \<le> (D + (D + 4) * P) * rt" using assms(2) by (intro mult_right_mono) auto
    also have "\<dots> = rt * D + (rt * D + 4 * rt) * P" by (simp add: algebra_simps)
    finally have "Seconds d * rt \<le> rt * D + (rt * D + 4 * rt) * P" .
    moreover have "(rt * D + 4 * rt) * P \<le> (bst + 4 * rt) * P"
      using False P(1) by (intro mult_right_mono) auto
    ultimately have S: "Seconds d * rt \<le> rt * D + (bst + 4 * rt) * P" by linarith
    have "(bst + 4 * rt) * P \<le> 1 + 4 * rt * P" using P(2) by (simp add: algebra_simps)
    moreover have rP: "rt * P \<le> rt * (1/8)" using assms(2) by (intro mult_left_mono) (auto simp: P_def)
    ultimately have e1: "(bst + 4 * rt) * P \<le> 1 + rt / 2" by linarith
    have S0: "0 \<le> Seconds d * rt" using Seconds_nonneg [OF d(1,2)] assms(2) by simp
    then have "?y \<le> Seconds d * rt + (Seconds d * rt + 1) * P"
      using rnd64_upper [OF S0] by (simp add: P_def)
    moreover have "(Seconds d * rt + 1) * P \<le> (bst + rt / 2 + 2) * P"
      using S e1 False P(1) by (intro mult_right_mono) linarith+
    ultimately have y: "?y \<le> rt * D + (2 * bst + 9/2 * rt + 2) * P"
      using S by (simp add: algebra_simps)
    have "(2 * bst + 9/2 * rt + 2) * P = 2 * (P * bst) + 9/2 * (rt * P) + 2 * P"
      by (simp add: algebra_simps)
    then have "(2 * bst + 9/2 * rt + 2) * P \<le> 4 + rt" using P rP assms(2) by linarith
    then have y': "?y \<le> bst + 4 + rt" using y False by linarith
    have y0: "0 \<le> tokens b + ?y" using S0 tk by simp
    have "rnd64 (tokens b + ?y) \<le> tokens b + ?y + (tokens b + ?y + 1) * P"
      using rnd64_upper [OF y0] by (simp add: P_def)
    moreover have "(tokens b + ?y + 1) * P \<le> (2 * bst + rt + 5) * P"
      using y' tk P(1) by (intro mult_right_mono) linarith+
    ultimately have "rnd64 (tokens b + ?y) \<le> tokens b + rt * D + (4 * bst + 11/2 * rt + 7) * P"
      using y by (simp add: algebra_simps)
    moreover have "(4 * bst + 11/2 * rt + 7) * P \<le> (4 * bst + 8 * rt + 8) * P"
      using assms(2) P(1) by (intro mult_right_mono) linarith+
    moreover have "(4 * bst + 8 * rt + 8) * P = slack rt bst" by (simp add: slack_def P_def)
    ultimately have "rnd64 (tokens b + ?y) \<le> tokens b + rt * D + slack rt bst" by linarith
    with DX show ?thesis by linarith
  qed
  with r show ?thesis by (simp add: X_def)
qed


text \<open>One call moves the bucket's balance: what it hands out is covered by what was there and what
  the elapsed time added.\<close>

lemma take_token_exact:
  assumes "bucket_ok bst b" "0 < rt" "representable bst" "bst \<le> 2 ^ 53" "take_token rt bst t b = ((ok, d), b')"
  shows "(if ok then 1 else 0) + tokens b' = tokens (refill rt bst t b)" "bk_last b' = bk_last (refill rt bst t b)" "seen b' = t"
proof -
  let ?r = "refill rt bst t b"
  have "bucket_ok bst ?r" using assms(1,2,3) by (rule refill_ok)
  then have "rnd64 (tokens ?r - 1) = tokens ?r - 1" if "1 \<le> tokens ?r"
    using assms(4) that by (intro rnd64_representable representable_pred) (auto simp: bucket_ok_def)
  then show "(if ok then 1 else 0) + tokens b' = tokens ?r" "bk_last b' = bk_last ?r" "seen b' = t"
    using assms(5) by (auto simp: take_token_def Let_def split: if_splits)
qed

text \<open>The tokens that a time adds.\<close>

definition accrued :: "rat \<Rightarrow> duration \<Rightarrow> rat" where
  "accrued rt d = rt * (of_int d / 1000000000)"

lemma accrued_add: "accrued rt (d + e) = accrued rt d + accrued rt e"
  by (simp add: accrued_def field_simps)

lemma accrued_mono: "0 < rt \<Longrightarrow> d \<le> e \<Longrightarrow> accrued rt d \<le> accrued rt e"
  unfolding accrued_def by (intro mult_left_mono divide_right_mono) simp_all

lemma accrued_0 [simp]: "accrued rt 0 = 0"
  by (simp add: accrued_def)

lemma take_token_balance:
  assumes "bucket_ok bst b" "0 < rt" "representable bst" "bst \<le> 2 ^ 53" "take_token rt bst t b = ((ok, d), b')"
  shows "(if ok then 1 else 0) + tokens b' \<le> tokens b + accrued rt (bk_last b' - bk_last b) + slack rt bst"
  using refill_gain [OF assms(1,2,4), of t] by (simp add: take_token_exact [OF assms] accrued_def)

text \<open>A bucket that is asked after its last refill is refilled, however little time has passed.\<close>

lemma Seconds_pos: "0 < d \<Longrightarrow> d \<le> maxDuration \<Longrightarrow> 0 < Seconds d"
proof -
  assume d: "0 < d" "d \<le> maxDuration"
  have "0 < Seconds 1" by code_simp
  also have "\<dots> \<le> Seconds d" using d by (intro Seconds_mono) simp_all
  finally show ?thesis .
qed

lemma refill_last: "bk_last (refill rt bst t b) = max t (bk_last b)"
proof -
  have "0 < Seconds (time_Sub t (bk_last b)) \<longleftrightarrow> bk_last b < t"
    using Seconds_time_Sub_pos [of t "bk_last b"] Seconds_pos [of "time_Sub t (bk_last b)"] time_Sub_pos [of t "bk_last b"]
    by (auto simp: time_Sub_def maxDuration_def minDuration_def)
  then show ?thesis by (auto simp: refill_def Let_def)
qed

subsection \<open>The clock\<close>

text \<open>
  \<open>Allow\<close> and \<open>evict\<close> read the clock before they take the mutex, so a critical section may work with
  an instant that is past. \<open>T\<close> is the time at which a critical section begins; readings are at most
  \<open>lag\<close> old. With no lag the readings are those of a clock that never goes back.
\<close>

definition lagging :: "('w \<Rightarrow> time \<times> 'w) \<Rightarrow> ('w \<Rightarrow> time) \<Rightarrow> duration \<Rightarrow> bool" where
  "lagging now T lag \<longleftrightarrow>
     (\<forall>w. T w - lag \<le> fst (now w) \<and> fst (now w) \<le> T w \<and> T w \<le> T (snd (now w)))"

lemma laggingD:
  assumes "lagging now T lag"
  shows "T w - lag \<le> fst (now w)" "fst (now w) \<le> T w" "T w \<le> T (snd (now w))"
  using assms by (auto simp: lagging_def)

text \<open>The buckets are of the past, and a bucket's last refill is at most the lag after its last use.\<close>

definition past_ok :: "('w \<Rightarrow> time) \<Rightarrow> duration \<Rightarrow> 'w rlstate \<Rightarrow> bool" where
  "past_ok T lag = (\<lambda>(rl, w). lagging (rl_now rl) T lag \<and>
     (\<forall>k b. buckets rl k = Some b \<longrightarrow> bk_last b \<le> T w \<and> bk_last b \<le> seen b + lag))"

lemma take_token_times:
  "bk_last (snd (take_token rt bst t b)) = max t (bk_last b)" "seen (snd (take_token rt bst t b)) = t"
  by (simp_all add: take_token_def refill_last Let_def)

lemma past_ok_Allow:
  assumes "past_ok T lag s" shows "past_ok T lag (snd (Allow key s))"
proof (cases s)
  case (Pair rl w)
  have c: "lagging (rl_now rl) T lag" using assms by (simp add: past_ok_def Pair)
  note t = laggingD [OF c, of w]
  have "bk_last b \<le> T (snd (rl_now rl w)) \<and> bk_last b \<le> seen b + lag" if "buckets rl k = Some b" for k b
    using assms that t(3) by (force simp: past_ok_def Pair)
  moreover have "bk_last b \<le> T w" if "buckets rl key = Some b" for b using assms that by (auto simp: past_ok_def Pair)
  ultimately show ?thesis using c t
    by (auto simp: past_ok_def Pair Allow_eq Let_def take_token_times fresh_bucket_def max_def split: option.splits)
qed

lemma past_ok_evict:
  assumes "past_ok T lag s" shows "past_ok T lag (evict s)"
proof (cases s)
  case (Pair rl w)
  have "lagging (rl_now rl) T lag" using assms by (simp add: past_ok_def Pair)
  from laggingD(3) [OF this, of w] assms show ?thesis
    by (force simp: past_ok_def Pair evict_def Let_def split_beta split: option.splits if_splits)
qed

lemma past_ok_evictLoop: "past_ok T lag s \<Longrightarrow> past_ok T lag (evictLoop es s)"
  by (induction es s rule: evictLoop.induct) (auto intro: past_ok_evict)

interpretation rlt: stepping limiter_step "past_ok T lag" for T lag
proof
  show "past_ok T lag (limiter_step s e)" if "past_ok T lag s" for s :: "'a rlstate" and e
  proof (cases e)
    case CloseCall
    with that show ?thesis by (auto simp: past_ok_def RateLimiter_Close_def)
  qed (use that in \<open>simp_all add: past_ok_Allow past_ok_evictLoop\<close>)
qed

subsection \<open>What a client has spent\<close>

text \<open>The number of requests of a client that a run of the limiter lets through.\<close>

fun admitted :: "string \<Rightarrow> 'w rlstate \<Rightarrow> limiter_event list \<Rightarrow> nat" where
  "admitted key s [] = 0"
| "admitted key s (e # es) =
     (if e = AllowCall key \<and> fst (fst (Allow key s)) then 1 else 0) + admitted key (limiter_step s e) es"

lemma Allow_other: "k \<noteq> key \<Longrightarrow> buckets (fst (snd (Allow k s))) key = buckets (fst s) key"
  by (cases s) (simp add: Allow_eq Let_def)

text \<open>
  The account of a client since the time \<open>t0\<close>, of \<open>N\<close> requests and an error of \<open>X\<close>. Without a bucket, what was
  spent is covered by the time alone, so a new bucket may be full. A bucket from before the time has
  not been used. Any other bucket holds what the burst and the time up to its last refill leave.
\<close>

definition account :: "('w \<Rightarrow> time) \<Rightarrow> duration \<Rightarrow> time \<Rightarrow> string \<Rightarrow> rat \<Rightarrow> rat \<Rightarrow> 'w rlstate \<Rightarrow> bool" where
  "account T lag t0 key N X = (\<lambda>(rl, w). t0 \<le> T w \<and> 0 \<le> X \<and>
     (case buckets rl key of
        None \<Rightarrow> N \<le> accrued (rate rl) (T w - t0) + X
      | Some b \<Rightarrow> if bk_last b < t0 - lag then N = 0
          else N + tokens b \<le> burst rl + accrued (rate rl) (bk_last b - (t0 - lag)) + X))"

text \<open>A limiter whose idle time is enough to fill a bucket.\<close>

definition fills :: "duration \<Rightarrow> 'w RateLimiter \<Rightarrow> bool" where
  "fills lag rl \<longleftrightarrow> burst rl \<le> 2 ^ 53 \<and> burst rl \<le> accrued (rate rl) (ttl rl - 2 * lag)"

lemma account_start: "account T lag (T w) key 0 0 (rl, w)" if "limiter_ok rl"
proof -
  have "0 \<le> accrued (rate rl) d" if "0 \<le> d" for d
    using accrued_mono [of "rate rl" 0 d] \<open>limiter_ok rl\<close> that by (simp add: limiter_ok_def)
  with that show ?thesis
    by (fastforce simp: account_def limiter_ok_def bucket_ok_def intro: add_increasing2 split: option.split)
qed

lemma account_bound:
  assumes "account T lag t0 key N X (rl, w)" "limiter_ok rl" "past_ok T lag (rl, w)"
  shows "N \<le> burst rl + accrued (rate rl) (T w - t0 + lag) + X"
proof -
  have r: "0 < rate rl" "0 \<le> burst rl" using assms(2) by (simp_all add: limiter_ok_def)
  have "0 \<le> lag" using laggingD(1,2) [of "rl_now rl" T lag w] assms(3) by (simp add: past_ok_def)
  moreover have "t0 \<le> T w" "0 \<le> X" using assms(1) by (simp_all add: account_def)
  ultimately have m: "accrued (rate rl) (T w - t0) \<le> accrued (rate rl) (T w - t0 + lag)"
      "0 \<le> accrued (rate rl) (T w - t0 + lag)"
    using accrued_mono [OF r(1), of 0 "T w - t0 + lag"] by (auto intro: accrued_mono [OF r(1)])
  show ?thesis
  proof (cases "buckets rl key")
    case None
    with assms(1) r m show ?thesis by (auto simp: account_def)
  next
    case (Some b)
    then have b: "0 \<le> tokens b" "bk_last b \<le> T w"
      using assms(2,3) by (auto simp: limiter_ok_def bucket_ok_def past_ok_def)
    then have "accrued (rate rl) (bk_last b - (t0 - lag)) \<le> accrued (rate rl) (T w - t0 + lag)"
      by (intro accrued_mono [OF r(1)]) simp
    with assms(1) Some b r m \<open>0 \<le> X\<close> show ?thesis by (auto simp: account_def split: if_splits)
  qed
qed

lemma account_later:
  assumes "account T lag t0 key N X (rl, w)" "T w \<le> T w'" "0 < rate rl"
    and "buckets rl' key = buckets rl key" "rate rl' = rate rl" "burst rl' = burst rl"
  shows "account T lag t0 key N X (rl', w')"
  using assms(1,2,4-6) accrued_mono [OF assms(3), of "T w - t0" "T w' - t0"]
  by (auto simp: account_def split: option.splits if_splits)

lemma account_evict:
  assumes "account T lag t0 key N X s" "limiter_ok (fst s)" "past_ok T lag s" "fills lag (fst s)"
  shows "account T lag t0 key N X (evict s)"
proof (cases s)
  case (Pair rl w)
  have r: "0 < rate rl" using assms(2) by (simp add: Pair limiter_ok_def)
  have c: "lagging (rl_now rl) T lag" using assms(3) by (simp add: past_ok_def Pair)
  note t = laggingD [OF c, of w]
  have keep: "account T lag t0 key N X (evict s)" if "buckets (fst (evict s)) key = buckets rl key"
    using that t(3) r assms(1) by (auto simp: Pair evict_def Let_def split_beta elim!: account_later)
  show ?thesis
  proof (cases "buckets rl key")
    case None
    then show ?thesis by (intro keep) (simp add: Pair evict_def Let_def split_beta)
  next
    case (Some b)
    show ?thesis
    proof (cases "seen b < fst (rl_now rl w) - ttl rl")
      case False
      with Some show ?thesis by (intro keep) (simp add: Pair evict_def Let_def split_beta)
    next
      case True
      have b: "bk_last b \<le> seen b + lag" "0 \<le> tokens b"
        using assms(2,3) Some by (auto simp: Pair past_ok_def limiter_ok_def bucket_ok_def)
      have t0: "t0 \<le> T w" "0 \<le> X" using assms(1) by (simp_all add: account_def Pair)
      have "bk_last b - (t0 - lag) + (ttl rl - 2 * lag) \<le> T w - t0" using b(1) True t(2) by linarith
      then have "accrued (rate rl) (bk_last b - (t0 - lag)) + accrued (rate rl) (ttl rl - 2 * lag) \<le> accrued (rate rl) (T w - t0)"
        unfolding accrued_add [symmetric] by (rule accrued_mono [OF r])
      moreover have "burst rl \<le> accrued (rate rl) (ttl rl - 2 * lag)" using assms(4) by (simp add: fills_def Pair)
      moreover have "0 \<le> accrued (rate rl) (T w - t0)" using accrued_mono [OF r, of 0 "T w - t0"] t0 by simp
      ultimately have "N \<le> accrued (rate rl) (T w - t0) + X"
        using assms(1) Some b t0 by (auto simp: account_def Pair split: if_splits)
      moreover have "accrued (rate rl) (T w - t0) \<le> accrued (rate rl) (T (snd (rl_now rl w)) - t0)"
        using t(3) by (intro accrued_mono [OF r]) simp
      ultimately show ?thesis using Some True t0 t(3)
        by (simp add: account_def Pair evict_def Let_def split_beta)
    qed
  qed
qed

lemma account_Allow:
  assumes "account T lag t0 key N X s" "limiter_ok (fst s)" "past_ok T lag s" "burst (fst s) \<le> 2 ^ 53"
  shows "account T lag t0 key (N + (if fst (fst (Allow key s)) then 1 else 0))
    (X + slack (rate (fst s)) (burst (fst s))) (snd (Allow key s))"
proof (cases s)
  case (Pair rl w)
  let ?t = "fst (rl_now rl w)"
  let ?b = "case buckets rl key of None \<Rightarrow> fresh_bucket (burst rl) ?t | Some b \<Rightarrow> b"
  obtain ok d b' where tt: "take_token (rate rl) (burst rl) ?t ?b = ((ok, d), b')" by (metis prod.collapse)
  have r: "0 < rate rl" "0 \<le> burst rl" "representable (burst rl)" using assms(2) by (simp_all add: Pair limiter_ok_def)
  have ok: "bucket_ok (burst rl) ?b"
    using assms(2) r by (auto simp: Pair limiter_ok_def intro: fresh_bucket_ok split: option.split)
  note ex = take_token_exact [OF ok r(1,3) _ tt] and bal = take_token_balance [OF ok r(1,3) _ tt]
  have c: "lagging (rl_now rl) T lag" using assms(3) by (simp add: past_ok_def Pair)
  note t = laggingD [OF c, of w]
  have t0: "t0 \<le> T w" "0 \<le> X" "0 \<le> slack (rate rl) (burst rl)"
    using assms(1) r by (simp_all add: account_def Pair slack_def)
  have last: "bk_last b' = max ?t (bk_last ?b)" using ex(2) assms(4) by (simp add: refill_last Pair)
  have cap: "(if ok then 1 else 0) + tokens b' \<le> burst rl"
    using ex(1) refill_ok [OF ok r(1,3), of ?t] assms(4) by (simp add: bucket_ok_def Pair)
  have "N + (if ok then 1 else 0) + tokens b'
      \<le> burst rl + accrued (rate rl) (bk_last b' - (t0 - lag)) + (X + slack (rate rl) (burst rl))"
  proof (cases "buckets rl key")
    case None
    then have "N \<le> accrued (rate rl) (T w - t0) + X" using assms(1) by (simp add: account_def Pair)
    also have "\<dots> \<le> accrued (rate rl) (bk_last b' - (t0 - lag)) + X"
      using t(1) last by (intro add_right_mono accrued_mono [OF r(1)]) linarith
    finally show ?thesis using cap t0 by linarith
  next
    case (Some b)
    show ?thesis
    proof (cases "bk_last b < t0 - lag")
      case True
      have "0 \<le> accrued (rate rl) (bk_last b' - (t0 - lag))"
        using accrued_mono [OF r(1), of 0 "bk_last b' - (t0 - lag)"] t(1) t0(1) last by simp
      then show ?thesis using True Some cap t0 assms(1) by (simp add: account_def Pair)
    next
      case False
      have "bk_last b' - (t0 - lag) = (bk_last b - (t0 - lag)) + (bk_last b' - bk_last b)" by simp
      then have "accrued (rate rl) (bk_last b' - (t0 - lag))
          = accrued (rate rl) (bk_last b - (t0 - lag)) + accrued (rate rl) (bk_last b' - bk_last b)"
        by (simp only: accrued_add)
      then show ?thesis using False Some bal assms(1,4) by (simp add: account_def Pair)
    qed
  qed
  moreover have "\<not> bk_last b' < t0 - lag" using last t(1) t0(1) by linarith
  ultimately show ?thesis using tt t(3) t0 by (simp add: account_def Pair Allow_eq Let_def add.assoc)
qed

section \<open>Properties\<close>

lemma limiter_step_config:
  "rate (fst (limiter_step s e)) = rate (fst s) \<and> burst (fst (limiter_step s e)) = burst (fst s) \<and>
   ttl (fst (limiter_step s e)) = ttl (fst s)"
proof (cases e)
  case (EvictRun es)
  have "rate (fst (evictLoop es s)) = rate (fst s) \<and> burst (fst (evictLoop es s)) = burst (fst s) \<and>
     ttl (fst (evictLoop es s)) = ttl (fst s)"
    by (induction es s rule: evictLoop.induct) (auto simp: evict_def Let_def split_beta)
  then show ?thesis by (simp add: EvictRun)
qed (cases s, auto simp: Allow_eq Let_def RateLimiter_Close_def)

interpretation rlp: progressing limiter_step "\<lambda>s s'. burst (fst s') = burst (fst s) \<and>
  rate (fst s') = rate (fst s) \<and> ttl (fst s') = ttl (fst s)"
  by unfold_locales (simp_all add: limiter_step_config)

text \<open>However calls, evictions and Close interleave and whatever the clock does, a limiter made
  by \<open>NewRateLimiter\<close> keeps its rate positive and every bucket's balance between zero and the
  burst size.\<close>

lemma rate_limiter_invariant:
  "burst_fits c \<Longrightarrow> limiter_ok (fst (foldl limiter_step (NewRateLimiter tn c, w) es))"
  by (rule rl.good_run) (simp add: NewRateLimiter_ok)

lemma account_evictLoop:
  assumes "account T lag t0 key N X s" "limiter_ok (fst s)" "past_ok T lag s" "fills lag (fst s)"
  shows "account T lag t0 key N X (evictLoop es s)"
  using assms
proof (induction es s rule: evictLoop.induct)
  case (3 es s)
  have "fills lag (fst (evict s))" using "3.prems"(4) by (simp add: fills_def evict_def Let_def split_beta)
  with 3 show ?case by (simp add: account_evict evict_ok past_ok_evict)
qed simp_all

lemma account_run:
  assumes "account T lag t0 key N X s" "limiter_ok (fst s)" "past_ok T lag s" "fills lag (fst s)"
  shows "account T lag t0 key (N + of_nat (admitted key s es))
    (X + of_nat (count_list es (AllowCall key)) * slack (rate (fst s)) (burst (fst s))) (foldl limiter_step s es)"
  using assms
proof (induction es arbitrary: s N X)
  case (Cons e es)
  let ?s = "limiter_step s e"
  have cfg: "rate (fst ?s) = rate (fst s)" "burst (fst ?s) = burst (fst s)" "ttl (fst ?s) = ttl (fst s)"
    by (simp_all add: limiter_step_config)
  have ok: "limiter_ok (fst ?s)" "past_ok T lag ?s" using Cons.prems by (auto intro: rl.good_step rlt.good_step)
  have f: "fills lag (fst ?s)" using Cons.prems(4) by (simp add: fills_def cfg)
  show ?case
  proof (cases "e = AllowCall key")
    case True
    have "account T lag t0 key (N + (if fst (fst (Allow key s)) then 1 else 0)) (X + slack (rate (fst s)) (burst (fst s))) ?s"
      using account_Allow [OF Cons.prems(1-3)] Cons.prems(4) True by (simp add: fills_def)
    from Cons.IH [OF this ok f] show ?thesis unfolding cfg
      by (simp add: True algebra_simps del: limiter_step.simps split: if_splits)
  next
    case False
    have "account T lag t0 key N X ?s"
    proof (cases e)
      case (AllowCall k)
      obtain rl w where s: "s = (rl, w)" by (rule prod.exhaust)
      have "T w \<le> T (snd (rl_now rl w))" using Cons.prems(3) by (auto simp: s past_ok_def dest: laggingD)
      with AllowCall False Cons.prems(1,2) show ?thesis
        by (auto simp: s Allow_eq Let_def limiter_ok_def elim!: account_later)
    next
      case (EvictRun es')
      with Cons.prems show ?thesis by (simp add: account_evictLoop)
    next
      case CloseCall
      with Cons.prems(1) show ?thesis by (cases s) (auto simp: account_def RateLimiter_Close_def split: option.splits)
    qed
    from Cons.IH [OF this ok f, unfolded cfg] False show ?thesis by (simp del: limiter_step.simps)
  qed
qed simp

text \<open>
  C4. However the calls of a client interleave with those of others, with evictions and with Close, from any
  state that a limiter can reach, the client gets at most the burst plus the rate times the time that
  passes, up to the rounding error of its calls. The limiter's idle time has to be enough to fill a bucket,
  the burst is at most \<open>2 ^ 53\<close>, and the instants that the critical sections use are at most \<open>lag\<close> old.
\<close>

theorem rate_limit_bound:
  assumes "burst_fits c" "lagging (rl_now (NewRateLimiter tn c)) T lag"
    and "s = foldl limiter_step (NewRateLimiter tn c, w) es0"
    and "burst (fst s) \<le> 2 ^ 53" "burst (fst s) \<le> rate (fst s) * (of_int (ttl (fst s) - 2 * lag) / 1000000000)"
  shows "of_nat (admitted key s es)
    \<le> burst (fst s) + rate (fst s) * (of_int (T (snd (foldl limiter_step s es)) - T (snd s) + lag) / 1000000000)
       + of_nat (count_list es (AllowCall key)) * slack (rate (fst s)) (burst (fst s))"
proof -
  let ?s = "foldl limiter_step s es"
  have ok: "limiter_ok (fst s)" unfolding assms(3) using assms(1) by (rule rate_limiter_invariant)
  have p: "past_ok T lag s" unfolding assms(3)
    using assms(2) by (intro rlt.good_run) (simp add: past_ok_def NewRateLimiter_def Let_def)
  have "account T lag (T (snd s)) key 0 0 s" using account_start [OF ok, of T lag "snd s" key] by simp
  from account_run [OF this ok p, of es] assms(4,5)
  have "account T lag (T (snd s)) key (of_nat (admitted key s es))
      (of_nat (count_list es (AllowCall key)) * slack (rate (fst s)) (burst (fst s))) ?s"
    by (simp add: fills_def accrued_def)
  from account_bound [of T lag "T (snd s)" key _ _ "fst ?s" "snd ?s", unfolded prod.collapse,
      OF this rl.good_run [OF ok] rlt.good_run [OF p]]
  show ?thesis using rlp.rel_run [of s es] by (simp add: accrued_def)
qed


text \<open>A clock for concrete runs: the world is the list of its coming readings.\<close>

fun reading :: "time list \<Rightarrow> time \<times> time list" where
  "reading [] = (0, [])"
| "reading (t # ts) = (t, ts)"

definition wit_limits :: "rat \<Rightarrow> int \<Rightarrow> time list RateLimiterConfig" where
  "wit_limits r n = \<lparr>RequestsPerSecond = r, Burst = n, IdleTTL = 0, rlc_Now = None\<rparr>"

lemma wit_fits: "0 < n \<Longrightarrow> burst_fits (wit_limits r n)"
  by (simp add: burst_fits_def wit_limits_def)

lemma wit_limits_new:
  "NewRateLimiter reading (wit_limits 1 2) = \<lparr>rate = 1, burst = 2, ttl = 10 * Minute, rl_now = reading,
     stopped = False, buckets = Map.empty\<rparr>"
  by (simp add: NewRateLimiter_def wit_limits_def)

lemma wit_floats:
  "time_Sub 0 0 = 0" "Seconds (time_Sub 500000000 0) = 1 / 2" "rnd64 (1 / 2) = 1 / 2" "rnd64 1 = 1"
  "int64_of (rnd64 500000000) = 500000000" "int64_of 500000000 = 500000000"
  by code_simp+

lemma wit_takes:
  "take_token 1 2 0 (fresh_bucket 2 0) = ((True, 0), \<lparr>tokens = 1, bk_last = 0, seen = 0\<rparr>)"
  "take_token 1 2 0 \<lparr>tokens = 1, bk_last = 0, seen = 0\<rparr> = ((True, 0), \<lparr>tokens = 0, bk_last = 0, seen = 0\<rparr>)"
  "take_token 1 2 500000000 \<lparr>tokens = 0, bk_last = 0, seen = 0\<rparr>
     = ((False, 500000000), \<lparr>tokens = 1 / 2, bk_last = 500000000, seen = 500000000\<rparr>)"
  by (simp_all add: take_token_def refill_def fresh_bucket_def Let_def wit_floats)

text \<open>A clock that moves on by six minutes at every reading.\<close>

definition striding :: "time \<Rightarrow> time \<times> time" where
  "striding t = (t, t + 6 * Minute)"

definition wit_run :: "time rlstate" where
  "wit_run = (NewRateLimiter striding \<lparr>RequestsPerSecond = 1, Burst = 2, IdleTTL = 0, rlc_Now = None\<rparr>, 0)"

lemma wit_run_eq:
  "wit_run = (\<lparr>rate = 1, burst = 2, ttl = 10 * Minute, rl_now = striding, stopped = False, buckets = Map.empty\<rparr>, 0)"
  by (simp add: wit_run_def NewRateLimiter_def)

text \<open>Three admissions within half an hour, with an eviction of the bucket between the first and the second.\<close>

lemma wit_run_takes:
  "take_token 1 2 0 (fresh_bucket 2 0) = ((True, 0), \<lparr>tokens = 1, bk_last = 0, seen = 0\<rparr>)"
  "take_token 1 2 (18 * Minute) (fresh_bucket 2 (18 * Minute))
     = ((True, 0), \<lparr>tokens = 1, bk_last = 18 * Minute, seen = 18 * Minute\<rparr>)"
  "take_token 1 2 (24 * Minute) \<lparr>tokens = 1, bk_last = 18 * Minute, seen = 18 * Minute\<rparr>
     = ((True, 0), \<lparr>tokens = 1, bk_last = 24 * Minute, seen = 24 * Minute\<rparr>)"
  by code_simp+

lemma rate_limit_bound_witness:
  "let es = [AllowCall ''a'', EvictRun [Tick, Tick, Stop], AllowCall ''a'', AllowCall ''a'']
   in admitted ''a'' wit_run es = 3 \<and> buckets (fst (foldl limiter_step wit_run (take 2 es))) ''a'' = None \<and>
      (of_nat (admitted ''a'' wit_run es) :: rat) \<le> 2 + 1800 + 3 * slack 1 2"
proof -
  let ?es = "[AllowCall ''a'', EvictRun [Tick, Tick, Stop], AllowCall ''a'', AllowCall ''a'']"
  have e: "admitted ''a'' wit_run ?es = 3" "snd (foldl limiter_step wit_run ?es) = 30 * Minute"
    "buckets (fst (foldl limiter_step wit_run (take 2 ?es))) ''a'' = None"
    using wit_run_takes by (simp_all add: wit_run_eq Allow_eq evict_def striding_def Let_def)
  have "lagging striding (\<lambda>t. t) 0" by (simp add: lagging_def striding_def)
  then have "of_nat (admitted ''a'' wit_run ?es)
      \<le> burst (fst wit_run) + rate (fst wit_run) * (of_int (snd (foldl limiter_step wit_run ?es) - snd wit_run + 0) / 1000000000)
         + of_nat (count_list ?es (AllowCall ''a'')) * slack (rate (fst wit_run)) (burst (fst wit_run))"
    by (intro rate_limit_bound [of "\<lparr>RequestsPerSecond = 1, Burst = 2, IdleTTL = 0, rlc_Now = None\<rparr>" striding
          "\<lambda>t. t" 0 wit_run 0 "[]"]) (simp_all add: burst_fits_def wit_run_def NewRateLimiter_def)
  then show ?thesis unfolding e(2) using e(1,3) by (simp add: wit_run_eq Let_def)
qed

text \<open>
  With an idle time that is too short to fill a bucket, an eviction hands out a second burst: at one
  request in 64 seconds, a burst of 2 and an idle time of a minute, four requests get through in 61 seconds.
\<close>

definition wit_short :: "time list rlstate" where
  "wit_short = (NewRateLimiter reading \<lparr>RequestsPerSecond = 1 / 64, Burst = 2, IdleTTL = Minute, rlc_Now = None\<rparr>,
     [0, 0, 61 * Second, 61 * Second, 61 * Second])"

lemma wit_short_takes:
  "take_token (1 / 64) 2 0 (fresh_bucket 2 0) = ((True, 0), \<lparr>tokens = 1, bk_last = 0, seen = 0\<rparr>)"
  "take_token (1 / 64) 2 0 \<lparr>tokens = 1, bk_last = 0, seen = 0\<rparr> = ((True, 0), \<lparr>tokens = 0, bk_last = 0, seen = 0\<rparr>)"
  "take_token (1 / 64) 2 (61 * Second) (fresh_bucket 2 (61 * Second))
     = ((True, 0), \<lparr>tokens = 1, bk_last = 61 * Second, seen = 61 * Second\<rparr>)"
  "take_token (1 / 64) 2 (61 * Second) \<lparr>tokens = 1, bk_last = 61 * Second, seen = 61 * Second\<rparr>
     = ((True, 0), \<lparr>tokens = 0, bk_last = 61 * Second, seen = 61 * Second\<rparr>)"
  by code_simp+

lemma eviction_regrants_burst:
  "admitted ''a'' wit_short [AllowCall ''a'', AllowCall ''a'', EvictRun [Tick], AllowCall ''a'', AllowCall ''a''] = 4 \<and>
   2 + 1 / 64 * (of_int (61 * Second) / 1000000000) + 5 * slack (1 / 64) 2 < (3 :: rat)"
proof
  show "admitted ''a'' wit_short [AllowCall ''a'', AllowCall ''a'', EvictRun [Tick], AllowCall ''a'', AllowCall ''a''] = 4"
    using wit_short_takes by (simp add: wit_short_def NewRateLimiter_def Allow_eq evict_def Let_def)
qed (simp add: slack_def)

section \<open>Eviction\<close>

text \<open>A bucket that has had time to fill is indistinguishable from no bucket.\<close>

lemma refill_full:
  assumes "bucket_ok bst b" "0 < rt" "0 < d" "d \<le> maxDuration" "d \<le> t - bk_last b"
    and "bst \<le> rnd64 (Seconds d * rt)" "0 \<le> bst"
  shows "tokens (refill rt bst t b) = bst \<and> (0 < bst \<longrightarrow> bk_last (refill rt bst t b) = t)"
proof -
  let ?e = "Seconds (time_Sub t (bk_last b))"
  have "d \<le> time_Sub t (bk_last b)" using assms(3,4,5) by (simp add: time_Sub_ge)
  moreover have "time_Sub t (bk_last b) \<le> maxDuration"
    by (simp add: time_Sub_def maxDuration_def minDuration_def)
  ultimately have e: "Seconds d \<le> ?e" using assms(3) by (intro Seconds_mono) auto
  have tk: "0 \<le> tokens b" "tokens b \<le> bst" using assms(1) by (simp_all add: bucket_ok_def)
  show ?thesis
  proof (cases "0 < ?e")
    case True
    have "rnd64 (Seconds d * rt) \<le> rnd64 (?e * rt)"
      using e assms(2) by (intro rnd64_mono mult_right_mono) auto
    also have "\<dots> \<le> rnd64 (tokens b + rnd64 (?e * rt))"
      using tk rnd64_mono [of "rnd64 (?e * rt)" "tokens b + rnd64 (?e * rt)"] by simp
    finally have "bst \<le> rnd64 (tokens b + rnd64 (?e * rt))" using assms(6) by linarith
    with True show ?thesis by (auto simp: refill_def Let_def)
  next
    case False
    with e have "Seconds d \<le> 0" by linarith
    then have "rnd64 (Seconds d * rt) \<le> 0" using assms(2) by (intro rnd64_nonpos) (simp add: mult_nonpos_nonneg)
    then have "bst = 0" using assms(6,7) by linarith
    with tk False show ?thesis by (simp add: refill_def Let_def)
  qed
qed


lemma refill_fresh: "refill rt bst t (fresh_bucket bst t) = fresh_bucket bst t"
  by (simp add: refill_def fresh_bucket_def time_Sub_def maxDuration_def minDuration_def)

lemma take_token_full:
  assumes "tokens (refill rt bst t b) = bst" "bk_last (refill rt bst t b) = t"
  shows "take_token rt bst t b = take_token rt bst t (fresh_bucket bst t)"
proof -
  have "(refill rt bst t b)\<lparr>seen := t\<rparr> = (fresh_bucket bst t)\<lparr>seen := t\<rparr>"
    by (rule bucket.equality) (simp_all add: assms fresh_bucket_def)
  then show ?thesis unfolding take_token_def refill_fresh by simp
qed

lemma evict_eq:
  "evict (rl, w) = (rl\<lparr>buckets := (\<lambda>k. case buckets rl k of None \<Rightarrow> None
     | Some b \<Rightarrow> if seen b < fst (rl_now rl w) - ttl rl then None else Some b)\<rparr>, snd (rl_now rl w))"
  by (simp add: evict_def Let_def split_beta cong: option.case_cong)

text \<open>C29. Eviction is invisible to clients: when the idle time is enough to fill a bucket, a call
  after an eviction gets the answer, and leaves the bucket, that it would have without the
  eviction.\<close>

theorem evict_transparent:
  assumes "limiter_ok rl" "0 < burst rl" "ttl rl \<le> maxDuration"
    and "burst rl \<le> rnd64 (Seconds (ttl rl) * rate rl)"
    and "rl_now rl w = (te, w1)" "rl_now rl w1 = (t, w2)" "te \<le> t"
    and "case buckets rl key of None \<Rightarrow> True | Some b \<Rightarrow> bk_last b \<le> seen b"
  shows "fst (Allow key (evict (rl, w))) = fst (Allow key (rl, w1)) \<and>
    buckets (fst (snd (Allow key (evict (rl, w))))) key = buckets (fst (snd (Allow key (rl, w1)))) key"
proof (cases "buckets rl key")
  case None
  then show ?thesis by (simp add: evict_eq Allow_eq Let_def assms(5,6))
next
  case (Some b)
  have "take_token (rate rl) (burst rl) t b = take_token (rate rl) (burst rl) t (fresh_bucket (burst rl) t)"
    if "seen b < te - ttl rl"
  proof -
    have "ttl rl \<le> t - bk_last b" using that assms(7,8) Some by simp
    then have "tokens (refill (rate rl) (burst rl) t b) = burst rl \<and>
        (0 < burst rl \<longrightarrow> bk_last (refill (rate rl) (burst rl) t b) = t)"
      using assms(1-4) Some by (intro refill_full) (auto simp: limiter_ok_def)
    with assms(2) show ?thesis by (intro take_token_full) auto
  qed
  with Some show ?thesis by (simp add: evict_eq Allow_eq Let_def assms(5,6))
qed

lemma evict_transparent_witness:
  "let rl = \<lparr>rate = 1, burst = 2, ttl = 10 * Minute, rl_now = reading, stopped = False,
        buckets = [''a'' \<mapsto> \<lparr>tokens = 0, bk_last = 0, seen = 0\<rparr>]\<rparr>;
       w = [11 * Minute, 12 * Minute]
   in buckets (fst (evict (rl, w))) ''a'' = None \<and> fst (Allow ''a'' (evict (rl, w))) = fst (Allow ''a'' (rl, [12 * Minute]))"
proof -
  define rl where "rl = \<lparr>rate = 1, burst = 2, ttl = 10 * Minute, rl_now = reading, stopped = False,
        buckets = [''a'' \<mapsto> \<lparr>tokens = 0, bk_last = 0, seen = 0\<rparr>]\<rparr>"
  have "2 \<le> rnd64 (Seconds (10 * Minute) * 1)" by code_simp
  then have "fst (Allow ''a'' (evict (rl, [11 * Minute, 12 * Minute]))) = fst (Allow ''a'' (rl, [12 * Minute]))"
    using evict_transparent [of rl "[11 * Minute, 12 * Minute]" "11 * Minute" "[12 * Minute]" "12 * Minute" "[]" "''a''"]
    using representable_of_int [of 2]
    by (simp add: rl_def limiter_ok_def bucket_ok_def maxDuration_def)
  moreover have "buckets (fst (evict (rl, [11 * Minute, 12 * Minute]))) ''a'' = None"
    by (simp add: evict_eq rl_def)
  ultimately show ?thesis by (simp add: rl_def Let_def)
qed

section \<open>The Retry-After header\<close>

text \<open>C31. With a rate of at least one request per second, a client that waits the announced
  \<open>Retry-After\<close> seconds is let through, if nobody spent its tokens meanwhile.\<close>

theorem retry_after_suffices:
  assumes "limiter_ok rl" "1 \<le> rate rl" "1 \<le> burst rl"
    and "Allow key (rl, w) = ((False, d), rl', w')"
    and "rl_now rl w = (t, w1)" "rl_now rl w' = (t', w2)"
    and "t + retryAfterSeconds d * Second \<le> t'"
    and "case buckets rl key of None \<Rightarrow> True | Some b \<Rightarrow> bk_last b \<le> t"
  shows "fst (fst (Allow key (rl', w')))"
proof -
  let ?b = "case buckets rl key of None \<Rightarrow> fresh_bucket (burst rl) t | Some b \<Rightarrow> b"
  obtain b1 where tt: "take_token (rate rl) (burst rl) t ?b = ((False, d), b1)"
    and rl': "rl' = rl\<lparr>buckets := (buckets rl)(key \<mapsto> b1)\<rparr>"
    using assms(4,5) by (cases "take_token (rate rl) (burst rl) t ?b") (auto simp: Allow_eq Let_def)
  have "bucket_ok (burst rl) ?b"
    using assms(1) by (auto simp: limiter_ok_def intro: fresh_bucket_ok split: option.split)
  then have b1: "bucket_ok (burst rl) b1"
    using take_token_ok [of "burst rl" ?b "rate rl" t] tt assms(1) by (simp add: limiter_ok_def)
  have "bk_last ?b \<le> t" using assms(8) by (auto simp: fresh_bucket_def split: option.splits)
  then have "bk_last b1 \<le> t"
    using tt by (auto simp: take_token_def refill_def Let_def split: if_splits)
  moreover have "1 \<le> retryAfterSeconds d" by (simp add: retryAfterSeconds_def Let_def)
  ultimately have later: "Second \<le> t' - bk_last b1" using assms(7) by linarith
  let ?e = "Seconds (time_Sub t' (bk_last b1))"
  have "Seconds (1 * Second) \<le> ?e"
    using later by (intro Seconds_mono) (auto simp: time_Sub_def maxDuration_def minDuration_def)
  then have e: "1 \<le> ?e" using Seconds_whole [of 1] by (simp add: maxDuration_def)
  then have "1 \<le> ?e * rate rl" using assms(2) mult_mono [of 1 ?e 1 "rate rl"] by simp
  then have "1 \<le> tokens b1 + rnd64 (?e * rate rl)"
    using b1 representable_of_int [of 1] fl.rnd_ge [of 1 "?e * rate rl"] by (simp add: bucket_ok_def)
  then have "1 \<le> rnd64 (tokens b1 + rnd64 (?e * rate rl))"
    using representable_of_int [of 1] by (intro fl.rnd_ge) simp_all
  then have "1 \<le> tokens (refill (rate rl) (burst rl) t' b1)"
    using e assms(3) by (simp add: refill_def Let_def)
  then show ?thesis by (simp add: rl' Allow_eq Let_def assms(6) take_token_def)
qed


lemma retry_after_suffices_witness:
  "let rl = \<lparr>rate = 1, burst = 2, ttl = 10 * Minute, rl_now = reading, stopped = False,
        buckets = [''a'' \<mapsto> \<lparr>tokens = 0, bk_last = 0, seen = 0\<rparr>]\<rparr>;
       r = Allow ''a'' (rl, [500000000, 1500000000])
   in \<not> fst (fst r) \<and> retryAfterSeconds (snd (fst r)) = 1 \<and> fst (fst (Allow ''a'' (snd r)))"
proof -
  define rl where "rl = \<lparr>rate = 1, burst = 2, ttl = 10 * Minute, rl_now = reading, stopped = False,
        buckets = [''a'' \<mapsto> \<lparr>tokens = 0, bk_last = 0, seen = 0\<rparr>]\<rparr>"
  have a: "Allow ''a'' (rl, [500000000, 1500000000]) = ((False, 500000000),
      rl\<lparr>buckets := [''a'' \<mapsto> \<lparr>tokens = 1 / 2, bk_last = 500000000, seen = 500000000\<rparr>]\<rparr>, [1500000000])"
    by (simp add: Allow_eq Let_def rl_def wit_takes)
  have r: "retryAfterSeconds 500000000 = 1" by code_simp
  have "fst (fst (Allow ''a'' (rl\<lparr>buckets := [''a'' \<mapsto> \<lparr>tokens = 1 / 2, bk_last = 500000000, seen = 500000000\<rparr>]\<rparr>, [1500000000])))"
    using retry_after_suffices [OF _ _ _ a] r representable_of_int [of 2]
    by (simp add: rl_def limiter_ok_def bucket_ok_def)
  with a r show ?thesis by (simp add: rl_def Let_def)
qed

lemma slow_floats:
  "time_Sub 0 0 = 0" "Seconds (time_Sub 2000000000 0) = 2" "rnd64 (3 / 4) = 3 / 4" "rnd64 (1 / 4) = 1 / 4"
  "int64_of (rnd64 (rnd64 (8 / 3) * 1000000000)) = 2666666666" "rnd64 1 = 1"
  "retryAfterSeconds 2666666666 = 2"
  by code_simp+

text \<open>With a rate below one per second the header can be too small: at 3/8 requests per second
  a refused client is told to retry after 2 seconds, does so, and is refused again. The
  middleware truncates the wait of 2.67 seconds instead of rounding it up.\<close>

theorem retry_after_too_short:
  "let s0 = (NewRateLimiter reading (wit_limits (3 / 8) 1), [0, 0, 2 * Second]);
       (r1, s1) = Allow ''a'' s0; (r2, s2) = Allow ''a'' s1; (r3, s3) = Allow ''a'' s2
   in fst r1 \<and> \<not> fst r2 \<and> snd r2 = 2666666666 \<and> retryAfterSeconds (snd r2) = 2 \<and> \<not> fst r3"
  by (simp add: NewRateLimiter_def wit_limits_def Allow_eq Let_def take_token_def refill_def fresh_bucket_def
      slow_floats)

text \<open>A rate below one per second with no burst configured rounds the burst down to zero, and
  the limiter then refuses every request of every client forever.\<close>

theorem fractional_rate_blocks_all:
  assumes "0 < RequestsPerSecond c" "RequestsPerSecond c < 1" "Burst c \<le> 0"
  shows "\<not> fst (fst (Allow key (foldl limiter_step (NewRateLimiter tn c, w) es)))"
proof -
  let ?s = "foldl limiter_step (NewRateLimiter tn c, w) es"
  have "int64_of (RequestsPerSecond c) = 0" using assms(1,2) by (simp add: int64_of_small trunc64_def floor_eq_iff)
  then have "burst (NewRateLimiter tn c) = 0"
    using assms by (simp add: NewRateLimiter_def Let_def float64_of_int_def)
  then have 0: "burst (fst ?s) = 0" using rlp.rel_run [of "(NewRateLimiter tn c, w)" es] by simp
  have ok: "limiter_ok (fst ?s)" using assms(2) by (intro rate_limiter_invariant) (simp add: burst_fits_def)
  obtain rl w' where s: "?s = (rl, w')" by (cases ?s)
  let ?b = "case buckets rl key of None \<Rightarrow> fresh_bucket (burst rl) (fst (rl_now rl w')) | Some b \<Rightarrow> b"
  have "bucket_ok (burst rl) ?b"
    using ok by (auto simp: s limiter_ok_def intro: fresh_bucket_ok split: option.split)
  then have "bucket_ok (burst rl) (refill (rate rl) (burst rl) (fst (rl_now rl w')) ?b)"
    using ok by (intro refill_ok) (auto simp: s limiter_ok_def)
  then have "tokens (refill (rate rl) (burst rl) (fst (rl_now rl w')) ?b) < 1"
    using 0 by (simp add: s bucket_ok_def)
  then show ?thesis by (simp add: s Allow_eq Let_def take_token_def)
qed

lemma fractional_rate_blocks_all_witness:
  "\<not> fst (fst (Allow ''a'' (foldl limiter_step (NewRateLimiter reading (wit_limits (1 / 2) 0), [0, 10 * Minute])
     [AllowCall ''a''])))"
  by (rule fractional_rate_blocks_all) (simp_all add: wit_limits_def)

end
