(* ===== verification/Ieee.thy ===== *)
theory Ieee
  imports Float64
begin

text \<open>
  Binary64 with its infinities and NaN, for the places where values from outside can reach them: the
  settings read by \<open>strconv.ParseFloat\<close>, and the readings that the scorer computes with. A result of
  magnitude \<open>2 ^ 1024\<close> or more after rounding is an infinity. The two zeros are one value: no
  comparison tells them apart, and neither service divides by a zero.
\<close>

section \<open>Values and operations\<close>

datatype float64 = Finite rat | Infinity bool | NaN

text \<open>\<open>Infinity True\<close> is the positive one. The value of a real result.\<close>

definition fin64 :: "rat \<Rightarrow> float64" where
  "fin64 x = (let y = rnd64 x in if \<bar>y\<bar> < 2 ^ 1024 then Finite y else Infinity (0 < y))"

fun f64_neg :: "float64 \<Rightarrow> float64" where
  "f64_neg (Finite x) = Finite (- x)"
| "f64_neg (Infinity p) = Infinity (\<not> p)"
| "f64_neg NaN = NaN"

fun f64_add :: "float64 \<Rightarrow> float64 \<Rightarrow> float64" where
  "f64_add (Finite x) (Finite y) = fin64 (x + y)"
| "f64_add (Infinity p) (Infinity q) = (if p = q then Infinity p else NaN)"
| "f64_add (Infinity p) (Finite y) = Infinity p"
| "f64_add (Finite x) (Infinity q) = Infinity q"
| "f64_add _ _ = NaN"

definition f64_sub :: "float64 \<Rightarrow> float64 \<Rightarrow> float64" where
  "f64_sub x y = f64_add x (f64_neg y)"

fun f64_mul :: "float64 \<Rightarrow> float64 \<Rightarrow> float64" where
  "f64_mul (Finite x) (Finite y) = fin64 (x * y)"
| "f64_mul (Infinity p) (Infinity q) = Infinity (p = q)"
| "f64_mul (Infinity p) (Finite y) = (if y = 0 then NaN else Infinity (p = (0 < y)))"
| "f64_mul (Finite x) (Infinity q) = (if x = 0 then NaN else Infinity (q = (0 < x)))"
| "f64_mul _ _ = NaN"

text \<open>Division; a zero divisor counts as positive.\<close>

fun f64_div :: "float64 \<Rightarrow> float64 \<Rightarrow> float64" where
  "f64_div (Finite x) (Finite y) =
     (if y = 0 then if x = 0 then NaN else Infinity (0 < x) else fin64 (x / y))"
| "f64_div (Infinity p) (Finite y) = Infinity (p = (0 \<le> y))"
| "f64_div (Finite x) (Infinity q) = Finite 0"
| "f64_div _ _ = NaN"

fun f64_abs :: "float64 \<Rightarrow> float64" where
  "f64_abs (Finite x) = Finite \<bar>x\<bar>"
| "f64_abs (Infinity p) = Infinity True"
| "f64_abs NaN = NaN"

text \<open>Comparisons: all are false when one side is NaN.\<close>

fun float64_less :: "float64 \<Rightarrow> float64 \<Rightarrow> bool" where
  "float64_less (Finite x) (Finite y) = (x < y)"
| "float64_less (Finite x) (Infinity pos) = pos"
| "float64_less (Infinity pos) (Finite y) = (\<not> pos)"
| "float64_less (Infinity p) (Infinity q) = (\<not> p \<and> q)"
| "float64_less _ _ = False"

definition float64_eq :: "float64 \<Rightarrow> float64 \<Rightarrow> bool" where
  "float64_eq x y \<longleftrightarrow> x = y \<and> x \<noteq> NaN"

definition float64_le :: "float64 \<Rightarrow> float64 \<Rightarrow> bool" where
  "float64_le x y \<longleftrightarrow> float64_less x y \<or> float64_eq x y"

fun isfinite :: "float64 \<Rightarrow> bool" where
  "isfinite (Finite x) = True"
| "isfinite _ = False"

text \<open>The number a finite value denotes, and what binary64 can hold.\<close>

fun the_rat :: "float64 \<Rightarrow> rat" where
  "the_rat (Finite x) = x"
| "the_rat _ = 0"

definition binary64 :: "float64 \<Rightarrow> bool" where
  "binary64 v \<longleftrightarrow> (case v of Finite x \<Rightarrow> representable x \<and> \<bar>x\<bar> < 2 ^ 1024 | _ \<Rightarrow> True)"

section \<open>Facts\<close>

lemma isfinite_iff: "isfinite v \<longleftrightarrow> (\<exists>x. v = Finite x)"
  by (cases v) auto

lemma float64_le_Finite [simp]: "float64_le (Finite x) (Finite y) \<longleftrightarrow> x \<le> y"
  by (auto simp: float64_le_def float64_eq_def)

lemma float64_le_Infinity [simp]: "float64_le (Finite x) (Infinity p) \<longleftrightarrow> p" "float64_le (Infinity p) (Finite x) \<longleftrightarrow> \<not> p"
  by (auto simp: float64_le_def float64_eq_def)

lemma float64_le_NaN [simp]: "\<not> float64_le NaN y" "\<not> float64_le x NaN"
  by (cases x; cases y; simp add: float64_le_def float64_eq_def)+

lemma float64_eq_Finite [simp]: "float64_eq (Finite x) (Finite y) \<longleftrightarrow> x = y" "\<not> float64_eq NaN v" "\<not> float64_eq v NaN"
  "\<not> float64_eq (Infinity p) (Finite y)" "\<not> float64_eq (Finite y) (Infinity p)"
  by (auto simp: float64_eq_def)

lemma f64_sub_simps [simp]:
  "f64_sub (Finite x) (Finite y) = fin64 (x - y)"
  "f64_sub (Finite x) (Infinity p) = Infinity (\<not> p)"
  by (simp_all add: f64_sub_def)

text \<open>Powers of two up to the largest exponent are representable, so rounding cannot pass them.\<close>

lemma representable_power2 [simp]: "representable (2 ^ n)"
  by (rule representableI [of _ 1 "int n"]) (simp_all add: power_int_def)

lemma rnd64_abs: "rnd64 \<bar>x\<bar> = \<bar>rnd64 x\<bar>"
  by (cases "0 \<le> x") (simp_all add: abs_of_nonpos)

lemma rnd64_bound: "\<bar>x\<bar> \<le> 2 ^ n \<Longrightarrow> \<bar>rnd64 x\<bar> \<le> 2 ^ n"
  using fl.rnd_le [of "2 ^ n" "\<bar>x\<bar>"] by (simp add: rnd64_abs)

lemma fin64_small:
  assumes "\<bar>x\<bar> \<le> 2 ^ n" "n < 1024" shows "fin64 x = Finite (rnd64 x)"
proof -
  have "\<bar>rnd64 x\<bar> \<le> 2 ^ n" using assms(1) by (rule rnd64_bound)
  also have "\<dots> < (2 ^ 1024 :: rat)" using assms(2) by (rule power_strict_increasing) simp
  finally show ?thesis by (simp add: fin64_def)
qed

lemma fin64_nonneg: "0 \<le> x \<Longrightarrow> fin64 x = Finite (rnd64 x) \<or> fin64 x = Infinity True"
  using rnd64_nonneg [of x] by (auto simp: fin64_def Let_def)

lemma binary64_fin64 [simp]: "binary64 (fin64 x)"
  by (simp add: fin64_def Let_def binary64_def)

section \<open>The order of sorting\<close>

text \<open>
  Sorting is by the order of the numbers, between the infinities. NaN is put last to make the order
  total; no list that the services sort contains it.
\<close>

fun f64_rank :: "float64 \<Rightarrow> nat" where
  "f64_rank (Infinity p) = (if p then 2 else 0)"
| "f64_rank (Finite x) = 1"
| "f64_rank NaN = 3"

instantiation float64 :: linorder
begin

definition less_eq_float64 :: "float64 \<Rightarrow> float64 \<Rightarrow> bool" where
  "less_eq_float64 x y \<longleftrightarrow> f64_rank x < f64_rank y \<or> f64_rank x = f64_rank y \<and> the_rat x \<le> the_rat y"

definition less_float64 :: "float64 \<Rightarrow> float64 \<Rightarrow> bool" where
  "less_float64 x y \<longleftrightarrow> x \<le> y \<and> \<not> y \<le> x"

instance
proof
  fix x y z :: float64
  show "x < y \<longleftrightarrow> x \<le> y \<and> \<not> y \<le> x" by (simp add: less_float64_def)
  show "x \<le> x" by (simp add: less_eq_float64_def)
  show "x \<le> y \<Longrightarrow> y \<le> z \<Longrightarrow> x \<le> z" by (auto simp: less_eq_float64_def)
  show "x \<le> y \<Longrightarrow> y \<le> x \<Longrightarrow> x = y" by (cases x; cases y) (auto simp: less_eq_float64_def split: if_splits)
  show "x \<le> y \<or> y \<le> x" by (auto simp: less_eq_float64_def)
qed

end

lemma Finite_le [simp]: "Finite x \<le> Finite y \<longleftrightarrow> x \<le> y"
  by (simp add: less_eq_float64_def)

lemma insort_Finite: "insort (Finite x) (map Finite xs) = map Finite (insort x xs)"
  by (induction xs) simp_all

lemma sort_Finite: "sort (map Finite xs) = map Finite (sort xs)"
  by (induction xs) (simp_all add: insort_Finite)

text \<open>On numbers the order of sorting is the comparison of the language.\<close>

lemma le_float64_le: "x \<noteq> NaN \<Longrightarrow> y \<noteq> NaN \<Longrightarrow> x \<le> y \<longleftrightarrow> float64_le x y"
  by (cases x; cases y) (auto simp: less_eq_float64_def float64_le_def float64_eq_def split: if_splits)

end
