(* ===== verification/Limiter.thy ===== *)
theory Limiter
  imports RateLimit Ieee
begin

text \<open>
  The rate limiter for every rate that its configuration accepts. \<open>strconv.ParseFloat\<close> reads infinities
  and NaN, and so do the sums and quotients of \<open>ratelimit.go\<close> when they overflow; the operations here are
  those of \<open>RateLimit\<close> over binary64 with these values. For a finite rate the two agree step by step,
  overflow included, so what \<open>RateLimit\<close> shows holds for the limiter that the gateway runs. At the other
  rates the limiter does not limit, or limits for ever.
\<close>

section \<open>The limiter over binary64\<close>

record fl_bucket =
  fl_tokens :: float64
  fl_last :: time
  fl_seen :: time

record 'w fl_RateLimiterConfig =
  fl_RequestsPerSecond :: float64
  fl_Burst :: int
  fl_IdleTTL :: duration
  fl_Now :: "('w \<Rightarrow> time \<times> 'w) option"

record 'w fl_RateLimiter =
  fl_rate :: float64
  fl_burst :: float64
  fl_ttl :: duration
  fl_now :: "'w \<Rightarrow> time \<times> 'w"
  fl_stopped :: bool
  fl_buckets :: "string \<rightharpoonup> fl_bucket"

type_synonym 'w flstate = "'w fl_RateLimiter \<times> 'w"

definition f64_int64 :: "float64 \<Rightarrow> int" where
  "f64_int64 v = (case v of Finite x \<Rightarrow> int64_of x | _ \<Rightarrow> - (2 ^ 63))"

definition fl_NewRateLimiter :: "('w \<Rightarrow> time \<times> 'w) \<Rightarrow> 'w fl_RateLimiterConfig \<Rightarrow> 'w fl_RateLimiter" where
  "fl_NewRateLimiter time_Now c =
     (let c = (if float64_le (fl_RequestsPerSecond c) (Finite 0) then c\<lparr>fl_RequestsPerSecond := Finite 50\<rparr> else c);
          c = (if fl_Burst c \<le> 0 then c\<lparr>fl_Burst := f64_int64 (fl_RequestsPerSecond c)\<rparr> else c);
          c = (if fl_IdleTTL c \<le> 0 then c\<lparr>fl_IdleTTL := 10 * Minute\<rparr> else c);
          c = (if fl_Now c = None then c\<lparr>fl_Now := Some time_Now\<rparr> else c)
      in \<lparr>fl_rate = fl_RequestsPerSecond c, fl_burst = Finite (float64_of_int (fl_Burst c)), fl_ttl = fl_IdleTTL c,
          fl_now = the (fl_Now c), fl_stopped = False, fl_buckets = Map.empty\<rparr>)"

definition fl_Close :: "'w fl_RateLimiter \<Rightarrow> 'w fl_RateLimiter" where
  "fl_Close rl = (if fl_stopped rl then rl else rl\<lparr>fl_stopped := True\<rparr>)"

definition fl_evict :: "'w flstate \<Rightarrow> 'w flstate" where
  "fl_evict = (\<lambda>(rl, w).
     let (t, w) = fl_now rl w; cutoff = t + - fl_ttl rl
     in (rl\<lparr>fl_buckets := (\<lambda>k. case fl_buckets rl k of
            None \<Rightarrow> None
          | Some b \<Rightarrow> if fl_seen b < cutoff then None else Some b)\<rparr>, w))"

fun fl_evictLoop :: "selected list \<Rightarrow> 'w flstate \<Rightarrow> 'w flstate" where
  "fl_evictLoop [] s = s"
| "fl_evictLoop (Stop # es) s = s"
| "fl_evictLoop (Tick # es) s = fl_evictLoop es (fl_evict s)"

definition fl_refill :: "float64 \<Rightarrow> float64 \<Rightarrow> time \<Rightarrow> fl_bucket \<Rightarrow> fl_bucket" where
  "fl_refill rt bst t b =
     (let elapsed = Seconds (time_Sub t (fl_last b))
      in if 0 < elapsed
         then let tk = f64_add (fl_tokens b) (f64_mul (Finite elapsed) rt);
                  tk = (if float64_less bst tk then bst else tk)
              in b\<lparr>fl_tokens := tk, fl_last := t\<rparr>
         else b)"

definition fl_take_token :: "float64 \<Rightarrow> float64 \<Rightarrow> time \<Rightarrow> fl_bucket \<Rightarrow> (bool \<times> duration) \<times> fl_bucket" where
  "fl_take_token rt bst t b =
     (let b = (fl_refill rt bst t b)\<lparr>fl_seen := t\<rparr>
      in if float64_le (Finite 1) (fl_tokens b) then ((True, 0), b\<lparr>fl_tokens := f64_sub (fl_tokens b) (Finite 1)\<rparr>)
         else let deficit = f64_sub (Finite 1) (fl_tokens b)
              in ((False, f64_int64 (f64_mul (f64_div deficit rt) (Finite 1000000000))), b))"

definition fl_fresh :: "float64 \<Rightarrow> time \<Rightarrow> fl_bucket" where
  "fl_fresh bst t = \<lparr>fl_tokens = bst, fl_last = t, fl_seen = zeroTime\<rparr>"

definition fl_Allow :: "string \<Rightarrow> 'w flstate \<Rightarrow> (bool \<times> duration) \<times> 'w flstate" where
  "fl_Allow key = (\<lambda>(rl, w).
     let (t, w) = fl_now rl w;
         b = (case fl_buckets rl key of None \<Rightarrow> fl_fresh (fl_burst rl) t | Some b \<Rightarrow> b);
         (res, b) = fl_take_token (fl_rate rl) (fl_burst rl) t b
     in (res, (rl\<lparr>fl_buckets := (fl_buckets rl)(key \<mapsto> b)\<rparr>, w)))"

definition fl_Buckets :: "'w fl_RateLimiter \<Rightarrow> nat" where
  "fl_Buckets rl = card (dom (fl_buckets rl))"

fun fl_step :: "'w flstate \<Rightarrow> limiter_event \<Rightarrow> 'w flstate" where
  "fl_step s (AllowCall k) = snd (fl_Allow k s)"
| "fl_step s (EvictRun es) = fl_evictLoop es s"
| "fl_step s CloseCall = (fl_Close (fst s), snd s)"

lemma fl_Allow_eq:
  "fl_Allow key (rl, w) =
     (let t = fst (fl_now rl w);
          b = (case fl_buckets rl key of None \<Rightarrow> fl_fresh (fl_burst rl) t | Some b \<Rightarrow> b)
      in (fst (fl_take_token (fl_rate rl) (fl_burst rl) t b),
          (rl\<lparr>fl_buckets := (fl_buckets rl)(key \<mapsto> snd (fl_take_token (fl_rate rl) (fl_burst rl) t b))\<rparr>, snd (fl_now rl w))))"
  by (cases "fl_buckets rl key") (simp_all add: fl_Allow_def Let_def split_beta)

lemma fl_Allow_other: "k \<noteq> key \<Longrightarrow> fl_buckets (fst (snd (fl_Allow k s))) key = fl_buckets (fst s) key"
  by (cases s) (simp add: fl_Allow_eq Let_def)

section \<open>Finite rates\<close>

text \<open>Past \<open>2 ^ 1024\<close>, where the sums of binary64 are infinite, the rounded sums are far above any burst.\<close>

lemma f64_int64_fin64: "f64_int64 (fin64 x) = int64_of (rnd64 x)"
proof (cases "\<bar>rnd64 x\<bar> < 2 ^ 1024")
  case False
  have "(2 :: rat) ^ 64 \<le> 2 ^ 1024" by (rule power_increasing) simp_all
  then have "2 ^ 64 \<le> \<bar>rnd64 x\<bar>" using False by linarith
  then have "\<not> (- (2 ^ 63) \<le> trunc64 (rnd64 x) \<and> trunc64 (rnd64 x) < 2 ^ 63)"
    by (cases "0 \<le> rnd64 x") (auto simp: trunc64_def floor_less_iff le_ceiling_iff not_le)
  then have "int64_of (rnd64 x) = - (2 ^ 63)" unfolding int64_of_def Let_def by (rule if_not_P)
  moreover have "f64_int64 (fin64 x) = - (2 ^ 63)" using False by (simp add: f64_int64_def fin64_def Let_def)
  ultimately show ?thesis by simp
qed (simp add: f64_int64_def fin64_def Let_def)


definition embed_bucket :: "bucket \<Rightarrow> fl_bucket" where
  "embed_bucket b = \<lparr>fl_tokens = Finite (tokens b), fl_last = bk_last b, fl_seen = seen b\<rparr>"

definition embed :: "'w RateLimiter \<Rightarrow> 'w fl_RateLimiter" where
  "embed rl = \<lparr>fl_rate = Finite (rate rl), fl_burst = Finite (burst rl), fl_ttl = ttl rl, fl_now = rl_now rl, fl_stopped = stopped rl,
     fl_buckets = (\<lambda>k. map_option embed_bucket (buckets rl k))\<rparr>"

definition embed_config :: "'w RateLimiterConfig \<Rightarrow> 'w fl_RateLimiterConfig" where
  "embed_config c = \<lparr>fl_RequestsPerSecond = Finite (RequestsPerSecond c), fl_Burst = Burst c, fl_IdleTTL = IdleTTL c, fl_Now = rlc_Now c\<rparr>"

lemma huge_rnd: "2 ^ 1024 \<le> x \<Longrightarrow> 2 ^ 1024 \<le> rnd64 x"
  by (rule fl.rnd_ge) (rule representable_power2)

lemma fin64_capped:
  assumes "0 \<le> x" "bst < 2 ^ 1024"
  shows "(if float64_less (Finite bst) (fin64 x) then Finite bst else fin64 x) = Finite (if bst < rnd64 x then bst else rnd64 x)"
proof (cases "rnd64 x < 2 ^ 1024")
  case True
  then have "fin64 x = Finite (rnd64 x)" using rnd64_nonneg [OF assms(1)] by (simp add: fin64_def)
  then show ?thesis by simp
next
  case False
  then have "fin64 x = Infinity True" using fin64_nonneg [OF assms(1)] rnd64_nonneg [OF assms(1)] by (simp add: fin64_def Let_def)
  moreover have "bst < rnd64 x" using False assms(2) by linarith
  ultimately show ?thesis by simp
qed

lemma refill_embed:
  assumes "0 \<le> tokens b" "0 < rt" "bst < 2 ^ 1024"
  shows "fl_refill (Finite rt) (Finite bst) t (embed_bucket b) = embed_bucket (refill rt bst t b)"
proof -
  let ?e = "Seconds (time_Sub t (bk_last b))"
  have cap: "(if float64_less (Finite bst) (f64_add (Finite (tokens b)) (f64_mul (Finite ?e) (Finite rt))) then Finite bst
       else f64_add (Finite (tokens b)) (f64_mul (Finite ?e) (Finite rt)))
     = Finite (if bst < rnd64 (tokens b + rnd64 (?e * rt)) then bst else rnd64 (tokens b + rnd64 (?e * rt)))" if e: "0 < ?e"
  proof -
    have p: "0 \<le> ?e * rt" "0 \<le> rnd64 (?e * rt)" using e assms(2) by (simp_all add: rnd64_nonneg)
    show ?thesis
    proof (cases "rnd64 (?e * rt) < 2 ^ 1024")
      case True
      then have m: "f64_mul (Finite ?e) (Finite rt) = Finite (rnd64 (?e * rt))" using p by (simp add: fin64_def)
      have "0 \<le> tokens b + rnd64 (?e * rt)" using p(2) assms(1) by simp
      from fin64_capped [OF this assms(3)] show ?thesis by (simp only: m f64_add.simps)
    next
      case False
      then have "f64_mul (Finite ?e) (Finite rt) = Infinity True" using p(2) fin64_nonneg [OF p(1)] by (auto simp: fin64_def Let_def)
      moreover have "2 ^ 1024 \<le> rnd64 (tokens b + rnd64 (?e * rt))" using False assms(1) by (intro huge_rnd) linarith
      ultimately show ?thesis using assms(3) by simp
    qed
  qed
  show ?thesis
  proof (cases "0 < ?e")
    case True
    show ?thesis using True unfolding fl_refill_def refill_def embed_bucket_def Let_def fl_bucket.select_convs cap [OF True] by simp
  qed (simp add: fl_refill_def refill_def embed_bucket_def Let_def)
qed

lemma wait_embed:
  assumes "0 \<le> deficit" "0 < rt"
  shows "f64_int64 (f64_mul (f64_div (Finite deficit) (Finite rt)) (Finite 1000000000)) = int64_of (rnd64 (rnd64 (deficit / rt) * 1000000000))"
proof -
  have p: "0 \<le> deficit / rt" "0 \<le> rnd64 (deficit / rt)" using assms by (simp_all add: rnd64_nonneg)
  show ?thesis
  proof (cases "rnd64 (deficit / rt) < 2 ^ 1024")
    case True
    then have "f64_div (Finite deficit) (Finite rt) = Finite (rnd64 (deficit / rt))" using p assms(2) by (simp add: fin64_def)
    then show ?thesis by (simp add: f64_int64_fin64)
  next
    case False
    then have d: "f64_div (Finite deficit) (Finite rt) = Infinity True" using p assms(2) fin64_nonneg [OF p(1)] by (auto simp: fin64_def Let_def)
    have "2 ^ 1024 \<le> rnd64 (deficit / rt) * 1000000000" using False p(2) by linarith
    then have "2 ^ 1024 \<le> rnd64 (rnd64 (deficit / rt) * 1000000000)" by (rule huge_rnd)
    then have n: "\<not> \<bar>rnd64 (rnd64 (deficit / rt) * 1000000000)\<bar> < 2 ^ 1024" by linarith
    have "f64_int64 (fin64 (rnd64 (deficit / rt) * 1000000000)) = - (2 ^ 63)"
      unfolding fin64_def Let_def if_not_P [OF n] f64_int64_def by simp
    then have "int64_of (rnd64 (rnd64 (deficit / rt) * 1000000000)) = - (2 ^ 63)" by (simp only: f64_int64_fin64)
    then show ?thesis unfolding d by (simp add: f64_int64_def)
  qed
qed


lemma take_token_embed:
  assumes "bucket_ok bst b" "0 < rt" "representable bst" "bst < 2 ^ 1024"
  shows "fl_take_token (Finite rt) (Finite bst) t (embed_bucket b) = (fst (take_token rt bst t b), embed_bucket (snd (take_token rt bst t b)))"
proof -
  let ?r = "refill rt bst t b"
  have ok: "0 \<le> tokens ?r" "tokens ?r \<le> bst" using refill_ok [OF assms(1-3), of t] by (simp_all add: bucket_ok_def)
  have r: "fl_refill (Finite rt) (Finite bst) t (embed_bucket b) = embed_bucket ?r"
    using assms by (intro refill_embed) (simp_all add: bucket_ok_def)
  show ?thesis
  proof (cases "1 \<le> tokens ?r")
    case True
    have "0 \<le> rnd64 (tokens ?r - 1)" "rnd64 (tokens ?r - 1) \<le> bst"
      using True ok assms(3) by (auto intro: rnd64_nonneg fl.rnd_le)
    then have "fin64 (tokens ?r - 1) = Finite (rnd64 (tokens ?r - 1))" using assms(4) by (simp add: fin64_def)
    then show ?thesis unfolding fl_take_token_def take_token_def r Let_def using True by (simp add: embed_bucket_def)
  next
    case False
    have "\<bar>1 - tokens ?r\<bar> \<le> 2 ^ 0" using False ok(1) by simp
    then have f: "fin64 (1 - tokens ?r) = Finite (rnd64 (1 - tokens ?r))" by (rule fin64_small) simp
    have "0 \<le> rnd64 (1 - tokens ?r)" using False by (intro rnd64_nonneg) simp
    note w = wait_embed [OF this assms(2)]
    show ?thesis unfolding fl_take_token_def take_token_def r Let_def using False by (simp add: embed_bucket_def f w del: f64_div.simps f64_mul.simps)
  qed
qed

definition embed_state :: "'w rlstate \<Rightarrow> 'w flstate" where
  "embed_state s = (embed (fst s), snd s)"

lemma Allow_embed:
  assumes "limiter_ok (fst s)" "burst (fst s) < 2 ^ 1024"
  shows "fl_Allow key (embed_state s) = (fst (Allow key s), embed_state (snd (Allow key s)))"
proof (cases s)
  case (Pair rl w)
  let ?t = "fst (rl_now rl w)"
  let ?b = "case buckets rl key of None \<Rightarrow> fresh_bucket (burst rl) ?t | Some b \<Rightarrow> b"
  have ok: "0 < rate rl" "representable (burst rl)" "bucket_ok (burst rl) ?b"
    using assms(1) fresh_bucket_ok by (auto simp: Pair limiter_ok_def split: option.split)
  have b: "(case fl_buckets (embed rl) key of None \<Rightarrow> fl_fresh (fl_burst (embed rl)) ?t | Some b \<Rightarrow> b) = embed_bucket ?b"
    by (simp add: embed_def fl_fresh_def fresh_bucket_def embed_bucket_def split: option.split)
  have t: "fl_take_token (Finite (rate rl)) (Finite (burst rl)) ?t (embed_bucket ?b) =
      (fst (take_token (rate rl) (burst rl) ?t ?b), embed_bucket (snd (take_token (rate rl) (burst rl) ?t ?b)))"
    using assms(2) by (intro take_token_embed ok) (simp add: Pair)
  have e: "fl_now (embed rl) = rl_now rl" "fl_rate (embed rl) = Finite (rate rl)" "fl_burst (embed rl) = Finite (burst rl)"
    "\<And>m. (embed rl)\<lparr>fl_buckets := m\<rparr> = \<lparr>fl_rate = Finite (rate rl), fl_burst = Finite (burst rl), fl_ttl = ttl rl, fl_now = rl_now rl,
       fl_stopped = stopped rl, fl_buckets = m\<rparr>"
    by (simp_all add: embed_def)
  show ?thesis unfolding Pair embed_state_def fst_conv snd_conv fl_Allow_eq Allow_eq Let_def e(1) b
    unfolding e t by (simp add: embed_def fun_eq_iff)
qed

lemma evict_embed: "fl_evict (embed_state s) = embed_state (evict s)"
  by (cases s) (auto simp: fl_evict_def evict_def embed_state_def embed_def embed_bucket_def Let_def split_beta fun_eq_iff split: option.split)

lemma evictLoop_embed: "fl_evictLoop es (embed_state s) = embed_state (evictLoop es s)"
  by (induction es s rule: evictLoop.induct) (simp_all add: evict_embed)

lemma step_embed:
  assumes "limiter_ok (fst s)" "burst (fst s) < 2 ^ 1024"
  shows "fl_step (embed_state s) e = embed_state (limiter_step s e)"
proof (cases e)
  case CloseCall
  then show ?thesis by (simp add: embed_state_def fl_Close_def RateLimiter_Close_def embed_def)
qed (simp_all add: Allow_embed [OF assms] evictLoop_embed)

lemma New_embed:
  "fl_NewRateLimiter tn (embed_config c) = embed (NewRateLimiter tn c)"
  by (simp add: fl_NewRateLimiter_def NewRateLimiter_def embed_config_def embed_def f64_int64_def Let_def)

lemma New_burst:
  assumes "burst_fits c" "Burst c < 2 ^ 63" shows "burst (NewRateLimiter tn c) < 2 ^ 1024"
proof -
  have "burst (NewRateLimiter tn c) \<le> float64_of_int (2 ^ 63)"
    using assms unfolding NewRateLimiter_def
    by (auto simp: burst_fits_def Let_def int64_of_def intro!: float64_of_int_mono)
  also have "\<dots> = 2 ^ 63" using representable_power2 [of 63] by (simp add: float64_of_int_def)
  also have "\<dots> < (2 ^ 1024 :: rat)" by (rule power_strict_increasing) simp_all
  finally show ?thesis .
qed

text \<open>
  C30. For every finite rate the limiter over binary64 behaves as the one over the rationals, to the
  nanosecond: whatever calls, evictions and Close do and whatever the clock shows, the two stay in
  corresponding states and the next call gets the same answer, also where a sum or a quotient overflows.
\<close>

theorem limiter_refines:
  assumes "burst_fits c" "Burst c < 2 ^ 63"
  shows "foldl fl_step (fl_NewRateLimiter tn (embed_config c), w) es = embed_state (foldl limiter_step (NewRateLimiter tn c, w) es) \<and>
    fst (fl_Allow key (foldl fl_step (fl_NewRateLimiter tn (embed_config c), w) es)) =
      fst (Allow key (foldl limiter_step (NewRateLimiter tn c, w) es))"
proof -
  let ?s = "(NewRateLimiter tn c, w)"
  have inv: "limiter_ok (fst (foldl limiter_step ?s es))" "burst (fst (foldl limiter_step ?s es)) < 2 ^ 1024" for es
    using rate_limiter_invariant [OF assms(1)] New_burst [OF assms, of tn] rlp.rel_run [of ?s es] by simp_all
  have run: "foldl fl_step (fl_NewRateLimiter tn (embed_config c), w) es = embed_state (foldl limiter_step ?s es)"
  proof (induction es rule: rev_induct)
    case (snoc e es)
    then show ?case using step_embed [OF inv [of es]] by simp
  qed (simp add: embed_state_def New_embed)
  then show ?thesis using Allow_embed [OF inv [of es]] by simp
qed

lemma limiter_refines_witness:
  "fst (fl_Allow ''a'' (foldl fl_step (fl_NewRateLimiter reading (embed_config (wit_limits 1 2)), [0, 0, 500000000])
     [AllowCall ''a'', AllowCall ''a''])) = (False, 500000000)"
proof -
  have "burst_fits (wit_limits 1 2)" "Burst (wit_limits 1 2) < 2 ^ 63" by (simp_all add: burst_fits_def wit_limits_def)
  note r = limiter_refines [OF this, of reading "[0, 0, 500000000]" "[AllowCall ''a'', AllowCall ''a'']" "''a''", THEN conjunct2]
  show ?thesis unfolding r by (simp add: wit_limits_new Allow_eq Let_def wit_takes)
qed


section \<open>Rates that are not numbers\<close>

text \<open>
  A rate of NaN passes the check of the constructor, since every comparison with it is false. The first
  call at an instant after a bucket was made adds NaN to it, and from then on the bucket is NaN: no cap
  applies, no comparison admits, and the client is refused for as long as it keeps trying.
\<close>

definition poisoned :: "string \<Rightarrow> 'w flstate \<Rightarrow> bool" where
  "poisoned key s \<longleftrightarrow> (\<exists>b. fl_buckets (fst s) key = Some b \<and> fl_tokens b = NaN)"

lemma f64_add_NaN [simp]: "f64_add NaN v = NaN" "f64_add v NaN = NaN"
  by (cases v; simp)+

lemma f64_NaN [simp]: "f64_sub v NaN = NaN" "f64_div NaN v = NaN" "f64_mul NaN v = NaN" "f64_mul v NaN = NaN"
  by (cases v; simp add: f64_sub_def)+

lemma float64_less_NaN [simp]: "\<not> float64_less v NaN"
  by (cases v) simp_all

lemma fl_New_NaN:
  assumes "fl_RequestsPerSecond c = NaN" shows "fl_rate (fl_NewRateLimiter tn c) = NaN"
  using assms by (simp add: fl_NewRateLimiter_def Let_def)

lemma fl_take_NaN:
  assumes "fl_tokens b = NaN" shows "fl_take_token rt bst t b = ((False, - (2 ^ 63)), (snd (fl_take_token rt bst t b))) \<and>
    fl_tokens (snd (fl_take_token rt bst t b)) = NaN"
proof -
  have "fl_tokens (fl_refill rt bst t b) = NaN" using assms by (simp add: fl_refill_def Let_def)
  then show ?thesis by (simp add: fl_take_token_def Let_def f64_int64_def)
qed

lemma poisoned_refused:
  assumes "poisoned key s"
  shows "fst (fl_Allow key s) = (False, - (2 ^ 63))" "poisoned key (snd (fl_Allow k s))"
proof -
  obtain rl w b where s: "s = (rl, w)" "fl_buckets rl key = Some b" "fl_tokens b = NaN"
    using assms unfolding poisoned_def by (metis prod.collapse)
  show "fst (fl_Allow key s) = (False, - (2 ^ 63))"
    using fl_take_NaN [OF s(3)] by (simp add: s fl_Allow_eq Let_def) (metis fst_conv)
  show "poisoned key (snd (fl_Allow k s))"
  proof (cases "k = key")
    case True
    then show ?thesis using fl_take_NaN [OF s(3)] by (simp add: s poisoned_def fl_Allow_eq Let_def)
  qed (use s in \<open>simp add: poisoned_def fl_Allow_eq Let_def\<close>)
qed

lemma nan_rate_poisons:
  assumes "fl_rate (fst s) = NaN" "fl_buckets (fst s) key = Some b"
    and "0 < Seconds (time_Sub (fst (fl_now (fst s) (snd s))) (fl_last b))"
  shows "\<not> fst (fst (fl_Allow key s))" "poisoned key (snd (fl_Allow key s))"
proof -
  obtain rl w where s: "s = (rl, w)" by (rule prod.exhaust)
  let ?t = "fst (fl_now rl w)"
  have "fl_tokens (fl_refill NaN (fl_burst rl) ?t b) = NaN" using assms(3) by (simp add: s fl_refill_def Let_def)
  then have "\<not> fst (fst (fl_take_token NaN (fl_burst rl) ?t b)) \<and> fl_tokens (snd (fl_take_token NaN (fl_burst rl) ?t b)) = NaN"
    by (simp add: fl_take_token_def Let_def)
  then show "\<not> fst (fst (fl_Allow key s))" "poisoned key (snd (fl_Allow key s))"
    using assms(1,2) by (simp_all add: s fl_Allow_eq Let_def poisoned_def)
qed

interpretation nan: stepping "\<lambda>s k. snd (fl_Allow k s)" "poisoned key" for key
  by unfold_locales (rule poisoned_refused(2))

text \<open>So a client whose second request comes later than its first is never admitted again.\<close>

lemma nan_rate_locks_out:
  assumes "fl_rate (fst s) = NaN" "fl_buckets (fst s) key = Some b"
    and "0 < Seconds (time_Sub (fst (fl_now (fst s) (snd s))) (fl_last b))"
  shows "\<not> fst (fst (fl_Allow key (foldl (\<lambda>s k. snd (fl_Allow k s)) (snd (fl_Allow key s)) ks)))"
  using poisoned_refused(1) [OF nan.good_run [OF nan_rate_poisons(2) [OF assms]]] by simp

text \<open>
  An infinite rate does not limit at all: every call at an instant after the last finds a full bucket.
\<close>

lemma infinite_rate_admits:
  assumes "fl_rate (fst s) = Infinity True" "fl_burst (fst s) = Finite n" "1 \<le> n"
    and "fl_buckets (fst s) key = Some b" "fl_tokens b = Finite x"
    and "0 < Seconds (time_Sub (fst (fl_now (fst s) (snd s))) (fl_last b))"
  shows "fst (fst (fl_Allow key s))"
proof -
  obtain rl w where s: "s = (rl, w)" by (rule prod.exhaust)
  have "fl_tokens (fl_refill (Infinity True) (Finite n) (fst (fl_now rl w)) b) = Finite n"
    using assms(5,6) by (simp add: s fl_refill_def Let_def)
  then show ?thesis using assms(1-4) by (simp add: s fl_Allow_eq Let_def fl_take_token_def)
qed

end
