(* ===== verification/Auth.thy ===== *)
theory Auth
  imports Middleware Limiter "HOL-Library.AList"
begin

text \<open>
  The gateway's front door: API keys (\<open>internal/gateway/auth.go\<close>) and the HTTP side of the rate
  limiter (\<open>Middleware\<close> of \<open>internal/gateway/ratelimit.go\<close>).

  SHA-256 is the argument \<open>sha\<close>. That different keys have different digests is a hypothesis of the
  theorems that need it, on the keys involved. Go visits the entries of a map in an unspecified
  order: \<open>ParseKeySpec\<close> takes that order as the argument \<open>visit\<close>, which permutes the entries.
\<close>

section \<open>The key store\<close>

definition AnonymousClient :: string where
  "AnonymousClient = ''anonymous''"

record APIKeyStore =
  byDigest :: "(string \<times> string) list"

definition digest :: "(string \<Rightarrow> string) \<Rightarrow> string \<Rightarrow> string" where
  "digest sha key = hex_EncodeToString (sha key)"

definition add_key :: "(string \<Rightarrow> string) \<Rightarrow> APIKeyStore \<Rightarrow> string \<times> string \<Rightarrow> APIKeyStore" where
  "add_key sha s = (\<lambda>(clientID, key).
     if key = [] then s else s\<lparr>byDigest := AList.update (digest sha key) clientID (byDigest s)\<rparr>)"

definition NewAPIKeyStore :: "(string \<Rightarrow> string) \<Rightarrow> (string \<times> string) list \<Rightarrow> APIKeyStore" where
  "NewAPIKeyStore sha keys = foldl (add_key sha) \<lparr>byDigest = []\<rparr> keys"

definition parse_pair :: "string \<Rightarrow> (string \<times> string) option" where
  "parse_pair pair =
     (let pair = TrimSpace pair
      in if pair = [] then None
         else (case Cut CHR '':'' pair of
           (clientID, key, ok) \<Rightarrow>
             if \<not> ok then None
             else let clientID = TrimSpace clientID; key = TrimSpace key
                  in if clientID = [] \<or> key = [] then None else Some (clientID, key)))"

definition ParseKeySpec ::
  "(string \<Rightarrow> string) \<Rightarrow> ((string \<times> string) list \<Rightarrow> (string \<times> string) list) \<Rightarrow> string \<Rightarrow> APIKeyStore" where
  "ParseKeySpec sha visit spec =
     (let keys = foldl (\<lambda>keys pair. case parse_pair pair of None \<Rightarrow> keys | Some (c, k) \<Rightarrow> AList.update c k keys)
                   [] (Split CHR '','' spec)
      in NewAPIKeyStore sha (visit keys))"

definition Len :: "APIKeyStore \<Rightarrow> nat" where
  "Len s = length (byDigest s)"

definition Lookup :: "(string \<Rightarrow> string) \<Rightarrow> APIKeyStore \<Rightarrow> string \<Rightarrow> string \<times> bool" where
  "Lookup sha s key =
     (if key = [] then ([], False)
      else let want = digest sha key
           in foldl (\<lambda>acc (stored, i). if stored = want then (i, True) else acc) ([], False) (byDigest s))"

section \<open>Authentication\<close>

definition presentedKey :: "'w Request \<Rightarrow> string" where
  "presentedKey r =
     (let h = Header_Get (ReqHeader r) ''Authorization''; fallback = TrimSpace (Header_Get (ReqHeader r) ''X-API-Key'')
      in if h \<noteq> []
         then (case CutPrefix h ''Bearer '' of (key, ok) \<Rightarrow> if ok then TrimSpace key else fallback)
         else fallback)"

definition withClient :: "string \<Rightarrow> 'w RequestContext \<Rightarrow> 'w RequestContext" where
  "withClient clientID ctx = ctx\<lparr>ctxClientID := Some clientID\<rparr>"

definition ClientFrom :: "'w RequestContext \<Rightarrow> string" where
  "ClientFrom ctx = (case ctxClientID ctx of Some i \<Rightarrow> if i \<noteq> [] then i else AnonymousClient | None \<Rightarrow> AnonymousClient)"

definition RateLimitKey :: "'w Request \<Rightarrow> string" where
  "RateLimitKey r = ClientFrom (Ctx r)"

definition unauthorized :: "'w Request \<Rightarrow> 'v wop list" where
  "unauthorized r = HeaderSet ''WWW-Authenticate'' (''Bearer realm='' @ [CHR 0x22] @ ''platform'' @ [CHR 0x22])
     # WriteProblem r 401 ''unauthorized''
         (''A valid API key is required. Send it as '' @ [CHR 0x27] @ ''Authorization: Bearer <key>'' @ [CHR 0x27] @ ''.'')"

definition Authenticate :: "(string \<Rightarrow> string) \<Rightarrow> APIKeyStore option \<Rightarrow> ('v, 'w) Middleware" where
  "Authenticate sha store next r w =
     (let run_as = (\<lambda>c. let (x, w) = next (WithContext (withClient c (Ctx r)) r) w in (x\<lparr>patternAfter := Pattern r\<rparr>, w))
      in case store of
           None \<Rightarrow> run_as AnonymousClient
         | Some s \<Rightarrow>
             if Len s = 0 then run_as AnonymousClient
             else (case Lookup sha s (presentedKey r) of
                     (clientID, ok) \<Rightarrow> if \<not> ok then (respond r (unauthorized r), w) else run_as clientID))"

section \<open>The limiter's middleware\<close>

text \<open>
  The limiter is a component of the process: \<open>get\<close> and \<open>put\<close> read and replace its state, and the
  part of the world its clock lives in, within the whole world.
\<close>

definition zoom :: "('x \<Rightarrow> 's) \<Rightarrow> ('s \<Rightarrow> 'x \<Rightarrow> 'x) \<Rightarrow> ('s \<Rightarrow> 'a \<times> 's) \<Rightarrow> 'x \<Rightarrow> 'a \<times> 'x" where
  "zoom get put f x = (let (a, s) = f (get x) in (a, put s x))"

definition rate_limited :: "'w Request \<Rightarrow> duration \<Rightarrow> 'v wop list" where
  "rate_limited r retryAfter = HeaderSet ''Retry-After'' (Itoa (retryAfterSeconds retryAfter))
     # WriteProblem r 429 ''rate_limited'' ''Request rate exceeded. Retry after the interval in the Retry-After header.''"

definition RateLimiter_Middleware ::
  "('x \<Rightarrow> 'w flstate) \<Rightarrow> ('w flstate \<Rightarrow> 'x \<Rightarrow> 'x) \<Rightarrow> ('x Request \<Rightarrow> string) \<Rightarrow> ('v, 'x) Middleware" where
  "RateLimiter_Middleware get put keyFor next r x =
     (let ((ok, retryAfter), x) = zoom get put (fl_Allow (keyFor r)) x
      in if \<not> ok then (respond r (rate_limited r retryAfter), x) else next r x)"

section \<open>What a store resolves\<close>

definition store_ok :: "APIKeyStore \<Rightarrow> bool" where
  "store_ok s \<longleftrightarrow> distinct (map fst (byDigest s))"

interpretation keys: stepping "add_key sha" store_ok for sha
  by unfold_locales (auto simp: add_key_def store_ok_def distinct_update)

lemma NewAPIKeyStore_ok: "store_ok (NewAPIKeyStore sha ks)"
  unfolding NewAPIKeyStore_def by (rule keys.good_run) (simp add: store_ok_def)

lemma scan_no_match:
  "want \<notin> fst ` set ds \<Longrightarrow> foldl (\<lambda>acc (stored, i). if stored = want then (i, True) else acc) a ds = a"
  by (induction ds arbitrary: a) auto

lemma scan_digests:
  assumes "distinct (map fst ds)"
  shows "foldl (\<lambda>acc (stored, i). if stored = want then (i, True) else acc) a ds =
    (case map_of ds want of Some i \<Rightarrow> (i, True) | None \<Rightarrow> a)"
  using assms
proof (induction ds arbitrary: a)
  case (Cons d ds)
  obtain x i where d: "d = (x, i)" by fastforce
  show ?case
  proof (cases "x = want")
    case True
    with Cons.prems have "want \<notin> fst ` set ds" by (simp add: d)
    with True show ?thesis by (simp add: d scan_no_match)
  qed (use Cons d in simp)
qed simp

lemma Lookup_eq:
  "store_ok s \<Longrightarrow> Lookup sha s key =
     (if key = [] then ([], False)
      else case map_of (byDigest s) (digest sha key) of Some i \<Rightarrow> (i, True) | None \<Rightarrow> ([], False))"
  by (simp add: Lookup_def Let_def scan_digests store_ok_def)

lemma add_key_map:
  "map_of (byDigest (add_key sha s (c, k))) =
     (if k = [] then map_of (byDigest s) else (map_of (byDigest s))(digest sha k \<mapsto> c))"
  by (simp add: add_key_def update_conv')

text \<open>Entries that a store has come from keys it was built from.\<close>

lemma stored_entry:
  "map_of (byDigest (foldl (add_key sha) s ks)) d = Some c \<Longrightarrow>
     map_of (byDigest s) d = Some c \<or> (\<exists>k. (c, k) \<in> set ks \<and> k \<noteq> [] \<and> digest sha k = d)"
proof (induction ks arbitrary: s)
  case (Cons p ks)
  obtain c' k where p: "p = (c', k)" by fastforce
  from Cons.prems have "map_of (byDigest (add_key sha s p)) d = Some c \<or>
      (\<exists>k. (c, k) \<in> set ks \<and> k \<noteq> [] \<and> digest sha k = d)" by (intro Cons.IH) simp
  then show ?case by (auto simp: p add_key_map split: if_splits)
qed simp

lemma stored_dom:
  "(\<exists>c. (c, k) \<in> set ks) \<and> k \<noteq> [] \<or> digest sha k \<in> dom (map_of (byDigest s)) \<Longrightarrow>
     digest sha k \<in> dom (map_of (byDigest (foldl (add_key sha) s ks)))"
proof (induction ks arbitrary: s)
  case (Cons p ks)
  obtain c' k' where p: "p = (c', k')" by fastforce
  have "(\<exists>c. (c, k) \<in> set ks) \<and> k \<noteq> [] \<or> digest sha k \<in> dom (map_of (byDigest (add_key sha s p)))"
    using Cons.prems by (auto simp: p add_key_map)
  from Cons.IH [OF this] show ?case by simp
qed auto

lemma digest_inj: "inj_on sha A \<Longrightarrow> k \<in> A \<Longrightarrow> k' \<in> A \<Longrightarrow> digest sha k = digest sha k' \<Longrightarrow> k = k'"
  unfolding digest_def by (drule hex_EncodeToString_inj) (rule inj_onD)

lemma Lookup_New:
  assumes "inj_on sha (insert key (snd ` set ks))"
  shows "snd (Lookup sha (NewAPIKeyStore sha ks) key) = (key \<noteq> [] \<and> key \<in> snd ` set ks)"
    and "snd (Lookup sha (NewAPIKeyStore sha ks) key) \<Longrightarrow>
      (fst (Lookup sha (NewAPIKeyStore sha ks) key), key) \<in> set ks"
proof -
  note L = Lookup_eq [OF NewAPIKeyStore_ok, of sha sha ks key]
  have found: "(c, key) \<in> set ks" if m: "map_of (byDigest (NewAPIKeyStore sha ks)) (digest sha key) = Some c" for c
  proof -
    from stored_entry [OF m [unfolded NewAPIKeyStore_def]] obtain k where
      k: "(c, k) \<in> set ks" "digest sha k = digest sha key" by auto
    from k(1) have "k \<in> snd ` set ks" by (rule image_eqI [rotated]) simp
    then have "k = key" by (intro digest_inj [OF assms _ _ k(2)]) blast+
    with k show ?thesis by simp
  qed
  have dom: "map_of (byDigest (NewAPIKeyStore sha ks)) (digest sha key) \<noteq> None" if "key \<noteq> []" "key \<in> snd ` set ks"
  proof -
    from that have "\<exists>c. (c, key) \<in> set ks" by auto
    with that(1) have "digest sha key \<in> dom (map_of (byDigest (foldl (add_key sha) \<lparr>byDigest = []\<rparr> ks)))"
      by (intro stored_dom) blast
    then show ?thesis by (auto simp: NewAPIKeyStore_def)
  qed
  show "snd (Lookup sha (NewAPIKeyStore sha ks) key) = (key \<noteq> [] \<and> key \<in> snd ` set ks)"
  proof (cases "map_of (byDigest (NewAPIKeyStore sha ks)) (digest sha key)")
    case (Some c)
    have "key \<in> snd ` set ks" using found [OF Some] by (rule image_eqI [rotated]) simp
    with Some show ?thesis by (simp add: L)
  qed (use dom in \<open>auto simp: L\<close>)
  show "(fst (Lookup sha (NewAPIKeyStore sha ks) key), key) \<in> set ks"
    if "snd (Lookup sha (NewAPIKeyStore sha ks) key)"
    using that found by (auto simp: L split: if_splits option.splits)
qed

text \<open>
  A store accepts exactly the configured non-empty keys, and names a client that was configured
  with the presented key, as long as SHA-256 tells the keys involved apart.
\<close>

theorem lookup_exact:
  assumes "inj_on sha (insert key (snd ` set ks))"
  shows "snd (Lookup sha (NewAPIKeyStore sha ks) key) = (key \<noteq> [] \<and> key \<in> snd ` set ks) \<and>
    (snd (Lookup sha (NewAPIKeyStore sha ks) key) \<longrightarrow>
       (fst (Lookup sha (NewAPIKeyStore sha ks) key), key) \<in> set ks)"
  using Lookup_New [OF assms] by blast

lemma lookup_exact_witness:
  "snd (Lookup (\<lambda>k. k) (NewAPIKeyStore (\<lambda>k. k) [(''web'', ''k1''), (''ops'', [])]) ''k1'') \<and>
   \<not> snd (Lookup (\<lambda>k. k) (NewAPIKeyStore (\<lambda>k. k) [(''web'', ''k1''), (''ops'', [])]) [])"
  using lookup_exact [of "\<lambda>k. k" "''k1''" "[(''web'', ''k1''), (''ops'', [])]"]
    lookup_exact [of "\<lambda>k. k" "[]" "[(''web'', ''k1''), (''ops'', [])]"] by simp

section \<open>The key specification\<close>

text \<open>The specification that lists clients and keys, and what a client or key may be for it.\<close>

fun print_spec :: "(string \<times> string) list \<Rightarrow> string" where
  "print_spec [] = []"
| "print_spec [(c, k)] = c @ '':'' @ k"
| "print_spec ((c, k) # es) = c @ '':'' @ k @ '','' @ print_spec es"

definition clean_entry :: "string \<times> string \<Rightarrow> bool" where
  "clean_entry e \<longleftrightarrow> (case e of (c, k) \<Rightarrow>
     c \<noteq> [] \<and> k \<noteq> [] \<and> CHR '','' \<notin> set c \<and> CHR '','' \<notin> set k \<and> CHR '':'' \<notin> set c \<and>
     TrimSpace c = c \<and> TrimSpace k = k \<and> TrimSpace (c @ '':'' @ k) = c @ '':'' @ k)"

lemma parse_pair_clean: "clean_entry (c, k) \<Longrightarrow> parse_pair (c @ '':'' @ k) = Some (c, k)"
  by (auto simp: clean_entry_def parse_pair_def Let_def Cut_append_sep)

definition spec_step :: "(string \<times> string) list \<Rightarrow> string \<Rightarrow> (string \<times> string) list" where
  "spec_step ks pair = (case parse_pair pair of None \<Rightarrow> ks | Some (c, k) \<Rightarrow> AList.update c k ks)"

lemma spec_step_clean: "clean_entry (c, k) \<Longrightarrow> spec_step ks (c @ CHR '':'' # k) = AList.update c k ks"
  using parse_pair_clean [of c k] by (simp add: spec_step_def)

lemma spec_entries:
  assumes "list_all clean_entry es" "es \<noteq> []"
  shows "foldl spec_step ks (Split CHR '','' (print_spec es)) = foldl (\<lambda>ks (c, k). AList.update c k ks) ks es"
  using assms
proof (induction es arbitrary: ks rule: print_spec.induct)
  case (2 c k)
  then have "Split CHR '','' (c @ '':'' @ k) = [c @ '':'' @ k]"
    by (intro Split_no_sep) (auto simp: clean_entry_def)
  with 2 show ?case by (simp add: spec_step_clean)
next
  case (3 c k e es)
  then have n: "CHR '','' \<notin> set (c @ '':'' @ k)" by (auto simp: clean_entry_def)
  from Split_append_sep [OF n, of "print_spec (e # es)"] 3 show ?case by (simp add: spec_step_clean)
qed simp

lemma update_fresh: "c \<notin> fst ` set ks \<Longrightarrow> AList.update c k ks = ks @ [(c, k)]"
  by (induction ks) auto

lemma update_entries:
  assumes "distinct (map fst es)" "fst ` set ks \<inter> fst ` set es = {}"
  shows "foldl (\<lambda>ks (c, k). AList.update c k ks) ks es = ks @ es"
  using assms
proof (induction es arbitrary: ks)
  case (Cons e es)
  obtain c k where e: "e = (c, k)" by fastforce
  from Cons.prems have "AList.update c k ks = ks @ [(c, k)]" by (intro update_fresh) (auto simp: e)
  moreover have "foldl (\<lambda>ks (c, k). AList.update c k ks) (ks @ [(c, k)]) es = (ks @ [(c, k)]) @ es"
    using Cons.prems by (intro Cons.IH) (auto simp: e)
  ultimately show ?case by (simp add: e)
qed simp

lemma ParseKeySpec_print:
  assumes "list_all clean_entry es" "es \<noteq> []" "distinct (map fst es)"
  shows "ParseKeySpec sha visit (print_spec es) = NewAPIKeyStore sha (visit es)"
proof -
  have "foldl spec_step [] (Split CHR '','' (print_spec es)) = es"
    using spec_entries [OF assms(1,2), of "[]"] update_entries [OF assms(3), of "[]"] by simp
  then show ?thesis
    unfolding ParseKeySpec_def spec_step_def [abs_def] by (simp add: Let_def)
qed

text \<open>
  C36. Reading back a printed key specification gives a store that resolves every listed key to its
  client, in whatever order Go visits the entries, when clients and keys are distinct, trimmed and
  free of the separators.
\<close>

theorem keyspec_roundtrip:
  assumes "list_all clean_entry es" "distinct (map fst es)" "distinct (map snd es)"
    and "set (visit es) = set es" "inj_on sha (snd ` set es)" "(c, k) \<in> set es"
  shows "Lookup sha (ParseKeySpec sha visit (print_spec es)) k = (c, True)"
proof -
  have "es \<noteq> []" using assms(6) by auto
  with assms have P: "ParseKeySpec sha visit (print_spec es) = NewAPIKeyStore sha (visit es)"
    by (simp add: ParseKeySpec_print)
  have k: "k \<noteq> []" "k \<in> snd ` set es"
    using assms(1,6) by (force simp: list_all_iff clean_entry_def)+
  then have "inj_on sha (insert k (snd ` set (visit es)))" using assms(4,5) by (simp add: insert_absorb)
  from Lookup_New [OF this] k assms(4) have "snd (Lookup sha (NewAPIKeyStore sha (visit es)) k)"
    "(fst (Lookup sha (NewAPIKeyStore sha (visit es)) k), k) \<in> set es" by auto
  moreover have "c' = c" if "(c', k) \<in> set es" for c'
    using that assms(3,6) by (simp add: eq_key_imp_eq_value distinct_map inj_on_def) (metis snd_conv fst_conv)
  ultimately show ?thesis by (simp add: P prod_eq_iff)
qed

lemma keyspec_roundtrip_witness:
  "Lookup (\<lambda>k. k) (ParseKeySpec (\<lambda>k. k) rev (print_spec [(''web'', ''k-1''), (''ops'', ''k:2'')])) ''k:2'' = (''ops'', True)"
proof -
  have "list_all clean_entry [(''web'', ''k-1''), (''ops'', ''k:2'')]" by code_simp
  then show ?thesis by (intro keyspec_roundtrip) (simp_all add: insert_commute)
qed

section \<open>The front door\<close>

text \<open>
  With keys configured, a request that presents none of them gets a 401 problem; the rest of the
  chain does not run, so the world, rate-limit buckets included, is unchanged.
\<close>

theorem authenticate_rejects:
  assumes "inj_on sha (insert (presentedKey r) (snd ` set ks))"
    and "\<exists>(c, k) \<in> set ks. k \<noteq> []" "presentedKey r \<notin> snd ` set ks - {[]}"
  shows "let (x, w') = Authenticate sha (Some (NewAPIKeyStore sha ks)) next r w
    in w' = w \<and> ending x = Returned \<and> reply_status (reply_of (ops x)) = 401 \<and>
       Header_Get (reply_header (reply_of (ops x))) ''WWW-Authenticate'' = ''Bearer realm='' @ [CHR 0x22] @ ''platform'' @ [CHR 0x22]"
proof -
  have "\<not> snd (Lookup sha (NewAPIKeyStore sha ks) (presentedKey r))"
    using Lookup_New(1) [OF assms(1)] assms(3) by auto
  moreover have "Len (NewAPIKeyStore sha ks) \<noteq> 0"
  proof -
    from assms(2) obtain c k where "(c, k) \<in> set ks" "k \<noteq> []" by auto
    then have "digest sha k \<in> dom (map_of (byDigest (NewAPIKeyStore sha ks)))"
      unfolding NewAPIKeyStore_def by (intro stored_dom) blast
    then show ?thesis by (cases "byDigest (NewAPIKeyStore sha ks)") (auto simp: Len_def)
  qed
  ultimately have "Authenticate sha (Some (NewAPIKeyStore sha ks)) next r w = (respond r (unauthorized r), w)"
    by (simp add: Authenticate_def split_beta)
  moreover have canonical: "CanonicalHeaderKey ''WWW-Authenticate'' \<noteq> CanonicalHeaderKey ''Content-Type''"
    by code_simp
  ultimately show ?thesis
    by (simp add: respond_def unauthorized_def WriteProblem_def reply_of_def new_reply_def reply_status_def
        reply_header_def bodyAllowed_def Header_Get_Set canonical)
qed

lemma authenticate_rejects_witness:
  "reply_status (reply_of (ops (fst (Authenticate (\<lambda>k. k) (Some (NewAPIKeyStore (\<lambda>k. k) [(''web'', ''k-1'')]))
     (\<lambda>r w. (respond r (WriteJSON 200 ()), w)) (wit_request ''GET'' ''/'' [''Authorization'' \<mapsto> [''Bearer nope'']] []) ())))) = 401"
proof -
  have "presentedKey (wit_request ''GET'' ''/'' [''Authorization'' \<mapsto> [''Bearer nope'']] [] :: unit Request) = ''nope''"
    by code_simp
  then show ?thesis
    using authenticate_rejects [of "\<lambda>k. k" "wit_request ''GET'' ''/'' [''Authorization'' \<mapsto> [''Bearer nope'']] []"
        "[(''web'', ''k-1'')]" "\<lambda>r w. (respond r (WriteJSON 200 ()), w)" "()"]
    by (simp add: split_beta Let_def)
qed

end
