(* ===== verification/Mux.thy ===== *)
theory Mux
  imports Middleware
begin

text \<open>
  What the services use of \<open>net/http\<close>'s \<open>ServeMux\<close> and of \<open>net/url\<close>: method-qualified patterns with
  single-segment wildcards, the pattern stored in the request that is served, the 404 and 405
  answers, the redirect of paths that are not clean, and the parsing of query strings.
\<close>

section \<open>Query strings\<close>

definition hex_value :: "char \<Rightarrow> nat option" where
  "hex_value c = (let n = (of_char c :: nat) in
     if 48 \<le> n \<and> n \<le> 57 then Some (n - 48) else if 97 \<le> n \<and> n \<le> 102 then Some (n - 87)
     else if 65 \<le> n \<and> n \<le> 70 then Some (n - 55) else None)"

fun QueryUnescape :: "string \<Rightarrow> string option" where
  "QueryUnescape [] = Some []"
| "QueryUnescape (c # cs) =
     (if c = CHR ''%'' then
        (case cs of
           a # b # rest \<Rightarrow>
             (case (hex_value a, hex_value b) of
                (Some x, Some y) \<Rightarrow> map_option (\<lambda>s. char_of (16 * x + y) # s) (QueryUnescape rest)
              | _ \<Rightarrow> None)
         | _ \<Rightarrow> None)
      else map_option (\<lambda>s. (if c = CHR ''+'' then CHR '' '' else c) # s) (QueryUnescape cs))"

definition parse_param :: "string \<Rightarrow> (string \<times> string) option" where
  "parse_param part =
     (if part = [] \<or> CHR '';'' \<in> set part then None
      else case Cut CHR ''='' part of (k, v, ok) \<Rightarrow>
        (case (QueryUnescape k, QueryUnescape v) of (Some k, Some v) \<Rightarrow> Some (k, v) | _ \<Rightarrow> None))"

definition ParseQuery :: "string \<Rightarrow> (string \<times> string) list" where
  "ParseQuery raw = List.map_filter parse_param (Split CHR ''&'' raw)"

text \<open>\<open>r.URL.Query().Get(key)\<close>: the first value of the key, or the empty string.\<close>

definition Query_Get :: "'w Request \<Rightarrow> string \<Rightarrow> string" where
  "Query_Get r key = (case map_of (ParseQuery (RawQuery r)) key of Some v \<Rightarrow> v | None \<Rightarrow> [])"

section \<open>Paths\<close>

fun join_path :: "string list \<Rightarrow> string" where
  "join_path [] = []"
| "join_path (s # ss) = CHR ''/'' # s @ join_path ss"

fun clean_segments :: "string list \<Rightarrow> string list \<Rightarrow> string list" where
  "clean_segments acc [] = rev acc"
| "clean_segments acc (s # ss) =
     (if s = [] \<or> s = ''.'' then clean_segments acc ss
      else if s = ''..'' then clean_segments (tl acc) ss
      else clean_segments (s # acc) ss)"

text \<open>\<open>cleanPath\<close>: rooted, without empty, dot or dot-dot segments, keeping a final slash.\<close>

definition cleanPath :: "string \<Rightarrow> string" where
  "cleanPath p =
     (let segs = clean_segments [] (Split CHR ''/'' p); np = (if segs = [] then ''/'' else join_path segs)
      in if p \<noteq> [] \<and> last p = CHR ''/'' \<and> np \<noteq> ''/'' then np @ ''/'' else np)"

section \<open>Routing\<close>

datatype seg = Lit string | Wild string

record ('v, 'w) Route =
  route_method :: string
  route_segs :: "seg list"
  route_pattern :: string
  route_handler :: "('v, 'w) Handler"

text \<open>Matching the segments of a path: the values of the wildcards, which are never empty.\<close>

fun match_segs :: "seg list \<Rightarrow> string list \<Rightarrow> (string \<times> string) list option" where
  "match_segs [] [] = Some []"
| "match_segs (Lit l # ss) (p # ps) = (if l = p then match_segs ss ps else None)"
| "match_segs (Wild x # ss) (p # ps) = (if p = [] then None else map_option (\<lambda>m. (x, p) # m) (match_segs ss ps))"
| "match_segs _ _ = None"

definition path_segs :: "string \<Rightarrow> string list" where
  "path_segs p = tl (Split CHR ''/'' p)"

definition method_ok :: "string \<Rightarrow> string \<Rightarrow> bool" where
  "method_ok m req \<longleftrightarrow> m = req \<or> m = ''GET'' \<and> req = ''HEAD''"

definition find_route :: "('v, 'w) Route list \<Rightarrow> string \<Rightarrow> string \<Rightarrow> (('v, 'w) Route \<times> (string \<times> string) list) option" where
  "find_route routes m p =
     (case find (\<lambda>rt. method_ok (route_method rt) m \<and> match_segs (route_segs rt) (path_segs p) \<noteq> None) routes of
        None \<Rightarrow> None
      | Some rt \<Rightarrow> Some (rt, the (match_segs (route_segs rt) (path_segs p))))"

definition allowed_methods :: "('v, 'w) Route list \<Rightarrow> string \<Rightarrow> string list" where
  "allowed_methods routes p =
     (let ms = map route_method (filter (\<lambda>rt. match_segs (route_segs rt) (path_segs p) \<noteq> None) routes)
      in sort (remdups (ms @ (if ''GET'' \<in> set ms then [''HEAD''] else []))))"

fun join_comma :: "string list \<Rightarrow> string" where
  "join_comma [] = []"
| "join_comma [s] = s"
| "join_comma (s # ss) = s @ '', '' @ join_comma ss"

text \<open>\<open>http.Error\<close>, whose body is the text and a newline.\<close>

definition http_Error :: "string \<Rightarrow> int \<Rightarrow> 'v wop list" where
  "http_Error msg code =
     [HeaderSet ''Content-Type'' ''text/plain; charset=utf-8'', HeaderSet ''X-Content-Type-Options'' ''nosniff'',
      SendHeader code, SendBody (Raw (msg @ [CHR 0x0A]))]"

text \<open>The redirect to a clean path; \<open>url\<close> prints a path and a query as an escaped URL.\<close>

definition redirect_ops :: "(string \<Rightarrow> string \<Rightarrow> string) \<Rightarrow> 'w Request \<Rightarrow> string \<Rightarrow> 'v wop list" where
  "redirect_ops url r p =
     (let get = Method r \<in> {''GET'', ''HEAD''}
      in [HeaderSet ''Location'' (url p (RawQuery r))]
         @ (if get then [HeaderSet ''Content-Type'' ''text/html; charset=utf-8''] else [])
         @ [SendHeader 301]
         @ (if Method r = ''GET'' then [SendBody (Raw (''<a href='' @ [CHR 0x22] @ url p (RawQuery r) @ [CHR 0x22]
              @ ''>Moved Permanently</a>.'' @ [CHR 0x0A, CHR 0x0A]))] else []))"

definition ServeMux :: "(string \<Rightarrow> string \<Rightarrow> string) \<Rightarrow> ('v, 'w) Route list \<Rightarrow> ('v, 'w) Handler" where
  "ServeMux url routes r w =
     (let p = cleanPath (Path r)
      in if p \<noteq> Path r
         then (\<lparr>ops = redirect_ops url r p, ending = Returned,
                patternAfter = (case find_route routes (Method r) p of Some (rt, m) \<Rightarrow> route_pattern rt | None \<Rightarrow> [])\<rparr>, w)
         else (case find_route routes (Method r) p of
             Some (rt, m) \<Rightarrow>
               let (x, w) = route_handler rt (r\<lparr>Pattern := route_pattern rt, PathValues := map_of m\<rparr>) w in (x, w)
           | None \<Rightarrow>
               let ms = allowed_methods routes p
               in if ms \<noteq> []
                  then (\<lparr>ops = HeaderSet ''Allow'' (join_comma ms) # http_Error ''Method Not Allowed'' 405,
                         ending = Returned, patternAfter = []\<rparr>, w)
                  else (\<lparr>ops = http_Error ''404 page not found'' 404, ending = Returned, patternAfter = []\<rparr>, w)))"

lemma find_route_None:
  "(\<And>rt. rt \<in> set routes \<Longrightarrow> \<not> method_ok (route_method rt) m \<or> match_segs (route_segs rt) (path_segs p) = None)
     \<Longrightarrow> find_route routes m p = None"
  by (auto simp: find_route_def find_None_iff split: option.split)

section \<open>Replies\<close>

lemma reply_problem:
  assumes "400 \<le> status"
  shows "reply_status (reply_of (WriteProblem r status code detail)) = status"
    "bodies (reply_of (WriteProblem r status code detail)) = [ProblemBody (problem r status code detail)]"
  using assms by (simp_all add: reply_of_def WriteProblem_def new_reply_def reply_status_def bodyAllowed_def)

lemma reply_JSON:
  assumes "200 \<le> status" "status < 204"
  shows "reply_status (reply_of (WriteJSON status v)) = status" "bodies (reply_of (WriteJSON status v)) = [JSON v]"
  using assms by (simp_all add: reply_of_def WriteJSON_def new_reply_def reply_status_def bodyAllowed_def)

lemma reply_HeaderSet:
  "reply_status (reply_of (HeaderSet k v # os)) = reply_status (reply_of os)"
  "bodies (reply_of (HeaderSet k v # os)) = bodies (reply_of os)"
proof -
  have "shown (reply_of (HeaderSet k v # os)) = shown (reply_of os)"
    using shown_visible [of new_reply "HeaderSet k v # os"] shown_visible [of new_reply os] by (simp add: reply_of_def)
  then show "reply_status (reply_of (HeaderSet k v # os)) = reply_status (reply_of os)"
    "bodies (reply_of (HeaderSet k v # os)) = bodies (reply_of os)" unfolding shown_fields by simp_all
qed

lemmas reply_simps = reply_problem reply_JSON reply_HeaderSet

definition run_status :: "'v run \<Rightarrow> int" where
  "run_status x = reply_status (reply_of (ops x))"

definition run_bodies :: "'v run \<Rightarrow> 'v payload list" where
  "run_bodies x = bodies (reply_of (ops x))"

lemma run_respond [simp]:
  "400 \<le> st \<Longrightarrow> run_status (respond r (WriteProblem r' st c d)) = st"
  "400 \<le> st \<Longrightarrow> run_bodies (respond r (WriteProblem r' st c d)) = [ProblemBody (problem r' st c d)]"
  "200 \<le> st \<Longrightarrow> st < 204 \<Longrightarrow> run_status (respond r (WriteJSON st v)) = st"
  "200 \<le> st \<Longrightarrow> st < 204 \<Longrightarrow> run_bodies (respond r (WriteJSON st v)) = [JSON v]"
  "run_status (respond r (HeaderSet k v' # os)) = run_status (respond r os)"
  "run_bodies (respond r (HeaderSet k v' # os)) = run_bodies (respond r os)"
  by (simp_all add: run_status_def run_bodies_def respond_def reply_simps)

end
