(* ===== verification/Gateway.thy ===== *)
theory Gateway
  imports Upstream Auth Mux
begin

text \<open>
  The public API of \<open>internal/gateway/handler.go\<close>. The gateway's state has the two breakers, the rate
  limiter and the world \<open>'w\<close> of the clock, the network and the logs; a call of an upstream acts on its
  breaker and on the world. The JSON encoder and decoder are arguments of the handler; the type
  \<open>'f\<close> of the readings and scores is what they make of a JSON number.
\<close>

section \<open>State and handler\<close>

record 'w gateway =
  gw_catalog :: "'w Breaker"
  gw_scorer :: "'w Breaker"
  gw_limiter :: "'w fl_RateLimiter"
  gw_base :: 'w

record 'f ScoreRequest =
  sr_DeviceID :: string
  sr_Readings :: "'f list"

text \<open>\<open>resp_Device\<close> is empty for a nil \<open>Device\<close>, which \<open>omitempty\<close> leaves out.\<close>

record 'f ScoreResponse =
  resp_DeviceID :: string
  resp_Score :: 'f
  resp_Anomaly :: bool
  resp_Device :: string
  resp_Degraded :: bool
  resp_Reason :: string

record DependencyStatus =
  dep_Name :: string
  dep_Breaker :: string

datatype 'f gateway_json = ScoreJSON "'f ScoreResponse" | DependenciesJSON "DependencyStatus list"

record 'w Upstreams =
  Catalog :: "'w Upstream"
  Scorer :: "'w Upstream"

record ('f, 'w) GatewayHandler =
  gh_up :: "'w Upstreams"
  degradeOnCatalogFailure :: bool
  gh_net :: "'w Net"
  gh_decode :: "ReqBody \<Rightarrow> go_error + 'f ScoreRequest"
  gh_marshal :: "string \<Rightarrow> 'f list \<Rightarrow> go_error + string"
  gh_score :: "string \<Rightarrow> go_error + 'f \<times> bool"
  gh_problem :: "string \<Rightarrow> go_error + Problem"
  gh_valid :: "string \<Rightarrow> bool"

definition maxReadings :: nat where
  "maxReadings = 4096"

definition emit :: "('f, 'w) GatewayHandler \<Rightarrow> event \<Rightarrow> 'w gateway \<Rightarrow> 'w gateway" where
  "emit h e s = s\<lparr>gw_base := env_emit (net_env (gh_net h)) e (gw_base s)\<rparr>"

text \<open>The request's context as a call of an upstream sees it, with only the world moving.\<close>

definition base_ctx :: "'w gateway \<Rightarrow> 'w gateway Context \<Rightarrow> 'w Context" where
  "base_ctx s ctx = \<lparr>ctx_Err = (\<lambda>w. ctx_Err ctx (s\<lparr>gw_base := w\<rparr>)), ctx_Deadline = ctx_Deadline ctx\<rparr>"

definition on_catalog :: "('w bstate \<Rightarrow> 'a \<times> 'w bstate) \<Rightarrow> 'w gateway \<Rightarrow> 'a \<times> 'w gateway" where
  "on_catalog f s = (let (a, (b, w)) = f (gw_catalog s, gw_base s) in (a, s\<lparr>gw_catalog := b, gw_base := w\<rparr>))"

definition on_scorer :: "('w bstate \<Rightarrow> 'a \<times> 'w bstate) \<Rightarrow> 'w gateway \<Rightarrow> 'a \<times> 'w gateway" where
  "on_scorer f s = (let (a, (b, w)) = f (gw_scorer s, gw_base s) in (a, s\<lparr>gw_scorer := b, gw_base := w\<rparr>))"

section \<open>Helpers\<close>

definition decodeJSON :: "('f, 'w) GatewayHandler \<Rightarrow> 'x Request \<Rightarrow> go_error + 'f ScoreRequest" where
  "decodeJSON h r =
     (case gh_decode h (Body r) of Inl err \<Rightarrow> Inl (Wrapf ''request body is not valid JSON: '' err []) | Inr v \<Rightarrow> Inr v)"

definition forwardHeaders :: "'x Request \<Rightarrow> (string \<times> string) list" where
  "forwardHeaders r =
     (let i = RequestIDFrom (Ctx r); client = ClientFrom (Ctx r); key = Header_Get (ReqHeader r) ''Idempotency-Key''
      in (if i \<noteq> [] then [(RequestIDHeader, i)] else [])
         @ (if client \<noteq> [] then [(''X-Client-Id'', client)] else [])
         @ (if key \<noteq> [] then [(''Idempotency-Key'', key)] else []))"

definition catalog_Get ::
  "('f, 'w) GatewayHandler \<Rightarrow> 'w gateway Request \<Rightarrow> string \<Rightarrow> 'w gateway \<Rightarrow> (go_error + Response option) \<times> 'w gateway" where
  "catalog_Get h r path s =
     on_catalog (Upstream_Get (gh_net h) (Catalog (gh_up h)) (base_ctx s (std (Ctx r))) (RequestIDFrom (Ctx r)) path
       (forwardHeaders r)) s"

definition catalog_Post ::
  "('f, 'w) GatewayHandler \<Rightarrow> 'w gateway Request \<Rightarrow> string \<Rightarrow> string \<Rightarrow> 'w gateway \<Rightarrow>
   (go_error + Response option) \<times> 'w gateway" where
  "catalog_Post h r path body s =
     on_catalog (Upstream_Post (gh_net h) (Catalog (gh_up h)) (base_ctx s (std (Ctx r))) (RequestIDFrom (Ctx r)) path
       (Some body) (forwardHeaders r)) s"

definition scorer_Post ::
  "('f, 'w) GatewayHandler \<Rightarrow> 'w gateway Request \<Rightarrow> string \<Rightarrow> string \<Rightarrow> 'w gateway \<Rightarrow>
   (go_error + Response option) \<times> 'w gateway" where
  "scorer_Post h r path body s =
     on_scorer (Upstream_Post (gh_net h) (Scorer (gh_up h)) (base_ctx s (std (Ctx r))) (RequestIDFrom (Ctx r)) path
       (Some body) (forwardHeaders r)) s"

text \<open>The panic of Go when a nil pointer is dereferenced, and of \<open>WriteHeader\<close> for a code below 100.\<close>

definition panics :: "'x Request \<Rightarrow> 'v wop list \<Rightarrow> string \<Rightarrow> 'v run" where
  "panics r os v = \<lparr>ops = os, ending = Panicked (PanicValue v), patternAfter = Pattern r\<rparr>"

definition nil_panic :: string where
  "nil_panic = ''runtime error: invalid memory address or nil pointer dereference''"

text \<open>The answer to an upstream's error: its status, and the code and detail of its problem if it has them.\<close>

definition relayed :: "('f, 'w) GatewayHandler \<Rightarrow> Response \<Rightarrow> int \<times> string \<times> string" where
  "relayed h resp =
     (let (code, detail) =
        (case gh_problem h (rsp_Body resp) of
           Inr p \<Rightarrow> if Code p \<noteq> []
                    then (Code p, if Detail p \<noteq> [] then Detail p else ''The request was rejected by a downstream service.'')
                    else (''upstream_error'', ''The request was rejected by a downstream service.'')
         | Inl _ \<Rightarrow> (''upstream_error'', ''The request was rejected by a downstream service.''))
      in if 500 \<le> rsp_Status resp
         then (502, ''upstream_error'', ''A downstream service failed to handle the request.'')
         else (rsp_Status resp, code, detail))"

definition relayUpstreamError ::
  "('f, 'w) GatewayHandler \<Rightarrow> 'w gateway Request \<Rightarrow> string \<Rightarrow> Response \<Rightarrow> 'w gateway \<Rightarrow> 'f gateway_json run \<times> 'w gateway" where
  "relayUpstreamError h r upstream resp s =
     (let (status, code, detail) = relayed h resp
      in (respond r (WriteProblem r status code detail),
          emit h (Log LevelWarn ''relaying upstream error''
            (LoggerFrom (Ctx r) @ [(''upstream'', AStr upstream), (''upstream_status'', AInt (rsp_Status resp))])) s))"

section \<open>Routes\<close>

definition errDeviceNotFound :: go_error where
  "errDeviceNotFound = ErrVar ''gateway.errDeviceNotFound'' ''device not found''"

text \<open>\<open>None\<close> is the panic on a nil response.\<close>

definition fetchDevice ::
  "('f, 'w) GatewayHandler \<Rightarrow> 'w gateway Request \<Rightarrow> string \<Rightarrow> 'w gateway \<Rightarrow> (go_error + string) option \<times> 'w gateway" where
  "fetchDevice h r deviceID s =
     (case catalog_Get h r (''/v1/devices/'' @ deviceID) s of
        (Inl err, s) \<Rightarrow> (Some (Inl err), s)
      | (Inr None, s) \<Rightarrow> (None, s)
      | (Inr (Some resp), s) \<Rightarrow>
          if rsp_Status resp = 404 then (Some (Inl errDeviceNotFound), s)
          else if 400 \<le> rsp_Status resp then (Some (Inl (ErrText (''catalog returned '' @ Itoa (rsp_Status resp)))), s)
          else (Some (Inr (rsp_Body resp)), s))"

text \<open>
  Encoding a response fails when its raw device is not valid JSON; \<open>WriteJSON\<close> has then sent the status
  and ignores the error.
\<close>

definition write_score :: "('f, 'w) GatewayHandler \<Rightarrow> 'f ScoreResponse \<Rightarrow> 'f gateway_json wop list" where
  "write_score h resp =
     (if resp_Device resp = [] \<or> gh_valid h (resp_Device resp) then WriteJSON 200 (ScoreJSON resp)
      else [HeaderSet ''Content-Type'' ''application/json'', SendHeader 200])"

definition score_with ::
  "('f, 'w) GatewayHandler \<Rightarrow> 'w gateway Request \<Rightarrow> 'f ScoreRequest \<Rightarrow> string \<Rightarrow> bool \<Rightarrow> string \<Rightarrow>
   'w gateway \<Rightarrow> 'f gateway_json run \<times> 'w gateway" where
  "score_with h r req device degraded reason s =
     (case gh_marshal h (sr_DeviceID req) (sr_Readings req) of
        Inl err \<Rightarrow> (respond r (WriteProblem r 500 ''internal_error'' ''Failed to build the scoring request.''), s)
      | Inr body \<Rightarrow>
          (case scorer_Post h r ''/v1/score'' body s of
             (Inl err, s) \<Rightarrow>
               (respond r (WriteProblem r 503 ''scorer_unavailable''
                  ''Scoring is temporarily unavailable. Retry after a short backoff.''),
                emit h (Log LevelError ''scorer call failed'' (LoggerFrom (Ctx r) @ [(''error'', AError err)])) s)
           | (Inr None, s) \<Rightarrow> (panics r [] nil_panic, s)
           | (Inr (Some scored), s) \<Rightarrow>
               if 400 \<le> rsp_Status scored then relayUpstreamError h r ''scorer'' scored s
               else (case gh_score h (rsp_Body scored) of
                   Inl err \<Rightarrow>
                     (respond r (WriteProblem r 502 ''invalid_upstream_response''
                        ''The scoring service returned an unexpected response.''),
                      emit h (Log LevelError ''scorer returned an unparseable body''
                        (LoggerFrom (Ctx r) @ [(''error'', AError err)])) s)
                 | Inr (score, anomaly) \<Rightarrow>
                     (respond r (write_score h \<lparr>resp_DeviceID = sr_DeviceID req, resp_Score = score, resp_Anomaly = anomaly,
                        resp_Device = device, resp_Degraded = degraded, resp_Reason = reason\<rparr>), s))))"

definition ScoreReading :: "('f, 'w) GatewayHandler \<Rightarrow> ('f gateway_json, 'w gateway) Handler" where
  "ScoreReading h r s =
     (case decodeJSON h r of
        Inl err \<Rightarrow> (respond r (WriteProblem r 400 ''invalid_request'' (Error err)), s)
      | Inr req \<Rightarrow>
          if sr_DeviceID req = [] then
            (respond r (WriteProblem r 400 ''invalid_request'' ''device_id is required.''), s)
          else if sr_Readings req = [] then
            (respond r (WriteProblem r 400 ''invalid_request'' ''readings must contain at least one value.''), s)
          else if maxReadings < length (sr_Readings req) then
            (respond r (WriteProblem r 400 ''invalid_request''
               (''readings must contain at most '' @ Itoa (int maxReadings) @ '' values.'')), s)
          else
            (case fetchDevice h r (sr_DeviceID req) s of
               (None, s) \<Rightarrow> (panics r [] nil_panic, s)
             | (Some (Inr device), s) \<Rightarrow> score_with h r req device False [] s
             | (Some (Inl err), s) \<Rightarrow>
                 if errors_Is err errDeviceNotFound then
                   (respond r (WriteProblem r 404 ''device_not_found'' ''No device is registered with that device_id.''), s)
                 else if \<not> degradeOnCatalogFailure h then
                   (respond r (WriteProblem r 503 ''catalog_unavailable'' ''Device metadata is temporarily unavailable.''),
                    emit h (Log LevelError ''catalog enrichment failed and degradation is disabled''
                      (LoggerFrom (Ctx r) @ [(''error'', AError err)])) s)
                 else
                   score_with h r req [] True ''device metadata unavailable''
                     (emit h (Log LevelWarn ''serving degraded score without device enrichment''
                       (LoggerFrom (Ctx r) @ [(''error'', AError err)])) s)))"

text \<open>\<open>proxy\<close>, always called with the catalog: what it does with the result of the call, and the call.\<close>

definition proxy_result ::
  "('f, 'w) GatewayHandler \<Rightarrow> 'w gateway Request \<Rightarrow> (go_error + Response option) \<times> 'w gateway \<Rightarrow>
   'f gateway_json run \<times> 'w gateway" where
  "proxy_result h r = (\<lambda>(res, s). case res of
       Inl err \<Rightarrow>
         (respond r (WriteProblem r 503 ''upstream_unavailable''
            ''A required service is temporarily unavailable. Retry after a short backoff.''),
          emit h (Log LevelError ''upstream call failed'' (LoggerFrom (Ctx r)
            @ [(''upstream'', AStr (Upstream_Name (Catalog (gh_up h)))), (''error'', AError err)])) s)
     | Inr None \<Rightarrow> (panics r [] nil_panic, s)
     | Inr (Some resp) \<Rightarrow>
         if 400 \<le> rsp_Status resp then relayUpstreamError h r (Upstream_Name (Catalog (gh_up h))) resp s
         else if rsp_Status resp < 100 then
           (panics r [HeaderSet ''Content-Type'' ''application/json''] (''invalid WriteHeader code '' @ Itoa (rsp_Status resp)), s)
         else
           (respond r [HeaderSet ''Content-Type'' ''application/json'', SendHeader (rsp_Status resp), SendBody (Raw (rsp_Body resp))], s))"

definition proxy ::
  "('f, 'w) GatewayHandler \<Rightarrow> 'w gateway Request \<Rightarrow> string \<Rightarrow> string \<Rightarrow> string \<Rightarrow> 'w gateway \<Rightarrow> 'f gateway_json run \<times> 'w gateway" where
  "proxy h r method path body s =
     proxy_result h r (if method = ''GET'' then catalog_Get h r path s else catalog_Post h r path body s)"

definition ListDevices :: "('f, 'w) GatewayHandler \<Rightarrow> ('f gateway_json, 'w gateway) Handler" where
  "ListDevices h r s =
     (let path = ''/v1/devices'' @ (if RawQuery r \<noteq> [] then ''?'' @ RawQuery r else [])
      in proxy h r ''GET'' path [] s)"

definition GetDevice :: "('f, 'w) GatewayHandler \<Rightarrow> ('f gateway_json, 'w gateway) Handler" where
  "GetDevice h r s =
     (let i = PathValue r ''id''
      in if i = [] then (respond r (WriteProblem r 400 ''invalid_request'' ''A device id is required.''), s)
         else proxy h r ''GET'' (''/v1/devices/'' @ i) [] s)"

definition CreateDevice :: "('f, 'w) GatewayHandler \<Rightarrow> ('f gateway_json, 'w gateway) Handler" where
  "CreateDevice h r s =
     (case ReadAll (Body r) of
        Inl err \<Rightarrow> (respond r (WriteProblem r 400 ''invalid_request'' ''The request body could not be read.''), s)
      | Inr body \<Rightarrow> proxy h r ''POST'' ''/v1/devices'' body s)"

definition Dependencies :: "('f, 'w) GatewayHandler \<Rightarrow> ('f gateway_json, 'w gateway) Handler" where
  "Dependencies h r s =
     (let (c, s) = on_catalog BreakerState s;
          (sc, s) = on_scorer BreakerState s
      in (respond r (WriteJSON 200 (DependenciesJSON
            [\<lparr>dep_Name = Upstream_Name (Catalog (gh_up h)), dep_Breaker = State_String c\<rparr>,
             \<lparr>dep_Name = Upstream_Name (Scorer (gh_up h)), dep_Breaker = State_String sc\<rparr>])), s))"

definition Gateway_Routes :: "('f, 'w) GatewayHandler \<Rightarrow> ('f gateway_json, 'w gateway) Route list" where
  "Gateway_Routes h =
     [\<lparr>route_method = ''GET'', route_segs = [Lit ''api'', Lit ''v1'', Lit ''devices''], route_pattern = ''GET /api/v1/devices'',
       route_handler = ListDevices h\<rparr>,
      \<lparr>route_method = ''POST'', route_segs = [Lit ''api'', Lit ''v1'', Lit ''devices''], route_pattern = ''POST /api/v1/devices'',
       route_handler = CreateDevice h\<rparr>,
      \<lparr>route_method = ''GET'', route_segs = [Lit ''api'', Lit ''v1'', Lit ''devices'', Wild ''id''],
       route_pattern = ''GET /api/v1/devices/{id}'', route_handler = GetDevice h\<rparr>,
      \<lparr>route_method = ''POST'', route_segs = [Lit ''api'', Lit ''v1'', Lit ''readings'', Lit ''score''],
       route_pattern = ''POST /api/v1/readings/score'', route_handler = ScoreReading h\<rparr>,
      \<lparr>route_method = ''GET'', route_segs = [Lit ''api'', Lit ''v1'', Lit ''dependencies''],
       route_pattern = ''GET /api/v1/dependencies'', route_handler = Dependencies h\<rparr>]"


section \<open>Calls of the upstreams\<close>

definition gw_inv :: "'w gateway \<Rightarrow> bool" where
  "gw_inv s \<longleftrightarrow> breaker_inv (gw_catalog s) \<and> breaker_inv (gw_scorer s)"

lemma emit_inv [simp]: "gw_inv (emit h e s) = gw_inv s"
  by (simp add: emit_def gw_inv_def)

lemma on_catalog_inv:
  assumes "gw_inv s" "on_catalog f s = (a, s')"
    and "\<And>b w. breaker_inv b \<Longrightarrow> P (fst (f (b, w))) \<and> breaker_inv (fst (snd (f (b, w))))"
  shows "P a \<and> gw_inv s'"
  using assms(1,2) assms(3) [of "gw_catalog s" "gw_base s"] by (auto simp: on_catalog_def gw_inv_def split_beta Let_def)

lemma on_scorer_inv:
  assumes "gw_inv s" "on_scorer f s = (a, s')"
    and "\<And>b w. breaker_inv b \<Longrightarrow> P (fst (f (b, w))) \<and> breaker_inv (fst (snd (f (b, w))))"
  shows "P a \<and> gw_inv s'"
  using assms(1,2) assms(3) [of "gw_scorer s" "gw_base s"] by (auto simp: on_scorer_def gw_inv_def split_beta Let_def)

lemma Upstream_do_inv:
  "breaker_inv b \<Longrightarrow> call_result (up_name u) (fst (Upstream_do net u ctx rid m p bd hs (b, w))) \<and>
     breaker_inv (fst (snd (Upstream_do net u ctx rid m p bd hs (b, w))))"
  using Upstream_do_result [of "(b, w)" net u ctx rid m p bd hs, OF _ surjective_pairing] by simp

lemma catalog_Get_result:
  "gw_inv s \<Longrightarrow> catalog_Get h r p s = (res, s') \<Longrightarrow> call_result (up_name (Catalog (gh_up h))) res \<and> gw_inv s'"
  unfolding catalog_Get_def Upstream_Get_def by (rule on_catalog_inv) (auto simp: Upstream_do_inv)

lemma catalog_Post_result:
  "gw_inv s \<Longrightarrow> catalog_Post h r p b s = (res, s') \<Longrightarrow> call_result (up_name (Catalog (gh_up h))) res \<and> gw_inv s'"
  unfolding catalog_Post_def Upstream_Post_def by (rule on_catalog_inv) (auto simp: Upstream_do_inv)

lemma scorer_Post_result:
  "gw_inv s \<Longrightarrow> scorer_Post h r p b s = (res, s') \<Longrightarrow> call_result (up_name (Scorer (gh_up h))) res \<and> gw_inv s'"
  unfolding scorer_Post_def Upstream_Post_def by (rule on_scorer_inv) (auto simp: Upstream_do_inv)

text \<open>An outage is never taken for a missing device.\<close>

lemma call_result_not_missing: "call_result n (Inl e) \<Longrightarrow> \<not> errors_Is e errDeviceNotFound"
  by (auto simp: call_result_def errDeviceNotFound_def ErrUpstreamUnavailable_def)

section \<open>No handler dereferences nil\<close>

definition settled :: "'v run \<Rightarrow> bool" where
  "settled x \<longleftrightarrow> ending x = Returned \<or> (\<exists>n < 100. ending x = Panicked (PanicValue (''invalid WriteHeader code '' @ Itoa n)))"

lemma settled_respond [simp]: "settled (respond r os)"
  by (simp add: settled_def respond_def)

lemma relay_settled: "relayUpstreamError h r n resp s = (x, s') \<Longrightarrow> gw_inv s \<Longrightarrow> settled x \<and> gw_inv s'"
  by (auto simp: relayUpstreamError_def split_beta Let_def)

lemma proxy_result_settled:
  assumes "call_result n res" "gw_inv s" "proxy_result h r (res, s) = (x, s')"
  shows "settled x \<and> gw_inv s'"
  using assms relay_settled [of h r "Upstream_Name (Catalog (gh_up h))" _ s x s']
  by (auto simp: proxy_result_def call_result_def panics_def settled_def respond_def split: sum.splits option.splits if_splits)

lemma proxy_settled: "gw_inv s \<Longrightarrow> proxy h r m p b s = (x, s') \<Longrightarrow> settled x \<and> gw_inv s'"
proof -
  assume inv: "gw_inv s" and e: "proxy h r m p b s = (x, s')"
  obtain res s1 where c: "(if m = ''GET'' then catalog_Get h r p s else catalog_Post h r p b s) = (res, s1)"
    by (rule prod.exhaust)
  then have "call_result (up_name (Catalog (gh_up h))) res \<and> gw_inv s1"
    using catalog_Get_result [OF inv] catalog_Post_result [OF inv] by (simp split: if_splits)
  moreover have "proxy_result h r (res, s1) = (x, s')" using e c by (simp add: proxy_def)
  ultimately show ?thesis using proxy_result_settled by metis
qed

lemma score_with_settled:
  assumes "gw_inv s" "score_with h r req d g why s = (x, s')" shows "settled x \<and> gw_inv s'"
proof (cases "gh_marshal h (sr_DeviceID req) (sr_Readings req)")
  case (Inr body)
  obtain res s1 where p: "scorer_Post h r ''/v1/score'' body s = (res, s1)" by (rule prod.exhaust)
  with scorer_Post_result [OF assms(1) p] assms(2) Inr show ?thesis
    using relay_settled [of h r "''scorer''" _ s1 x s']
    by (auto simp: score_with_def call_result_def split: sum.splits option.splits if_splits)
qed (use assms in \<open>auto simp: score_with_def\<close>)

lemma fetchDevice_result:
  assumes "gw_inv s" "fetchDevice h r i s = (res, s')" shows "res \<noteq> None \<and> gw_inv s'"
proof -
  obtain c s1 where g: "catalog_Get h r (''/v1/devices/'' @ i) s = (c, s1)" by (rule prod.exhaust)
  with catalog_Get_result [OF assms(1) g] assms(2) show ?thesis
    by (auto simp: fetchDevice_def call_result_def split: sum.splits option.splits if_splits)
qed

lemma ScoreReading_settled: "gw_inv s \<Longrightarrow> ScoreReading h r s = (x, s') \<Longrightarrow> settled x \<and> gw_inv s'"
proof -
  assume inv: "gw_inv s" and e: "ScoreReading h r s = (x, s')"
  show ?thesis
  proof (cases "decodeJSON h r")
    case (Inr req)
    obtain d s1 where f: "fetchDevice h r (sr_DeviceID req) s = (d, s1)" by (rule prod.exhaust)
    note fr = fetchDevice_result [OF inv f]
    show ?thesis using e fr inv
      by (auto simp: ScoreReading_def Inr f dest!: score_with_settled [rotated] split: option.splits sum.splits if_splits)
  qed (use e inv in \<open>auto simp: ScoreReading_def\<close>)
qed


lemma Breaker_State_inv: "breaker_inv b \<Longrightarrow> breaker_inv (fst (snd (BreakerState (b, w))))"
  using maybeHalfOpenLocked_inv [of b w] by (auto simp: BreakerState_def Breaker_State_def Let_def split_beta)

lemma Dependencies_settled: "gw_inv s \<Longrightarrow> Dependencies h r s = (x, s') \<Longrightarrow> settled x \<and> gw_inv s'"
  using Breaker_State_inv [of "gw_catalog s" "gw_base s"] Breaker_State_inv [of "gw_scorer s"]
  by (auto simp: Dependencies_def on_catalog_def on_scorer_def gw_inv_def split_beta Let_def)

text \<open>
  C24. No handler of the public API dereferences a nil response, whatever the network does: every
  route runs to its end, and keeps both breakers well formed. The one panic left is that of
  \<open>WriteHeader\<close>, for an upstream that answers a proxied call with a status below 100.
\<close>

theorem gateway_no_nil_panic:
  assumes "gw_inv s" "rt \<in> set (Gateway_Routes h)" "route_handler rt r s = (x, s')"
  shows "gw_inv s' \<and>
    (ending x = Returned \<or> (\<exists>n < 100. ending x = Panicked (PanicValue (''invalid WriteHeader code '' @ Itoa n))))"
proof -
  from assms(2) consider "route_handler rt = ListDevices h" | "route_handler rt = CreateDevice h" | "route_handler rt = GetDevice h"
    | "route_handler rt = ScoreReading h" | "route_handler rt = Dependencies h" by (auto simp: Gateway_Routes_def)
  then have "settled x \<and> gw_inv s'"
  proof cases
    case 2
    then show ?thesis using assms(1,3)
      by (cases "ReadAll (Body r)") (auto simp: CreateDevice_def dest!: proxy_settled [rotated])
  qed (use assms(1,3) in \<open>auto simp: ListDevices_def GetDevice_def Let_def
      dest!: proxy_settled [rotated] ScoreReading_settled [rotated] Dependencies_settled [rotated] split: if_splits\<close>)
  then show ?thesis by (simp add: settled_def)
qed

section \<open>Scoring without the catalog\<close>

definition scorable :: "('f, 'w) GatewayHandler \<Rightarrow> 'x Request \<Rightarrow> 'f ScoreRequest \<Rightarrow> bool" where
  "scorable h r req \<longleftrightarrow> decodeJSON h r = Inr req \<and> sr_DeviceID req \<noteq> [] \<and> sr_Readings req \<noteq> [] \<and>
     length (sr_Readings req) \<le> maxReadings"

text \<open>
  C6. An outage of the catalog costs the enrichment and nothing else. When a valid scoring request
  finds the catalog unavailable: with degradation on, the scorer is asked all the same, and its
  score is returned with 200, marked as degraded and without a device; with degradation off the
  answer is 503 and the scorer is not called. An outage is never reported as a missing device.
\<close>

theorem catalog_outage_degrades:
  assumes "gw_inv s" "scorable h r req"
    and "catalog_Get h r (''/v1/devices/'' @ sr_DeviceID req) s = (Inl e, s1)"
    and "gh_marshal h (sr_DeviceID req) (sr_Readings req) = Inr body"
  shows "if degradeOnCatalogFailure h
    then \<exists>s2 res s3. scorer_Post h r ''/v1/score'' body s2 = (res, s3) \<and>
      s2 = emit h (Log LevelWarn ''serving degraded score without device enrichment''
        (LoggerFrom (Ctx r) @ [(''error'', AError e)])) s1 \<and>
      (case res of
         Inl _ \<Rightarrow> run_status (fst (ScoreReading h r s)) = 503
       | Inr None \<Rightarrow> False
       | Inr (Some scored) \<Rightarrow>
           if 400 \<le> rsp_Status scored then run_status (fst (ScoreReading h r s)) = rsp_Status scored
           else (case gh_score h (rsp_Body scored) of
               Inl _ \<Rightarrow> run_status (fst (ScoreReading h r s)) = 502
             | Inr (score, anomaly) \<Rightarrow>
                 ScoreReading h r s = (respond r (WriteJSON 200 (ScoreJSON \<lparr>resp_DeviceID = sr_DeviceID req, resp_Score = score,
                   resp_Anomaly = anomaly, resp_Device = [], resp_Degraded = True, resp_Reason = ''device metadata unavailable''\<rparr>)), s3)))
    else run_status (fst (ScoreReading h r s)) = 503 \<and> gw_scorer (snd (ScoreReading h r s)) = gw_scorer s1"
proof -
  have c: "call_result (up_name (Catalog (gh_up h))) (Inl e)" and inv1: "gw_inv s1"
    using catalog_Get_result [OF assms(1,3)] by simp_all
  note ne = call_result_not_missing [OF c]
  have f: "fetchDevice h r (sr_DeviceID req) s = (Some (Inl e), s1)" unfolding fetchDevice_def assms(3) by simp
  let ?s2 = "emit h (Log LevelWarn ''serving degraded score without device enrichment'' (LoggerFrom (Ctx r) @ [(''error'', AError e)])) s1"
  have S: "ScoreReading h r s = (if degradeOnCatalogFailure h then score_with h r req [] True ''device metadata unavailable'' ?s2
    else (respond r (WriteProblem r 503 ''catalog_unavailable'' ''Device metadata is temporarily unavailable.''),
      emit h (Log LevelError ''catalog enrichment failed and degradation is disabled'' (LoggerFrom (Ctx r) @ [(''error'', AError e)])) s1))"
    using assms(2) ne by (simp add: ScoreReading_def scorable_def f)
  obtain res s3 where p: "scorer_Post h r ''/v1/score'' body ?s2 = (res, s3)" by (rule prod.exhaust)
  have r: "call_result (up_name (Scorer (gh_up h))) res" using scorer_Post_result [OF _ p] inv1 by simp
  show ?thesis
  proof (cases "degradeOnCatalogFailure h")
    case True
    from r show ?thesis unfolding S if_P [OF True]
      by (intro exI [of _ ?s2] exI [of _ res] exI [of _ s3])
        (auto simp: p score_with_def assms(4) call_result_def usable_def relayUpstreamError_def relayed_def write_score_def split_beta Let_def
          split: sum.splits option.splits)
  next
    case False
    then show ?thesis by (simp add: S emit_def)
  qed
qed


section \<open>Credentials stay at the edge\<close>

definition forwarded_names :: "string set" where
  "forwarded_names = {''X-Request-Id'', ''X-Client-Id'', ''Idempotency-Key'', ''Content-Type'', ''Accept'', ''X-Retry-Attempt''}"

lemma canonical_names:
  "CanonicalHeaderKey ''X-Request-Id'' = ''X-Request-Id''" "CanonicalHeaderKey ''X-Client-Id'' = ''X-Client-Id''"
  "CanonicalHeaderKey ''Idempotency-Key'' = ''Idempotency-Key''" "CanonicalHeaderKey ''Content-Type'' = ''Content-Type''"
  "CanonicalHeaderKey ''Accept'' = ''Accept''" "CanonicalHeaderKey ''X-Retry-Attempt'' = ''X-Retry-Attempt''"
  "CanonicalHeaderKey ''Authorization'' = ''Authorization''" "CanonicalHeaderKey ''X-API-Key'' = ''X-Api-Key''"
  by code_simp+

lemma dom_Header_Set: "dom (Header_Set k v h) = insert (CanonicalHeaderKey k) (dom h)"
  by (simp add: Header_Set_def)

lemma dom_foldl_Set:
  "dom (foldl (\<lambda>h (k, v). Header_Set k v h) h hs) = dom h \<union> CanonicalHeaderKey ` fst ` set hs"
proof (induction hs arbitrary: h)
  case (Cons a hs)
  show ?case using Cons.IH [of "Header_Set (fst a) (snd a) h"] by (simp add: dom_Header_Set split_beta)
qed simp

lemma forwardHeaders_names:
  "CanonicalHeaderKey ` fst ` set (forwardHeaders r) \<subseteq> forwarded_names"
  by (auto simp: forwardHeaders_def forwarded_names_def RequestIDHeader_def Let_def canonical_names)

text \<open>
  C26. The caller's credential is not handed to the services behind the gateway: whatever headers a
  request carries, an upstream call made for it has headers of six fixed names only, neither
  \<open>Authorization\<close> nor \<open>X-API-Key\<close> among them, and its headers do not depend on what those two held.
\<close>

theorem credentials_not_forwarded:
  "let sent_header = request_header rid body (forwardHeaders r) k;
       other = r\<lparr>ReqHeader := (ReqHeader r)(CanonicalHeaderKey ''Authorization'' := a, CanonicalHeaderKey ''X-API-Key'' := b)\<rparr>
   in dom sent_header \<subseteq> forwarded_names \<and>
      Header_Get sent_header ''Authorization'' = [] \<and> Header_Get sent_header ''X-API-Key'' = [] \<and>
      request_header rid body (forwardHeaders other) k = sent_header"
proof -
  let ?h = "request_header rid body (forwardHeaders r) k"
  have d: "dom ?h \<subseteq> forwarded_names"
    using forwardHeaders_names [of r]
    unfolding request_header_def RequestIDHeader_def Let_def
    by (cases "body = None"; cases "rid = []"; simp add: dom_Header_Set dom_foldl_Set canonical_names)
      (simp_all add: forwarded_names_def)
  then have "''Authorization'' \<notin> dom ?h" "''X-Api-Key'' \<notin> dom ?h" by (auto simp: forwarded_names_def)
  then have "Header_Get ?h ''Authorization'' = []" "Header_Get ?h ''X-API-Key'' = []"
    unfolding Header_Get_def canonical_names domIff by simp_all
  moreover have "forwardHeaders (r\<lparr>ReqHeader := (ReqHeader r)(CanonicalHeaderKey ''Authorization'' := a, CanonicalHeaderKey ''X-API-Key'' := b)\<rparr>)
      = forwardHeaders r"
    unfolding forwardHeaders_def Header_Get_def canonical_names by simp
  ultimately show ?thesis using d by (simp add: Let_def)
qed

section \<open>What is relayed\<close>

text \<open>The code and the detail of an upstream's problem reach the client verbatim.\<close>

lemma relayed_verbatim:
  "gh_problem h (rsp_Body resp) = Inr p \<Longrightarrow> Code p \<noteq> [] \<Longrightarrow> Detail p \<noteq> [] \<Longrightarrow> 400 \<le> rsp_Status resp \<Longrightarrow> rsp_Status resp < 500 \<Longrightarrow>
   run_bodies (fst (relayUpstreamError h r n resp s)) = [ProblemBody (problem r (rsp_Status resp) (Code p) (Detail p))]"
  by (simp add: relayUpstreamError_def relayed_def)

text \<open>A device that is not valid JSON makes a successful score an empty 200.\<close>

lemma invalid_device_empty:
  "resp_Device resp \<noteq> [] \<Longrightarrow> \<not> gh_valid h (resp_Device resp) \<Longrightarrow>
   run_status (respond r (write_score h resp)) = 200 \<and> run_bodies (respond r (write_score h resp)) = []"
  by (simp add: write_score_def run_status_def run_bodies_def respond_def reply_of_def new_reply_def reply_status_def)


section \<open>Witnesses\<close>

definition wit_gateway :: "bool \<Rightarrow> (nat, time \<times> event list) GatewayHandler" where
  "wit_gateway degrade = \<lparr>gh_up = \<lparr>Catalog = fst (wit_upstream 503), Scorer = fst (wit_upstream 200)\<rparr>,
     degradeOnCatalogFailure = degrade, gh_net = wit_net, gh_decode = (\<lambda>_. Inr \<lparr>sr_DeviceID = ''d1'', sr_Readings = [1]\<rparr>),
     gh_marshal = (\<lambda>_ _. Inr ''{}''), gh_score = (\<lambda>_. Inr (7, True)), gh_problem = (\<lambda>_. Inl (ErrText ''eof'')),
     gh_valid = (\<lambda>_. True)\<rparr>"

definition wit_gw :: "(time \<times> event list) gateway" where
  "wit_gw = \<lparr>gw_catalog = fst (snd (wit_upstream 503)), gw_scorer = fst (snd (wit_upstream 200)),
     gw_limiter = fl_NewRateLimiter (env_now wit_env) \<lparr>fl_RequestsPerSecond = Finite 1, fl_Burst = 1, fl_IdleTTL = 0, fl_Now = None\<rparr>, gw_base = (0, [])\<rparr>"

abbreviation wit_score_request :: "(time \<times> event list) gateway Request" where
  "wit_score_request \<equiv> wit_request ''POST'' ''/api/v1/readings/score'' Map.empty ''{}''"

lemma wit_gw_inv: "gw_inv wit_gw"
  by (simp add: gw_inv_def wit_gw_def wit_upstream_new)

lemma wit_catalog_down: "\<exists>e s1. catalog_Get (wit_gateway degrade) r p wit_gw = (Inl e, s1) \<and> gw_scorer s1 = gw_scorer wit_gw"
proof -
  obtain e where "fst (Upstream_do wit_net (fst (wit_upstream 503)) (base_ctx wit_gw (std (Ctx r))) (RequestIDFrom (Ctx r)) ''GET'' p None
      (forwardHeaders r) (gw_catalog wit_gw, gw_base wit_gw)) = Inl e"
    using Upstream_do_down [of wit_net "fst (wit_upstream 503)"] wit_503_down by metis
  then show ?thesis
    by (auto simp: catalog_Get_def on_catalog_def Upstream_Get_def wit_gateway_def Let_def split_beta)
qed

lemma wit_scorer_up:
  assumes "gw_scorer s = gw_scorer wit_gw"
  shows "fst (scorer_Post (wit_gateway degrade) wit_score_request p b s) = Inr (Some \<lparr>rsp_Status = 200, rsp_Body = ''{}''\<rparr>)"
proof -
  have "fst (Upstream_do wit_net (fst (wit_upstream 200)) (base_ctx s (std (Ctx wit_score_request))) (RequestIDFrom (Ctx wit_score_request))
      ''POST'' p (Some b) (forwardHeaders wit_score_request) (gw_scorer s, gw_base s)) = Inr (Some \<lparr>rsp_Status = 200, rsp_Body = ''{}''\<rparr>)"
    by (rule Upstream_do_steady)
      (simp_all add: assms wit_gw_def wit_upstream_new base_ctx_def wit_request_def wit_net_def wit_200_up)
  then show ?thesis by (simp add: scorer_Post_def on_scorer_def Upstream_Post_def wit_gateway_def Let_def split_beta)
qed

lemma gateway_no_nil_panic_witness:
  "\<exists>x s'. ScoreReading (wit_gateway True) wit_score_request wit_gw = (x, s') \<and> gw_inv s' \<and>
     (ending x = Returned \<or> (\<exists>n < 100. ending x = Panicked (PanicValue (''invalid WriteHeader code '' @ Itoa n))))"
proof -
  let ?rt = "\<lparr>route_method = ''POST'', route_segs = [Lit ''api'', Lit ''v1'', Lit ''readings'', Lit ''score''],
       route_pattern = ''POST /api/v1/readings/score'', route_handler = ScoreReading (wit_gateway True)\<rparr>"
  have m: "?rt \<in> set (Gateway_Routes (wit_gateway True))" by (simp add: Gateway_Routes_def)
  obtain x s' where e: "ScoreReading (wit_gateway True) wit_score_request wit_gw = (x, s')" by (rule prod.exhaust)
  with gateway_no_nil_panic [OF wit_gw_inv m, of wit_score_request x s'] show ?thesis by auto
qed

lemma catalog_outage_degrades_witness:
  "run_bodies (fst (ScoreReading (wit_gateway True) wit_score_request wit_gw)) =
     [JSON (ScoreJSON \<lparr>resp_DeviceID = ''d1'', resp_Score = 7, resp_Anomaly = True, resp_Device = [], resp_Degraded = True,
        resp_Reason = ''device metadata unavailable''\<rparr>)]"
proof -
  let ?req = "\<lparr>sr_DeviceID = ''d1'', sr_Readings = [1]\<rparr> :: nat ScoreRequest"
  have v: "scorable (wit_gateway True) wit_score_request ?req"
    by (simp add: scorable_def decodeJSON_def wit_gateway_def maxReadings_def)
  obtain e s1 where c: "catalog_Get (wit_gateway True) wit_score_request (''/v1/devices/'' @ sr_DeviceID ?req) wit_gw = (Inl e, s1)"
      "gw_scorer s1 = gw_scorer wit_gw"
    using wit_catalog_down by blast
  have m: "gh_marshal (wit_gateway True) (sr_DeviceID ?req) (sr_Readings ?req) = Inr ''{}''" by (simp add: wit_gateway_def)
  have d: "degradeOnCatalogFailure (wit_gateway True)" "gh_score (wit_gateway True) ''{}'' = Inr (7, True)" by (simp_all add: wit_gateway_def)
  let ?s2 = "emit (wit_gateway True) (Log LevelWarn ''serving degraded score without device enrichment''
        (LoggerFrom (Ctx wit_score_request) @ [(''error'', AError e)])) s1"
  have "gw_scorer ?s2 = gw_scorer wit_gw" using c(2) by (simp add: emit_def)
  from wit_scorer_up [OF this] obtain s3 where
    "scorer_Post (wit_gateway True) wit_score_request ''/v1/score'' ''{}'' ?s2 = (Inr (Some \<lparr>rsp_Status = 200, rsp_Body = ''{}''\<rparr>), s3)"
    by (metis prod.collapse)
  with catalog_outage_degrades [OF wit_gw_inv v c(1) m] d show ?thesis by simp
qed

end
