(* ===== verification/Catalog.thy ===== *)
theory Catalog
  imports Prelude "HOL-Library.Multiset"
begin

text \<open>
  The device registry's domain (\<open>internal/catalog/device.go\<close>) and its in-memory store
  (\<open>internal/catalog/memory.go\<close>). \<open>uni\<close> is the part of \<open>strings.ToLower\<close> that handles non-ASCII
  text, as in the prelude. Go visits the entries of a map in an unspecified order: \<open>List\<close> takes the
  visited devices as an argument, and the theorems hold for every order.
\<close>

section \<open>Devices\<close>

definition ErrNotFound :: go_error where
  "ErrNotFound = ErrVar ''catalog.ErrNotFound'' ''device not found''"

definition ErrAlreadyExists :: go_error where
  "ErrAlreadyExists = ErrVar ''catalog.ErrAlreadyExists'' ''device already exists''"

definition ErrInvalid :: go_error where
  "ErrInvalid = ErrVar ''catalog.ErrInvalid'' ''device is invalid''"

record Device =
  ID :: string
  Name :: string
  Site :: string
  Kind :: string
  CreatedAt :: time
  UpdatedAt :: time

text \<open>\<open>Device{}\<close>, which the failing operations return beside their error.\<close>

definition no_device :: Device where
  "no_device = \<lparr>ID = [], Name = [], Site = [], Kind = [], CreatedAt = zeroTime, UpdatedAt = zeroTime\<rparr>"

definition id_first :: "char \<Rightarrow> bool" where
  "id_first c \<longleftrightarrow> (let n = (of_char c :: nat) in 97 \<le> n \<and> n \<le> 122 \<or> 48 \<le> n \<and> n \<le> 57)"

definition id_rest :: "char \<Rightarrow> bool" where
  "id_rest c \<longleftrightarrow> id_first c \<or> c = CHR ''-''"

text \<open>\<open>^[a-z0-9][a-z0-9-]{1,62}$\<close>\<close>

definition idPattern :: "string \<Rightarrow> bool" where
  "idPattern s \<longleftrightarrow> (case s of [] \<Rightarrow> False
     | c # cs \<Rightarrow> id_first c \<and> 1 \<le> length cs \<and> length cs \<le> 62 \<and> list_all id_rest cs)"

text \<open>\<open>Validate\<close> changes the device it is called on: the result is the error and the new device.\<close>

definition invalid :: "string \<Rightarrow> go_error" where
  "invalid msg = Wrapf [] ErrInvalid ('': '' @ msg)"

definition normalised :: "(string \<Rightarrow> string) \<Rightarrow> Device \<Rightarrow> Device" where
  "normalised uni d = d\<lparr>ID := ToLower uni (TrimSpace (ID d)), Name := TrimSpace (Name d),
     Site := ToLower uni (TrimSpace (Site d)), Kind := ToLower uni (TrimSpace (Kind d))\<rparr>"

definition Validate :: "(string \<Rightarrow> string) \<Rightarrow> Device \<Rightarrow> go_error option \<times> Device" where
  "Validate uni d =
     (let d = normalised uni d
      in if ID d = [] then (Some (invalid ''id is required''), d)
         else if \<not> idPattern (ID d) then
           (Some (invalid ''id must be 2-63 characters of lowercase letters, digits and hyphens, starting with a letter or digit''), d)
         else if Name d = [] then (Some (invalid ''name is required''), d)
         else if 200 < length (Name d) then (Some (invalid ''name must be at most 200 characters''), d)
         else if Site d = [] then (Some (invalid ''site is required''), d)
         else if 100 < length (Site d) then (Some (invalid ''site must be at most 100 characters''), d)
         else if 100 < length (Kind d) then (Some (invalid ''kind must be at most 100 characters''), d)
         else (None, if Kind d = [] then d\<lparr>Kind := ''unknown''\<rparr> else d))"

section \<open>Listings\<close>

record ListOptions =
  lo_Site :: string
  Limit :: int
  Cursor :: string

definition defaultLimit :: int where "defaultLimit = 50"
definition maxLimit :: int where "maxLimit = 200"

definition Normalise :: "(string \<Rightarrow> string) \<Rightarrow> ListOptions \<Rightarrow> ListOptions" where
  "Normalise uni o1 =
     (let o1 = o1\<lparr>lo_Site := ToLower uni (TrimSpace (lo_Site o1))\<rparr>;
          o1 = o1\<lparr>Cursor := ToLower uni (TrimSpace (Cursor o1))\<rparr>;
          o1 = (if Limit o1 \<le> 0 then o1\<lparr>Limit := defaultLimit\<rparr> else o1);
          o1 = (if maxLimit < Limit o1 then o1\<lparr>Limit := maxLimit\<rparr> else o1)
      in o1)"

record Page =
  Devices :: "Device list"
  NextCursor :: string

text \<open>The \<open>Repository\<close> interface: its methods as functions of the repository's state.\<close>

record 's Repository =
  repo_Create :: "Device \<Rightarrow> 's \<Rightarrow> (go_error + Device) \<times> 's"
  repo_Get :: "string \<Rightarrow> 's \<Rightarrow> (go_error + Device) \<times> 's"
  repo_List :: "ListOptions \<Rightarrow> 's \<Rightarrow> (go_error + Page) \<times> 's"
  repo_Ping :: "'s \<Rightarrow> go_error option \<times> 's"

section \<open>The in-memory store\<close>

record MemoryRepository =
  devices :: "(string \<times> Device) list"
  failPing :: "go_error option"

definition NewMemoryRepository :: MemoryRepository where
  "NewMemoryRepository = \<lparr>devices = [], failPing = None\<rparr>"

definition SetPingError :: "go_error option \<Rightarrow> MemoryRepository \<Rightarrow> MemoryRepository" where
  "SetPingError err r = r\<lparr>failPing := err\<rparr>"

definition Memory_Ping :: "MemoryRepository \<Rightarrow> go_error option" where
  "Memory_Ping r = failPing r"

text \<open>\<open>r.now()\<close> is the argument \<open>t\<close>; a fresh key goes to the end of the association list.\<close>

definition Memory_Create ::
  "(string \<Rightarrow> string) \<Rightarrow> time \<Rightarrow> Device \<Rightarrow> MemoryRepository \<Rightarrow> (go_error + Device) \<times> MemoryRepository" where
  "Memory_Create uni t d r =
     (case Validate uni d of
        (Some err, d) \<Rightarrow> (Inl err, r)
      | (None, d) \<Rightarrow>
          if map_of (devices r) (ID d) \<noteq> None then (Inl (Wrapf [] ErrAlreadyExists ('': '' @ ID d)), r)
          else let d = d\<lparr>CreatedAt := t, UpdatedAt := t\<rparr>
               in (Inr d, r\<lparr>devices := devices r @ [(ID d, d)]\<rparr>))"

definition Memory_Get :: "string \<Rightarrow> MemoryRepository \<Rightarrow> go_error + Device" where
  "Memory_Get i r =
     (case map_of (devices r) i of
        None \<Rightarrow> Inl (Wrapf [] ErrNotFound ('': '' @ i))
      | Some d \<Rightarrow> Inr d)"

definition matches :: "ListOptions \<Rightarrow> Device \<Rightarrow> bool" where
  "matches o1 d \<longleftrightarrow> (lo_Site o1 = [] \<or> Site d = lo_Site o1) \<and> (Cursor o1 = [] \<or> Cursor o1 < ID d)"

text \<open>Cutting a page off the sorted matches.\<close>

definition make_page :: "int \<Rightarrow> Device list \<Rightarrow> Page" where
  "make_page limit ds =
     (if limit < int (length ds)
      then \<lparr>Devices = take (nat limit) ds, NextCursor = ID (last (take (nat limit) ds))\<rparr>
      else \<lparr>Devices = ds, NextCursor = []\<rparr>)"

definition Memory_List :: "(string \<Rightarrow> string) \<Rightarrow> ListOptions \<Rightarrow> Device list \<Rightarrow> Page" where
  "Memory_List uni opts visited =
     (let opts = Normalise uni opts
      in make_page (Limit opts) (sort_key ID (filter (matches opts) visited)))"

text \<open>
  Go's iteration over a map: an arbitrary order, given here by the positions of the entries that
  are visited next. Every permutation of a list is a \<open>visit\<close> of it, and nothing else is.
\<close>

fun visit :: "nat list \<Rightarrow> 'a list \<Rightarrow> 'a list" where
  "visit [] xs = xs"
| "visit (n # ns) [] = []"
| "visit (n # ns) (x # xs) =
     (let ys = x # xs; i = n mod length ys in ys ! i # visit ns (take i ys @ drop (Suc i) ys))"

text \<open>The store as a \<open>Repository\<close>: \<open>now\<close> is the clock's reading and \<open>order\<close> the order of iteration
  that a call meets.\<close>

definition memory_repository ::
  "(string \<Rightarrow> string) \<Rightarrow> (MemoryRepository \<Rightarrow> time) \<Rightarrow> (ListOptions \<Rightarrow> MemoryRepository \<Rightarrow> nat list) \<Rightarrow>
   MemoryRepository Repository" where
  "memory_repository uni now order =
     \<lparr>repo_Create = (\<lambda>d r. Memory_Create uni (now r) d r),
      repo_Get = (\<lambda>i r. (Memory_Get i r, r)),
      repo_List = (\<lambda>o1 r. (Inr (Memory_List uni o1 (visit (order o1 r) (map snd (devices r)))), r)),
      repo_Ping = (\<lambda>r. (Memory_Ping r, r))\<rparr>"

section \<open>Normal forms\<close>

lemma id_rest_range: "id_rest c \<Longrightarrow> 97 \<le> (of_char c :: nat) \<and> (of_char c :: nat) \<le> 122 \<or> 48 \<le> (of_char c :: nat) \<and> (of_char c :: nat) \<le> 57 \<or> c = CHR ''-''"
  by (simp add: id_rest_def id_first_def Let_def)

lemma idPattern_chars: "idPattern s \<Longrightarrow> c \<in> set s \<Longrightarrow> id_rest c"
  by (auto simp: idPattern_def id_rest_def list_all_iff split: list.splits)

lemma idPattern_length: "idPattern s \<Longrightarrow> 2 \<le> length s \<and> length s \<le> 63"
  by (auto simp: idPattern_def split: list.splits)

lemma idPattern_nonempty [simp]: "\<not> idPattern []"
  by (simp add: idPattern_def)

text \<open>No space that \<open>TrimSpace\<close> removes begins or ends with a character of an id.\<close>

lemma go_spaces_ends: "list_all (\<lambda>p. \<not> id_rest (hd p) \<and> \<not> id_rest (last p)) go_spaces"
  by code_simp

lemma TrimSpace_clean:
  assumes "list_all id_rest s" shows "TrimSpace s = s"
proof -
  have "\<not> prefix p s" if "p \<in> set go_spaces" for p
  proof
    assume "prefix p s"
    moreover have "p \<noteq> []" using that go_spaces_nonempty by blast
    ultimately have "hd p \<in> set s" by (auto simp: prefix_def)
    with assms that go_spaces_ends show False by (auto simp: list_all_iff)
  qed
  then have left: "TrimLeftSpace s = s" by (rule TrimLeftSpace_id)
  have "\<not> prefix p (rev s)" if "p \<in> set (map rev go_spaces)" for p
  proof
    assume "prefix p (rev s)"
    moreover from that obtain q where q: "p = rev q" "q \<in> set go_spaces" by auto
    moreover have "q \<noteq> []" using q go_spaces_nonempty by blast
    ultimately have "last q \<in> set (rev s)" by (auto simp: prefix_def dest: arg_cong [of _ _ set])
    with assms q go_spaces_ends show False by (auto simp: list_all_iff)
  qed
  then have "TrimRightSpace s = s"
    by (simp add: TrimRightSpace_def strip_seqs_id find_None_iff)
  with left show ?thesis by (simp add: TrimSpace_def)
qed

lemma ToLower_clean: "list_all id_rest s \<Longrightarrow> ToLower uni s = s"
proof -
  assume s: "list_all id_rest s"
  have "ascii_lower c = c \<and> (of_char c :: nat) < 128" if "c \<in> set s" for c
    using s that id_rest_range [of c] by (auto simp: list_all_iff ascii_lower_def)
  then show ?thesis by (simp add: ToLower_def isASCII_def list_all_iff map_idI)
qed

lemma idPattern_normal: "idPattern s \<Longrightarrow> ToLower uni (TrimSpace s) = s"
  using idPattern_chars [of s] by (simp add: TrimSpace_clean ToLower_clean list_all_iff)

lemmas Validate_unfold = Validate_def normalised_def Let_def

lemma Validate_ok:
  assumes "Validate uni d = (None, d')"
  shows "idPattern (ID d')" "Name d' \<noteq> []" "length (Name d') \<le> 200" "Site d' \<noteq> []" "length (Site d') \<le> 100"
    "Kind d' \<noteq> []" "length (Kind d') \<le> 100" "TrimSpace (Name d') = Name d'"
  using assms by (auto simp: Validate_unfold split: if_splits)

lemma Validate_error:
  assumes "Validate uni d = (Some e, d')" shows "\<exists>msg. e = invalid msg"
  using assms by (auto simp: Validate_unfold split: if_splits)

section \<open>Sorted listings\<close>

text \<open>What a listing of a registry contains: the matching devices in increasing order of their ids.\<close>

definition listing :: "(string \<rightharpoonup> Device) \<Rightarrow> ListOptions \<Rightarrow> Device list" where
  "listing m o1 = map (the \<circ> m) (sorted_list_of_set {i. \<exists>d. m i = Some d \<and> matches o1 d})"

definition keyed :: "(string \<rightharpoonup> Device) \<Rightarrow> bool" where
  "keyed m \<longleftrightarrow> finite (dom m) \<and> (\<forall>i d. m i = Some d \<longrightarrow> ID d = i \<and> idPattern i)"

lemma keyed_match_finite: "keyed m \<Longrightarrow> finite {i. \<exists>d. m i = Some d \<and> P d}"
  by (rule finite_subset [of _ "dom m"]) (auto simp: keyed_def)

lemma map_ID_listing: "keyed m \<Longrightarrow> map ID (listing m o1) = sorted_list_of_set {i. \<exists>d. m i = Some d \<and> matches o1 d}"
  unfolding listing_def map_map
  by (rule map_idI) (auto simp: keyed_def keyed_match_finite)

lemma set_listing: "keyed m \<Longrightarrow> set (listing m o1) = {d \<in> ran m. matches o1 d}"
  unfolding listing_def by (auto simp: keyed_match_finite ran_def image_iff) force

lemma strict_listing: "keyed m \<Longrightarrow> sorted_wrt (<) (map ID (listing m o1))"
  by (simp add: map_ID_listing)

lemma sorted_by_ID_unique:
  assumes "sorted (map ID xs)" "distinct (map ID xs)" "sorted_wrt (<) (map ID ys)" "set xs = set ys"
  shows "xs = ys"
proof -
  have "map ID xs = map ID ys"
    using assms by (intro sorted_distinct_set_unique) (auto simp: strict_sorted_iff)
  moreover have "inj_on ID (set xs \<union> set ys)"
    using assms(2,4) by (simp add: distinct_map)
  ultimately show ?thesis by (rule map_inj_on)
qed

text \<open>The order in which the map was visited does not matter.\<close>

lemma sort_visited:
  assumes "keyed m" "set visited = ran m" "distinct (map ID visited)"
  shows "sort_key ID (filter (matches o1) visited) = listing m o1"
proof (rule sorted_by_ID_unique)
  have "distinct (map ID (filter (matches o1) visited))"
    using assms(3) by (simp add: distinct_map_filter)
  then show "distinct (map ID (sort_key ID (filter (matches o1) visited)))"
    by (simp add: distinct_map)
qed (use assms in \<open>simp_all add: strict_listing set_listing\<close>)

lemma listing_cursor:
  assumes "keyed m" "c \<noteq> []"
  shows "listing m (o1\<lparr>Cursor := c\<rparr>) = filter (\<lambda>d. c < ID d) (listing m (o1\<lparr>Cursor := []\<rparr>))"
proof (rule sorted_by_ID_unique)
  show "sorted_wrt (<) (map ID (filter (\<lambda>d. c < ID d) (listing m (o1\<lparr>Cursor := []\<rparr>))))"
    using strict_listing [OF assms(1), of "o1\<lparr>Cursor := []\<rparr>"]
    by (simp add: sorted_wrt_map sorted_wrt_filter)
qed (use assms strict_listing [OF assms(1)] in \<open>auto simp: set_listing matches_def strict_sorted_iff\<close>)

text \<open>Moving the cursor to a device of a listing keeps what comes after that device.\<close>

lemma listing_advance:
  assumes "keyed m" "ID d \<noteq> []" "d \<in> set (listing m (o1\<lparr>Cursor := c\<rparr>))"
  shows "listing m (o1\<lparr>Cursor := ID d\<rparr>) = filter (\<lambda>x. ID d < ID x) (listing m (o1\<lparr>Cursor := c\<rparr>))"
proof (cases "c = []")
  case True
  then show ?thesis using listing_cursor [OF assms(1,2)] by simp
next
  case False
  then have "c < ID d" using assms(1,3) by (simp add: set_listing matches_def)
  then have "filter (\<lambda>x. ID d < ID x) (filter (\<lambda>x. c < ID x) xs) = filter (\<lambda>x. ID d < ID x) xs" for xs
    by (auto intro: filter_cong)
  then show ?thesis unfolding listing_cursor [OF assms(1,2)] listing_cursor [OF assms(1) False] by (rule sym)
qed

section \<open>The contract of a repository\<close>

text \<open>
  What the handlers rely on, whichever store is behind the interface. \<open>content\<close> is the registry
  that a state of the store holds. A store may fail on its own account; the laws say what its
  answers mean when it gives one.
\<close>

locale device_store =
  fixes repo :: "'s Repository" and content :: "'s \<Rightarrow> string \<rightharpoonup> Device" and good :: "'s \<Rightarrow> bool"
    and uni :: "string \<Rightarrow> string"
  assumes content_keyed: "good s \<Longrightarrow> keyed (content s)"
    and create_inserts: "good s \<Longrightarrow> repo_Create repo d s = (Inr d', s') \<Longrightarrow>
      good s' \<and> content s (ID d') = None \<and> content s' = (content s)(ID d' \<mapsto> d') \<and>
      (\<exists>d1. Validate uni d = (None, d1) \<and> ID d' = ID d1 \<and> Name d' = Name d1 \<and> Site d' = Site d1 \<and> Kind d' = Kind d1)"
    and create_fails: "good s \<Longrightarrow> repo_Create repo d s = (Inl e, s') \<Longrightarrow>
      good s' \<and> content s' = content s \<and>
      (errors_Is e ErrInvalid \<longleftrightarrow> fst (Validate uni d) \<noteq> None) \<and>
      (errors_Is e ErrAlreadyExists \<longrightarrow> content s (ID (snd (Validate uni d))) \<noteq> None)"
    and get_finds: "good s \<Longrightarrow> repo_Get repo i s = (res, s') \<Longrightarrow>
      good s' \<and> content s' = content s \<and> (\<forall>d. res = Inr d \<longrightarrow> content s i = Some d) \<and>
      (\<forall>e. res = Inl e \<longrightarrow> errors_Is e ErrNotFound \<longrightarrow> content s i = None)"
    and list_pages: "good s \<Longrightarrow> repo_List repo o1 s = (pres, s') \<Longrightarrow>
      good s' \<and> content s' = content s \<and>
      (\<forall>p. pres = Inr p \<longrightarrow> p = make_page (Limit (Normalise uni o1)) (listing (content s) (Normalise uni o1)))"
begin

lemma create_then_get:
  assumes "good s" "repo_Create repo d s = (Inr d', s')" "repo_Get repo (ID d') s' = (Inr d2, s'')"
  shows "d2 = d'"
  using create_inserts [OF assms(1,2)] get_finds [of s' "ID d'" "Inr d2" s''] assms(3) by simp

lemma created_stays:
  assumes "good s" "content s i = Some d1"
  shows "content (snd (repo_Create repo d s)) i = Some d1"
proof -
  obtain res s' where r: "repo_Create repo d s = (res, s')" by fastforce
  show ?thesis
  proof (cases res)
    case (Inl e)
    with create_fails [OF assms(1), of d e s'] r assms(2) show ?thesis by simp
  next
    case (Inr d')
    with create_inserts [OF assms(1), of d d' s'] r assms(2) show ?thesis by auto
  qed
qed

lemma create_twice:
  assumes "good s" "repo_Create repo d s = (Inr d', s')" "repo_Create repo d s' = (res, s'')"
  shows "\<exists>e. res = Inl e \<and> \<not> errors_Is e ErrInvalid"
proof (cases res)
  case (Inr d2)
  with assms create_inserts [OF assms(1,2)] create_inserts [of s' d d2 s''] show ?thesis by fastforce
next
  case (Inl e)
  with assms create_inserts [OF assms(1,2)] create_fails [of s' d e s''] show ?thesis by fastforce
qed

end

section \<open>Following the cursors\<close>

text \<open>
  A client that reads a listing page by page, passing each page's cursor to the next call. The
  number of calls is bounded by the first argument; \<open>None\<close> means that it did not suffice or that a
  call failed.
\<close>

fun crawl :: "nat \<Rightarrow> 's Repository \<Rightarrow> string \<Rightarrow> int \<Rightarrow> string \<Rightarrow> 's \<Rightarrow> Device list option" where
  "crawl 0 repo site limit cursor s = None"
| "crawl (Suc n) repo site limit cursor s =
     (case repo_List repo \<lparr>lo_Site = site, Limit = limit, Cursor = cursor\<rparr> s of
        (Inl e, s) \<Rightarrow> None
      | (Inr p, s) \<Rightarrow>
          if NextCursor p = [] then Some (Devices p)
          else map_option (\<lambda>ds. Devices p @ ds) (crawl n repo site limit (NextCursor p) s))"

lemma page_rest:
  assumes "sorted_wrt (<) (map ID ds)" "0 < k" "k < length ds"
  shows "filter (\<lambda>d. ID (last (take k ds)) < ID d) ds = drop k ds"
proof -
  obtain xs y zs where ds: "ds = xs @ y # zs" "length xs = k - 1"
    using assms(2,3) id_take_nth_drop [of "k - 1" ds] by (metis length_take less_imp_diff_less min.absorb4)
  then have k: "take k ds = xs @ [y]" "drop k ds = zs" using assms(2) by (auto simp: take_Cons' drop_Cons')
  have "filter (\<lambda>d. ID y < ID d) xs = []"
    using assms(1) by (auto simp: ds sorted_wrt_append filter_empty_conv dest: order.asym)
  moreover have "filter (\<lambda>d. ID y < ID d) zs = zs"
    using assms(1) by (auto simp: ds sorted_wrt_append filter_id_conv)
  ultimately have "filter (\<lambda>d. ID y < ID d) ds = zs" by (simp add: ds)
  then show ?thesis unfolding k by simp
qed

lemma Normalise_limit: "0 < Limit (Normalise uni o1) \<and> Limit (Normalise uni o1) \<le> 200"
  by (simp add: Normalise_def Let_def defaultLimit_def maxLimit_def)

lemma Normalise_site: "lo_Site (Normalise uni o1) = ToLower uni (TrimSpace (lo_Site o1))"
  by (simp add: Normalise_def Let_def)

lemma Normalise_cursor:
  "Normalise uni \<lparr>lo_Site = site, Limit = limit, Cursor = c\<rparr> =
     (Normalise uni \<lparr>lo_Site = site, Limit = limit, Cursor = []\<rparr>)\<lparr>Cursor := ToLower uni (TrimSpace c)\<rparr>"
  by (simp add: Normalise_def Let_def)

context device_store
begin

text \<open>As long as the store answers, the pages put together are the whole listing, in order, each
  device once, after at most one call more than there are devices.\<close>

lemma crawl_from:
  assumes "good s" "\<And>o1 s. good s \<Longrightarrow> \<exists>p. fst (repo_List repo o1 s) = Inr p"
    and "base = Normalise uni \<lparr>lo_Site = site, Limit = limit, Cursor = []\<rparr>"
    and "cursor = [] \<or> idPattern cursor"
    and "length (listing (content s) (base\<lparr>Cursor := cursor\<rparr>)) < n"
  shows "crawl n repo site limit cursor s = Some (listing (content s) (base\<lparr>Cursor := cursor\<rparr>))"
  using assms(1,4,5)
proof (induction n arbitrary: cursor s)
  case (Suc n)
  let ?o = "\<lparr>lo_Site = site, Limit = limit, Cursor = cursor\<rparr>"
  let ?L = "listing (content s) (base\<lparr>Cursor := cursor\<rparr>)"
  let ?k = "Limit base"
  note keyed = content_keyed [OF Suc.prems(1)]
  have norm: "Normalise uni ?o = base\<lparr>Cursor := cursor\<rparr>"
    using Suc.prems(2) Normalise_cursor [of uni site limit cursor] idPattern_normal [of cursor uni]
    by (auto simp: assms(3))
  have k: "0 < ?k" using Normalise_limit by (simp add: assms(3))
  obtain s1 where call: "repo_List repo ?o s = (Inr (make_page ?k ?L), s1)" and s1: "good s1" "content s1 = content s"
    using list_pages [OF Suc.prems(1), of ?o] assms(2) [OF Suc.prems(1), of ?o]
    by (cases "repo_List repo ?o s") (auto simp: norm)
  show ?case
  proof (cases "?k < int (length ?L)")
    case False
    then show ?thesis using call by (simp add: make_page_def)
  next
    case True
    let ?c = "ID (last (take (nat ?k) ?L))"
    have len: "0 < nat ?k" "nat ?k < length ?L" using True k by auto
    then have last: "last (take (nat ?k) ?L) \<in> set ?L"
      by (intro in_set_takeD [OF last_in_set]) auto
    then have c: "idPattern ?c" using keyed set_listing [OF keyed] by (auto simp: keyed_def ran_def)
    then have ne: "?c \<noteq> []" by auto
    have "listing (content s) (base\<lparr>Cursor := ?c\<rparr>) = drop (nat ?k) ?L"
    proof -
      have "filter (\<lambda>d. ?c < ID d) ?L = drop (nat ?k) ?L"
        by (rule page_rest) (use keyed len in \<open>simp_all add: strict_listing\<close>)
      moreover have "listing (content s) (base\<lparr>Cursor := ?c\<rparr>) = filter (\<lambda>d. ?c < ID d) ?L"
        using keyed ne last by (rule listing_advance)
      ultimately show ?thesis by simp
    qed
    moreover from this have "crawl n repo site limit ?c s1 = Some (listing (content s1) (base\<lparr>Cursor := ?c\<rparr>))"
      using Suc.prems(3) len s1 c by (intro Suc.IH) (auto simp del: length_greater_0_conv)
    ultimately show ?thesis using call True s1 ne by (simp add: make_page_def)
  qed
qed simp

end

section \<open>The in-memory store keeps the contract\<close>

lemma mset_visit: "mset (visit ns xs) = mset xs"
proof (induction ns xs rule: visit.induct)
  case (3 n ns x xs)
  let ?ys = "x # xs" and ?i = "n mod length (x # xs)"
  have "?i < length ?ys" by simp
  then have "mset ?ys = add_mset (?ys ! ?i) (mset (take ?i ?ys @ drop (Suc ?i) ?ys))"
    by (metis id_take_nth_drop mset_append mset.simps(2) union_mset_add_mset_right)
  with 3 show ?case by (simp only: visit.simps Let_def mset.simps)
qed simp_all

definition memory_ok :: "MemoryRepository \<Rightarrow> bool" where
  "memory_ok r \<longleftrightarrow> distinct (map fst (devices r)) \<and>
     list_all (\<lambda>(i, d). ID d = i \<and> idPattern i) (devices r)"

definition memory_content :: "MemoryRepository \<Rightarrow> string \<rightharpoonup> Device" where
  "memory_content r = map_of (devices r)"

lemma memory_keyed: "memory_ok r \<Longrightarrow> keyed (memory_content r)"
  by (auto simp: memory_ok_def memory_content_def keyed_def list_all_iff finite_dom_map_of dest: map_of_SomeD)

lemma memory_visited:
  assumes "memory_ok r"
  shows "set (visit ns (map snd (devices r))) = ran (memory_content r)"
    and "distinct (map ID (visit ns (map snd (devices r))))"
proof -
  have m: "mset (visit ns (map snd (devices r))) = mset (map snd (devices r))" by (rule mset_visit)
  have "distinct (map fst (devices r))" using assms by (simp add: memory_ok_def)
  then show "set (visit ns (map snd (devices r))) = ran (memory_content r)"
    using mset_eq_setD [OF m] by (simp add: memory_content_def ran_distinct)
  have "map (ID \<circ> snd) (devices r) = map fst (devices r)"
    using assms by (auto simp: memory_ok_def list_all_iff)
  then have "distinct (map ID (map snd (devices r)))"
    using assms unfolding map_map memory_ok_def by metis
  moreover have "mset (map ID (visit ns (map snd (devices r)))) = mset (map ID (map snd (devices r)))"
    using m by (simp only: mset_map)
  ultimately show "distinct (map ID (visit ns (map snd (devices r))))" by (metis mset_eq_imp_distinct_iff)
qed

lemma Memory_List_listing:
  assumes "memory_ok r"
  shows "Memory_List uni o1 (visit ns (map snd (devices r))) =
    make_page (Limit (Normalise uni o1)) (listing (memory_content r) (Normalise uni o1))"
  unfolding Memory_List_def Let_def
  using sort_visited [OF memory_keyed [OF assms] memory_visited [OF assms]] by simp

lemma Memory_Create_ok: "memory_ok r \<Longrightarrow> memory_ok (snd (Memory_Create uni t d r))"
  using Validate_ok(1) [of uni d]
  by (auto simp: Memory_Create_def memory_ok_def map_of_eq_None_iff Let_def split: prod.splits option.splits)

lemma errors_distinct [simp]:
  "\<not> errors_Is (Wrapf p ErrAlreadyExists q) ErrInvalid" "\<not> errors_Is (Wrapf p ErrNotFound q) ErrInvalid"
  "\<not> errors_Is (invalid m) ErrAlreadyExists" "\<not> errors_Is (invalid m) ErrNotFound"
  "errors_Is (invalid m) ErrInvalid" "\<not> errors_Is (Wrapf p ErrNotFound q) ErrAlreadyExists"
  "\<not> errors_Is (Wrapf p ErrAlreadyExists q) ErrNotFound" "errors_Is (Wrapf p ErrAlreadyExists q) ErrAlreadyExists"
  "errors_Is (Wrapf p ErrNotFound q) ErrNotFound"
  by (simp_all add: invalid_def ErrAlreadyExists_def ErrInvalid_def ErrNotFound_def)

interpretation mem: device_store "memory_repository uni now order" memory_content memory_ok uni
  for uni now order
proof unfold_locales
  fix r :: MemoryRepository and d d' :: Device and r'
  assume ok: "memory_ok r" and c: "repo_Create (memory_repository uni now order) d r = (Inr d', r')"
  have "memory_ok r'" using Memory_Create_ok [OF ok, of uni "now r" d] c by (simp add: memory_repository_def)
  with c show "memory_ok r' \<and> memory_content r (ID d') = None \<and> memory_content r' = (memory_content r)(ID d' \<mapsto> d') \<and>
      (\<exists>d1. Validate uni d = (None, d1) \<and> ID d' = ID d1 \<and> Name d' = Name d1 \<and> Site d' = Site d1 \<and> Kind d' = Kind d1)"
    by (auto simp: memory_repository_def Memory_Create_def memory_content_def Let_def fun_eq_iff map_add_def
        split: prod.splits option.splits if_splits)
next
  fix r :: MemoryRepository and d :: Device and e r'
  assume "memory_ok r" "repo_Create (memory_repository uni now order) d r = (Inl e, r')"
  then show "memory_ok r' \<and> memory_content r' = memory_content r \<and>
      (errors_Is e ErrInvalid \<longleftrightarrow> fst (Validate uni d) \<noteq> None) \<and>
      (errors_Is e ErrAlreadyExists \<longrightarrow> memory_content r (ID (snd (Validate uni d))) \<noteq> None)"
    using Validate_error [of uni d e]
    by (auto simp: memory_repository_def Memory_Create_def memory_content_def Let_def simp del: errors_Is.simps
        split: prod.splits option.splits if_splits)
next
  fix r :: MemoryRepository and i res r'
  assume "memory_ok r" "repo_Get (memory_repository uni now order) i r = (res, r')"
  then show "memory_ok r' \<and> memory_content r' = memory_content r \<and>
      (\<forall>d. res = Inr d \<longrightarrow> memory_content r i = Some d) \<and>
      (\<forall>e. res = Inl e \<longrightarrow> errors_Is e ErrNotFound \<longrightarrow> memory_content r i = None)"
    by (auto simp: memory_repository_def Memory_Get_def memory_content_def split: option.splits)
next
  fix r :: MemoryRepository and o1 pres r'
  assume "memory_ok r" "repo_List (memory_repository uni now order) o1 r = (pres, r')"
  then show "memory_ok r' \<and> memory_content r' = memory_content r \<and>
      (\<forall>p. pres = Inr p \<longrightarrow> p = make_page (Limit (Normalise uni o1)) (listing (memory_content r) (Normalise uni o1)))"
    by (auto simp: memory_repository_def Memory_List_listing)
qed (rule memory_keyed)

section \<open>Validation is idempotent\<close>

lemma strip_seqs_map:
  assumes "\<And>p c x. p \<in> set ps \<Longrightarrow> c \<in> set p \<Longrightarrow> (f x = c) = (x = c)"
  shows "strip_seqs ps n (map f s) = map f (strip_seqs ps n s)"
proof -
  have pre: "prefix p (map f s) = prefix p s" if "p \<in> set ps" for p s
  proof -
    have "prefix q (map f s) = prefix q s" if "set q \<subseteq> set p" for q
      using that
    proof (induction q arbitrary: s)
      case (Cons c q)
      have "(c = f x) = (c = x)" for x using assms [OF \<open>p \<in> set ps\<close>, of c x] Cons.prems by auto
      with Cons show ?case by (cases s) simp_all
    qed simp
    then show ?thesis by blast
  qed
  show ?thesis
  proof (induction n arbitrary: s)
    case (Suc n)
    have "find (\<lambda>p. prefix p (map f s)) ps = find (\<lambda>p. prefix p s) ps"
      by (rule find_cong) (simp_all add: pre)
    then show ?case using Suc by (simp add: drop_map split: option.split)
  qed simp
qed

lemma go_spaces_not_lower:
  "list_all (list_all (\<lambda>c. \<not> (97 \<le> (of_char c :: nat) \<and> (of_char c :: nat) \<le> 122) \<and> \<not> (65 \<le> (of_char c :: nat) \<and> (of_char c :: nat) \<le> 90))) go_spaces"
  by code_simp

lemma ascii_lower_space: "p \<in> set go_spaces \<Longrightarrow> c \<in> set p \<Longrightarrow> (ascii_lower x = c) = (x = c)"
proof -
  assume "p \<in> set go_spaces" "c \<in> set p"
  with go_spaces_not_lower have c: "\<not> (97 \<le> (of_char c :: nat) \<and> (of_char c :: nat) \<le> 122)"
    "\<not> (65 \<le> (of_char c :: nat) \<and> (of_char c :: nat) \<le> 90)" by (auto simp: list_all_iff)
  show ?thesis
  proof (cases "65 \<le> (of_char x :: nat) \<and> (of_char x :: nat) \<le> 90")
    case True
    then have "(of_char (ascii_lower x) :: nat) = of_char x + 32" by (simp add: ascii_lower_def)
    with True c show ?thesis by auto
  qed (auto simp: ascii_lower_def)
qed

lemma TrimSpace_lower: "TrimSpace (map ascii_lower s) = map ascii_lower (TrimSpace s)"
proof -
  have "strip_seqs (map rev go_spaces) n (map ascii_lower (rev u)) = map ascii_lower (strip_seqs (map rev go_spaces) n (rev u))" for n u
  proof (rule strip_seqs_map)
    fix p c x assume "p \<in> set (map rev go_spaces)" "c \<in> set p"
    then obtain q where "q \<in> set go_spaces" "c \<in> set q" by auto
    then show "(ascii_lower x = c) = (x = c)" by (rule ascii_lower_space)
  qed
  moreover have "strip_seqs go_spaces n (map ascii_lower u) = map ascii_lower (strip_seqs go_spaces n u)" for n u
    by (rule strip_seqs_map) (rule ascii_lower_space)
  ultimately show ?thesis
    by (simp add: TrimSpace_def TrimLeftSpace_def TrimRightSpace_def rev_map)
qed

lemma isASCII_TrimSpace: "isASCII s \<Longrightarrow> isASCII (TrimSpace s)"
  using set_TrimSpace [of s] by (auto simp: isASCII_def list_all_iff)

lemma normal_idem:
  assumes "isASCII s"
  shows "ToLower uni (TrimSpace (ToLower uni (TrimSpace s))) = ToLower uni (TrimSpace s)"
proof -
  have a: "isASCII (TrimSpace s)" using assms by (rule isASCII_TrimSpace)
  then have "TrimSpace (ToLower uni (TrimSpace s)) = ToLower uni (TrimSpace s)"
    by (simp add: ToLower_def TrimSpace_lower)
  with ToLower_idem_ascii [OF a] show ?thesis by simp
qed

text \<open>
  C35. A device that passes validation is in normal form and within every limit, whatever its texts are: its id
  matches the pattern, name, site and kind are non-empty and of bounded length (in bytes), its id and name are
  trimmed, and its id in lower case, already. When the site and the kind that were submitted are ASCII,
  validating the device again, as a client that stores back a device it read does, changes nothing; for
  other texts that depends on the case tables of Unicode, which are not modelled.
\<close>

theorem validate_normal_form:
  assumes "Validate uni d = (None, d')"
  shows "idPattern (ID d') \<and> Name d' \<noteq> [] \<and> length (Name d') \<le> 200 \<and> Site d' \<noteq> [] \<and> length (Site d') \<le> 100 \<and>
    Kind d' \<noteq> [] \<and> length (Kind d') \<le> 100 \<and>
    ToLower uni (TrimSpace (ID d')) = ID d' \<and> TrimSpace (Name d') = Name d' \<and>
    (isASCII (Site d) \<and> isASCII (Kind d) \<longrightarrow> Validate uni d' = (None, d'))"
proof -
  note ok = Validate_ok [OF assms]
  have site: "Site d' = ToLower uni (TrimSpace (Site d))"
    using assms by (auto simp: Validate_unfold split: if_splits)
  have "Kind d' = ToLower uni (TrimSpace (Kind d)) \<or> Kind d' = ''unknown''"
    using assms by (auto simp: Validate_unfold split: if_splits)
  moreover have "ToLower uni (TrimSpace ''unknown'') = ''unknown''"
    by (rule idPattern_normal) code_simp
  ultimately have kind: "ToLower uni (TrimSpace (Kind d')) = Kind d'" if "isASCII (Kind d)" using normal_idem [OF that] by auto
  have "Validate uni d' = (None, d')" if "isASCII (Site d)" "isASCII (Kind d)"
  proof -
    have "normalised uni d' = d'"
      using ok(1,8) kind [OF that(2)] normal_idem [OF that(1)] by (simp add: normalised_def idPattern_normal site)
    moreover have "ID d' \<noteq> []" using ok(1) by auto
    ultimately show ?thesis using ok by (simp add: Validate_def)
  qed
  with ok idPattern_normal [OF ok(1)] show ?thesis by blast
qed

definition wit_device :: Device where
  "wit_device = \<lparr>ID = '' Pump-7 '', Name = '' Pump '', Site = '' North'', Kind = [], CreatedAt = 0, UpdatedAt = 0\<rparr>"

lemma wit_device_valid:
  "Validate (\<lambda>s. s) wit_device = (None, wit_device\<lparr>ID := ''pump-7'', Name := ''Pump'', Site := ''north'', Kind := ''unknown''\<rparr>)"
  by code_simp

lemma validate_normal_form_witness:
  "Validate (\<lambda>s. s) (wit_device\<lparr>ID := ''pump-7'', Name := ''Pump'', Site := ''north'', Kind := ''unknown''\<rparr>) =
     (None, wit_device\<lparr>ID := ''pump-7'', Name := ''Pump'', Site := ''north'', Kind := ''unknown''\<rparr>)"
proof -
  have "isASCII (Site wit_device)" "isASCII (Kind wit_device)" by code_simp+
  with validate_normal_form [OF wit_device_valid] show ?thesis by simp
qed

section \<open>Properties of the store\<close>

lemma memory_reachable:
  "memory_ok (foldl (\<lambda>r (t, d). snd (Memory_Create uni t d r)) NewMemoryRepository cs)"
proof -
  have "memory_ok r \<Longrightarrow> memory_ok (foldl (\<lambda>r (t, d). snd (Memory_Create uni t d r)) r cs)" for r
    by (induction cs arbitrary: r) (auto simp: Memory_Create_ok)
  then show ?thesis by (simp add: NewMemoryRepository_def memory_ok_def)
qed

text \<open>
  C2. Keyset pagination visits everything exactly once: for every store that a sequence of creations
  builds, every site filter, every page size and every order in which Go visits the map, following
  the cursors ends after at most one call more than there are devices, and the pages put together
  are the matching devices in strictly increasing order of their ids.
\<close>

theorem pagination_complete:
  assumes "r = foldl (\<lambda>r (t, d). snd (Memory_Create uni t d r)) NewMemoryRepository cs"
  shows "\<exists>ds. crawl (Suc (length (devices r))) (memory_repository uni now order) site limit [] r = Some ds \<and>
    sorted_wrt (<) (map ID ds) \<and>
    set ds = {d \<in> snd ` set (devices r).
      ToLower uni (TrimSpace site) = [] \<or> Site d = ToLower uni (TrimSpace site)}"
proof -
  have ok: "memory_ok r" unfolding assms by (rule memory_reachable)
  let ?base = "Normalise uni \<lparr>lo_Site = site, Limit = limit, Cursor = []\<rparr>"
  let ?L = "listing (memory_content r) (?base\<lparr>Cursor := []\<rparr>)"
  note keyed = memory_keyed [OF ok]
  have ran: "ran (memory_content r) = snd ` set (devices r)"
    using ok by (simp add: memory_content_def memory_ok_def ran_distinct)
  have set: "set ?L = {d \<in> snd ` set (devices r). ToLower uni (TrimSpace site) = [] \<or> Site d = ToLower uni (TrimSpace site)}"
    using set_listing [OF keyed, of "?base\<lparr>Cursor := []\<rparr>"] by (auto simp: ran matches_def Normalise_site)
  have "distinct ?L" using strict_listing [OF keyed] by (metis distinct_map strict_sorted_iff)
  then have "length ?L = card (set ?L)" by (simp add: distinct_card)
  also have "\<dots> \<le> card (snd ` set (devices r))" unfolding set by (intro card_mono) auto
  also have "\<dots> \<le> length (devices r)" by (metis card_length image_set length_map)
  finally have "length ?L < Suc (length (devices r))" by simp
  with ok have "crawl (Suc (length (devices r))) (memory_repository uni now order) site limit [] r = Some ?L"
    by (intro mem.crawl_from) (simp_all add: memory_repository_def)
  with set strict_listing [OF keyed] show ?thesis by blast
qed

lemma wit_fan_valid:
  "Validate (\<lambda>s. s) (wit_device\<lparr>ID := ''fan-1''\<rparr>) =
     (None, wit_device\<lparr>ID := ''fan-1'', Name := ''Pump'', Site := ''north'', Kind := ''unknown''\<rparr>)"
  by code_simp

lemma pagination_complete_witness:
  "\<exists>ds. crawl 3 (memory_repository (\<lambda>s. s) (\<lambda>_. 0) (\<lambda>_ _. [1])) [] 1 []
      (foldl (\<lambda>r (t, d). snd (Memory_Create (\<lambda>s. s) t d r)) NewMemoryRepository
        [(5, wit_device), (6, wit_device\<lparr>ID := ''fan-1''\<rparr>)]) = Some ds \<and> map ID ds = [''fan-1'', ''pump-7'']"
proof -
  define r where "r = foldl (\<lambda>r (t, d). snd (Memory_Create (\<lambda>s. s) t d r)) NewMemoryRepository
        [(5, wit_device), (6, wit_device\<lparr>ID := ''fan-1''\<rparr>)]"
  have l: "length (devices r) = 2" "map (ID \<circ> snd) (devices r) = [''pump-7'', ''fan-1'']"
    by (simp_all add: r_def Memory_Create_def wit_device_valid wit_fan_valid NewMemoryRepository_def Let_def)
  obtain ds where ds: "crawl (Suc (length (devices r))) (memory_repository (\<lambda>s. s) (\<lambda>_. 0) (\<lambda>_ _. [1])) [] 1 [] r = Some ds"
    "sorted_wrt (<) (map ID ds)"
    "set ds = {d \<in> snd ` set (devices r). ToLower (\<lambda>s. s) (TrimSpace []) = [] \<or> Site d = ToLower (\<lambda>s. s) (TrimSpace [])}"
    using pagination_complete [OF r_def, of "\<lambda>_. 0" "\<lambda>_ _. [1]" "[]" 1] by blast
  have "set (map ID ds) = set (map (ID \<circ> snd) (devices r))" using ds(3) by (simp add: image_comp)
  then have "set (map ID ds) = set [''fan-1'', ''pump-7'']" unfolding l(2) by auto
  then have "map ID ds = [''fan-1'', ''pump-7'']"
    using ds(2) by (intro sorted_distinct_set_unique) (auto simp: strict_sorted_iff)
  moreover have "Suc (length (devices r)) = 3" by (simp add: l(1))
  ultimately show ?thesis using ds(1) unfolding r_def [symmetric] by metis
qed

lemma Memory_Create_cases:
  assumes "Memory_Create uni t d r = (Inr d', r')"
  obtains d1 where "Validate uni d = (None, d1)" "d' = d1\<lparr>CreatedAt := t, UpdatedAt := t\<rparr>"
    "map_of (devices r) (ID d1) = None" "map_of (devices r') = (map_of (devices r))(ID d1 \<mapsto> d')"
proof -
  from assms obtain d1 where d1: "Validate uni d = (None, d1)" "d' = d1\<lparr>CreatedAt := t, UpdatedAt := t\<rparr>"
    "map_of (devices r) (ID d1) = None" "r' = r\<lparr>devices := devices r @ [(ID d1, d')]\<rparr>"
    by (auto simp: Memory_Create_def Let_def split: prod.splits option.splits if_splits)
  then have "map_of (devices r') = (map_of (devices r))(ID d1 \<mapsto> d')"
    by (auto simp: fun_eq_iff map_add_def split: option.split)
  with d1 that show ?thesis by blast
qed

lemma Memory_Create_again:
  assumes "Memory_Create uni t d r = (Inr d', r')"
  shows "Memory_Create uni t2 d r' = (Inl (Wrapf [] ErrAlreadyExists ('': '' @ ID d')), r')"
  using assms by (rule Memory_Create_cases) (simp add: Memory_Create_def)

text \<open>
  A created device is what a later lookup of its id returns, with both timestamps set to the time
  of its creation, and no other lookup changes; a second creation of the same device is refused and
  changes nothing.
\<close>

lemma create_get_roundtrip:
  assumes "Memory_Create uni t d r = (Inr d', r')"
  shows "Memory_Get (ID d') r' = Inr d' \<and> CreatedAt d' = t \<and> UpdatedAt d' = t \<and>
    (\<forall>i. i \<noteq> ID d' \<longrightarrow> Memory_Get i r' = Memory_Get i r) \<and>
    Memory_Create uni t2 d r' = (Inl (Wrapf [] ErrAlreadyExists ('': '' @ ID d')), r')"
  using Memory_Create_again [OF assms] assms
  by (elim Memory_Create_cases) (simp add: Memory_Get_def)

end
