(* ===== verification/Postgres.thy ===== *)
theory Postgres
  imports Catalog
begin

text \<open>
  The production store, \<open>internal/catalog/postgres.go\<close>. The pgx driver and the database are not part
  of this repository: a pool is a record of functions of a world, which take the statement's text
  and its arguments. \<open>sql_devices\<close> states what the three statements of the repository mean to a
  database whose text order is the bytewise one, and under it the store keeps the contract
  \<open>device_store\<close>, so what is proved of that contract holds for it too.
\<close>

section \<open>The driver\<close>

datatype sql_arg = Text string | Integer int

text \<open>\<open>Query\<close>'s rows: what scanning each row gives, and the error after the last one.\<close>

record Rows =
  scans :: "(go_error + Device) list"
  rows_Err :: "go_error option"

record 'w Pool =
  pool_Exec :: "string \<Rightarrow> 'w \<Rightarrow> go_error option \<times> 'w"
  pool_QueryRow :: "string \<Rightarrow> sql_arg list \<Rightarrow> 'w \<Rightarrow> (go_error + Device) \<times> 'w"
  pool_Query :: "string \<Rightarrow> sql_arg list \<Rightarrow> 'w \<Rightarrow> (go_error + Rows) \<times> 'w"
  pool_Ping :: "'w \<Rightarrow> go_error option \<times> 'w"
  pool_Close :: "'w \<Rightarrow> 'w"

definition ErrNoRows :: go_error where
  "ErrNoRows = ErrVar ''pgx.ErrNoRows'' ''no rows in result set''"

fun errors_As_PgError :: "go_error \<Rightarrow> (string \<times> string) option" where
  "errors_As_PgError (PgError c m t) = Some (c, m)"
| "errors_As_PgError (Permanent e) = errors_As_PgError e"
| "errors_As_PgError (Wrapf p e q) = errors_As_PgError e"
| "errors_As_PgError _ = None"

fun errors_As_ConnectError :: "go_error \<Rightarrow> bool" where
  "errors_As_ConnectError (ConnectError t) = True"
| "errors_As_ConnectError (Permanent e) = errors_As_ConnectError e"
| "errors_As_ConnectError (Wrapf p e q) = errors_As_ConnectError e"
| "errors_As_ConnectError _ = False"

definition redact :: "go_error \<Rightarrow> go_error" where
  "redact err =
     (case errors_As_PgError err of
        Some (code, msg) \<Rightarrow> ErrText (''postgres error '' @ code @ '': '' @ msg)
      | None \<Rightarrow> if errors_As_ConnectError err then ErrText ''database connection failed'' else err)"

section \<open>Opening the pool\<close>

record PoolConfig =
  DSN :: string
  MaxConns :: int
  MinConns :: int
  MaxConnLifetime :: duration
  MaxConnIdleTime :: duration
  ConnectTimeout :: duration

definition PoolConfig_withDefaults :: "PoolConfig \<Rightarrow> PoolConfig" where
  "PoolConfig_withDefaults c =
     (let c = (if MaxConns c \<le> 0 then c\<lparr>MaxConns := 10\<rparr> else c);
          c = (if MinConns c < 0 then c\<lparr>MinConns := 0\<rparr> else c);
          c = (if MaxConnLifetime c \<le> 0 then c\<lparr>MaxConnLifetime := 30 * Minute\<rparr> else c);
          c = (if MaxConnIdleTime c \<le> 0 then c\<lparr>MaxConnIdleTime := 5 * Minute\<rparr> else c);
          c = (if ConnectTimeout c \<le> 0 then c\<lparr>ConnectTimeout := 5 * Second\<rparr> else c)
      in c)"

text \<open>
  The driver's constructors: \<open>parse\<close> checks the DSN, and \<open>open_pool\<close> is \<open>NewWithConfig\<close> on the parsed
  DSN with the five settings that the code copies into it.
\<close>

definition NewPostgresRepository ::
  "(string \<Rightarrow> go_error + 'c) \<Rightarrow> ('c \<Rightarrow> PoolConfig \<Rightarrow> 'w \<Rightarrow> (go_error + 'w Pool) \<times> 'w) \<Rightarrow> PoolConfig \<Rightarrow> 'w \<Rightarrow>
   (go_error + 'w Pool) \<times> 'w" where
  "NewPostgresRepository parse open_pool cfg w =
     (let cfg = PoolConfig_withDefaults cfg
      in case parse (DSN cfg) of
           Inl err \<Rightarrow> (Inl (Wrapf ''parse database DSN: '' (redact err) []), w)
         | Inr poolCfg \<Rightarrow>
             (case open_pool poolCfg cfg w of
                (Inl err, w) \<Rightarrow> (Inl (Wrapf ''open pool: '' (redact err) []), w)
              | (Inr pool, w) \<Rightarrow>
                  (case pool_Ping pool w of
                     (Some err, w) \<Rightarrow> (Inl (Wrapf ''ping database: '' (redact err) []), pool_Close pool w)
                   | (None, w) \<Rightarrow> (Inr pool, w))))"

definition Postgres_Close :: "'w Pool \<Rightarrow> 'w \<Rightarrow> 'w" where
  "Postgres_Close pool w = pool_Close pool w"

definition Postgres_Ping :: "'w Pool \<Rightarrow> 'w \<Rightarrow> go_error option \<times> 'w" where
  "Postgres_Ping pool w =
     (case pool_Ping pool w of (Some err, w) \<Rightarrow> (Some (redact err), w) | (None, w) \<Rightarrow> (None, w))"

text \<open>The statements, up to white space and comments.\<close>

definition sql_schema :: string where
  "sql_schema = ''CREATE TABLE IF NOT EXISTS devices (id TEXT PRIMARY KEY, name TEXT NOT NULL, site TEXT NOT NULL, kind TEXT NOT NULL DEFAULT ''
     @ [CHR 0x27] @ ''unknown'' @ [CHR 0x27]
     @ '', created_at TIMESTAMPTZ NOT NULL DEFAULT now(), updated_at TIMESTAMPTZ NOT NULL DEFAULT now());''
     @ ''CREATE INDEX IF NOT EXISTS devices_site_id_idx ON devices (site, id);''"

definition sql_insert :: string where
  "sql_insert = ''INSERT INTO devices (id, name, site, kind) VALUES ($1, $2, $3, $4) RETURNING id, name, site, kind, created_at, updated_at''"

definition sql_select :: string where
  "sql_select = ''SELECT id, name, site, kind, created_at, updated_at FROM devices WHERE id = $1''"

definition sql_list :: string where
  "sql_list = ''SELECT id, name, site, kind, created_at, updated_at FROM devices WHERE ($1 = '' @ [CHR 0x27, CHR 0x27]
     @ '' OR site = $1) AND ($2 = '' @ [CHR 0x27, CHR 0x27] @ '' OR id > $2) ORDER BY id LIMIT $3''"

definition Migrate :: "'w Pool \<Rightarrow> 'w \<Rightarrow> go_error option \<times> 'w" where
  "Migrate pool w =
     (case pool_Exec pool sql_schema w of
        (Some err, w) \<Rightarrow> (Some (Wrapf ''apply schema: '' (redact err) []), w)
      | (None, w) \<Rightarrow> (None, w))"

section \<open>Operations\<close>

definition insert_error :: "string \<Rightarrow> go_error \<Rightarrow> go_error" where
  "insert_error i err =
     (case errors_As_PgError err of
        Some (code, msg) \<Rightarrow>
          if code = ''23505'' then Wrapf [] ErrAlreadyExists ('': '' @ i) else Wrapf ''insert device: '' (redact err) []
      | None \<Rightarrow> Wrapf ''insert device: '' (redact err) [])"

definition Postgres_Create ::
  "(string \<Rightarrow> string) \<Rightarrow> 'w Pool \<Rightarrow> Device \<Rightarrow> 'w \<Rightarrow> (go_error + Device) \<times> 'w" where
  "Postgres_Create uni pool d w =
     (case Validate uni d of
        (Some err, d) \<Rightarrow> (Inl err, w)
      | (None, d) \<Rightarrow>
          (case pool_QueryRow pool sql_insert [Text (ID d), Text (Name d), Text (Site d), Text (Kind d)] w of
             (Inl err, w) \<Rightarrow> (Inl (insert_error (ID d) err), w)
           | (Inr d', w) \<Rightarrow> (Inr d', w)))"

definition Postgres_Get :: "'w Pool \<Rightarrow> string \<Rightarrow> 'w \<Rightarrow> (go_error + Device) \<times> 'w" where
  "Postgres_Get pool i w =
     (case pool_QueryRow pool sql_select [Text i] w of
        (Inl err, w) \<Rightarrow>
          if errors_Is err ErrNoRows then (Inl (Wrapf [] ErrNotFound ('': '' @ i)), w)
          else (Inl (Wrapf ''select device: '' (redact err) []), w)
      | (Inr d, w) \<Rightarrow> (Inr d, w))"

fun scan_rows :: "(go_error + Device) list \<Rightarrow> go_error + Device list" where
  "scan_rows [] = Inr []"
| "scan_rows (Inl err # rows) = Inl (Wrapf ''scan device: '' (redact err) [])"
| "scan_rows (Inr d # rows) = (case scan_rows rows of Inl e \<Rightarrow> Inl e | Inr ds \<Rightarrow> Inr (d # ds))"

definition Postgres_List ::
  "(string \<Rightarrow> string) \<Rightarrow> 'w Pool \<Rightarrow> ListOptions \<Rightarrow> 'w \<Rightarrow> (go_error + Page) \<times> 'w" where
  "Postgres_List uni pool opts w =
     (let opts = Normalise uni opts
      in case pool_Query pool sql_list [Text (lo_Site opts), Text (Cursor opts), Integer (Limit opts + 1)] w of
           (Inl err, w) \<Rightarrow> (Inl (Wrapf ''list devices: '' (redact err) []), w)
         | (Inr rows, w) \<Rightarrow>
             (case scan_rows (scans rows) of
                Inl e \<Rightarrow> (Inl e, w)
              | Inr ds \<Rightarrow>
                  (case rows_Err rows of
                     Some err \<Rightarrow> (Inl (Wrapf ''iterate devices: '' (redact err) []), w)
                   | None \<Rightarrow> (Inr (make_page (Limit opts) ds), w))))"

definition postgres_repository :: "(string \<Rightarrow> string) \<Rightarrow> 'w Pool \<Rightarrow> 'w Repository" where
  "postgres_repository uni pool =
     \<lparr>repo_Create = Postgres_Create uni pool, repo_Get = Postgres_Get pool,
      repo_List = Postgres_List uni pool, repo_Ping = Postgres_Ping pool\<rparr>"

section \<open>What the statements mean\<close>

text \<open>Errors that come from the driver: they do not carry the catalog's own sentinels.\<close>

definition driver_error :: "go_error \<Rightarrow> bool" where
  "driver_error e \<longleftrightarrow> \<not> errors_Is e ErrInvalid \<and> \<not> errors_Is e ErrAlreadyExists \<and> \<not> errors_Is e ErrNotFound"

definition sql_devices :: "'w Pool \<Rightarrow> ('w \<Rightarrow> string \<rightharpoonup> Device) \<Rightarrow> ('w \<Rightarrow> bool) \<Rightarrow> bool" where
  "sql_devices pool content good \<longleftrightarrow>
     (\<forall>w. good w \<longrightarrow> keyed (content w)) \<and>
     (\<forall>w i n s k res w'. good w \<longrightarrow> idPattern i \<longrightarrow>
        pool_QueryRow pool sql_insert [Text i, Text n, Text s, Text k] w = (res, w') \<longrightarrow>
        good w' \<and> (case res of
            Inr d \<Rightarrow> ID d = i \<and> Name d = n \<and> Site d = s \<and> Kind d = k \<and> content w i = None \<and> content w' = (content w)(i \<mapsto> d)
          | Inl e \<Rightarrow> driver_error e \<and> content w' = content w \<and>
              (\<forall>m. errors_As_PgError e = Some (''23505'', m) \<longrightarrow> content w i \<noteq> None))) \<and>
     (\<forall>w i res w'. good w \<longrightarrow> pool_QueryRow pool sql_select [Text i] w = (res, w') \<longrightarrow>
        good w' \<and> content w' = content w \<and> (case res of
            Inr d \<Rightarrow> content w i = Some d
          | Inl e \<Rightarrow> driver_error e \<and> (errors_Is e ErrNoRows \<longrightarrow> content w i = None))) \<and>
     (\<forall>w s c n res w'. good w \<longrightarrow> pool_Query pool sql_list [Text s, Text c, Integer n] w = (res, w') \<longrightarrow>
        good w' \<and> content w' = content w \<and> (case res of
            Inr rows \<Rightarrow> rows_Err rows = None \<longrightarrow> (\<forall>ds. scans rows = map Inr ds \<longrightarrow>
              ds = take (nat n) (listing (content w) \<lparr>lo_Site = s, Limit = n, Cursor = c\<rparr>))
          | Inl e \<Rightarrow> driver_error e))"

section \<open>The store keeps the contract\<close>

lemma redact_driver: "driver_error e \<Longrightarrow> driver_error (Wrapf p (redact e) q)"
  by (auto simp: driver_error_def redact_def ErrInvalid_def ErrAlreadyExists_def ErrNotFound_def
      split: option.split prod.split)

lemma driver_errorD:
  "driver_error e \<Longrightarrow> \<not> errors_Is e ErrInvalid" "driver_error e \<Longrightarrow> \<not> errors_Is e ErrAlreadyExists"
  "driver_error e \<Longrightarrow> \<not> errors_Is e ErrNotFound"
  by (simp_all add: driver_error_def)

lemma scan_rows_ok: "scan_rows xs = Inr ds \<Longrightarrow> xs = map Inr ds"
  by (induction xs arbitrary: ds rule: scan_rows.induct) (auto split: sum.splits)

text \<open>The one row more than the page holds decides whether there is a next page, like the whole listing.\<close>

lemma make_page_take: "0 < limit \<Longrightarrow> make_page limit (take (nat (limit + 1)) ds) = make_page limit ds"
  by (auto simp: make_page_def min_def nat_le_iff)

lemma listing_limit: "listing m (o1\<lparr>Limit := n\<rparr>) = listing m o1"
  by (simp add: listing_def matches_def)

lemma sql_insert_means:
  assumes "sql_devices pool content good" "good w" "idPattern i"
    "pool_QueryRow pool sql_insert [Text i, Text n, Text s, Text k] w = (res, w')"
  shows "good w' \<and> (case res of
            Inr d \<Rightarrow> ID d = i \<and> Name d = n \<and> Site d = s \<and> Kind d = k \<and> content w i = None \<and> content w' = (content w)(i \<mapsto> d)
          | Inl e \<Rightarrow> driver_error e \<and> content w' = content w \<and>
              (\<forall>m. errors_As_PgError e = Some (''23505'', m) \<longrightarrow> content w i \<noteq> None))"
  using assms(1) unfolding sql_devices_def using assms(2-4) by meson

lemma sql_select_means:
  assumes "sql_devices pool content good" "good w" "pool_QueryRow pool sql_select [Text i] w = (res, w')"
  shows "good w' \<and> content w' = content w \<and> (case res of
            Inr d \<Rightarrow> content w i = Some d
          | Inl e \<Rightarrow> driver_error e \<and> (errors_Is e ErrNoRows \<longrightarrow> content w i = None))"
  using assms(1) unfolding sql_devices_def using assms(2-3) by meson

lemma sql_list_means:
  assumes "sql_devices pool content good" "good w" "pool_Query pool sql_list [Text s, Text c, Integer n] w = (res, w')"
  shows "good w' \<and> content w' = content w \<and> (case res of
            Inr rows \<Rightarrow> rows_Err rows = None \<longrightarrow> (\<forall>ds. scans rows = map Inr ds \<longrightarrow>
              ds = take (nat n) (listing (content w) \<lparr>lo_Site = s, Limit = n, Cursor = c\<rparr>))
          | Inl e \<Rightarrow> driver_error e)"
  using assms(1) unfolding sql_devices_def using assms(2-3) by meson

lemma Postgres_List_page:
  assumes "sql_devices pool content good" "good w" "Postgres_List uni pool o1 w = (res, w')"
  shows "good w' \<and> content w' = content w \<and>
    (\<forall>p. res = Inr p \<longrightarrow> p = make_page (Limit (Normalise uni o1)) (listing (content w) (Normalise uni o1)))"
proof -
  let ?o = "Normalise uni o1"
  obtain q w1 where q: "pool_Query pool sql_list [Text (lo_Site ?o), Text (Cursor ?o), Integer (Limit ?o + 1)] w = (q, w1)"
    by fastforce
  note means = sql_list_means [OF assms(1,2) q]
  have L: "\<lparr>lo_Site = lo_Site ?o, Limit = Limit ?o + 1, Cursor = Cursor ?o\<rparr> = ?o\<lparr>Limit := Limit ?o + 1\<rparr>"
    by (simp add: ListOptions.defs)
  have w': "w' = w1" using assms(3) q by (auto simp: Postgres_List_def Let_def split: sum.splits option.splits)
  have "p = make_page (Limit ?o) (listing (content w) ?o)" if "res = Inr p" for p
  proof -
    from assms(3) that q obtain rows ds where r: "q = Inr rows" "scan_rows (scans rows) = Inr ds"
      "rows_Err rows = None" "p = make_page (Limit ?o) ds"
      by (auto simp: Postgres_List_def Let_def split: sum.splits option.splits)
    from means r scan_rows_ok [OF r(2)] have "ds = take (nat (Limit ?o + 1)) (listing (content w) ?o)"
      by (simp add: L listing_limit)
    with r(4) Normalise_limit [of uni o1] show ?thesis by (simp add: make_page_take)
  qed
  with means w' show ?thesis by blast
qed

theorem postgres_device_store:
  assumes "sql_devices pool content good"
  shows "device_store (postgres_repository uni pool) content good uni"
proof
  show "keyed (content w)" if "good w" for w using assms that unfolding sql_devices_def by meson
next
  fix w d d' w'
  assume w: "good w" and c: "repo_Create (postgres_repository uni pool) d w = (Inr d', w')"
  obtain d1 where v: "Validate uni d = (None, d1)"
    and q: "pool_QueryRow pool sql_insert [Text (ID d1), Text (Name d1), Text (Site d1), Text (Kind d1)] w = (Inr d', w')"
    using c by (auto simp: postgres_repository_def Postgres_Create_def split: prod.splits option.splits sum.splits)
  from sql_insert_means [OF assms w Validate_ok(1) [OF v] q] v
  show "good w' \<and> content w (ID d') = None \<and> content w' = (content w)(ID d' \<mapsto> d') \<and>
      (\<exists>d1. Validate uni d = (None, d1) \<and> ID d' = ID d1 \<and> Name d' = Name d1 \<and> Site d' = Site d1 \<and> Kind d' = Kind d1)"
    by auto
next
  fix w d e w'
  assume w: "good w" and c: "repo_Create (postgres_repository uni pool) d w = (Inl e, w')"
  show "good w' \<and> content w' = content w \<and> (errors_Is e ErrInvalid \<longleftrightarrow> fst (Validate uni d) \<noteq> None) \<and>
      (errors_Is e ErrAlreadyExists \<longrightarrow> content w (ID (snd (Validate uni d))) \<noteq> None)"
  proof (cases "Validate uni d")
    case (Pair v d1)
    show ?thesis
    proof (cases v)
      case (Some e1)
      with c Pair w Validate_error [of uni d e1 d1] show ?thesis
        by (auto simp: postgres_repository_def Postgres_Create_def simp del: errors_Is.simps)
    next
      case None
      with c Pair obtain e1 where e1: "e = insert_error (ID d1) e1"
        and q: "pool_QueryRow pool sql_insert [Text (ID d1), Text (Name d1), Text (Site d1), Text (Kind d1)] w = (Inl e1, w')"
        by (auto simp: postgres_repository_def Postgres_Create_def split: prod.splits sum.splits)
      have v: "Validate uni d = (None, d1)" using Pair None by simp
      from sql_insert_means [OF assms w Validate_ok(1) [OF v] q] have m: "good w'" "content w' = content w" "driver_error e1"
        "\<And>m. errors_As_PgError e1 = Some (''23505'', m) \<Longrightarrow> content w (ID d1) \<noteq> None" by auto
      have "\<not> errors_Is e ErrInvalid \<and> (errors_Is e ErrAlreadyExists \<longrightarrow> content w (ID d1) \<noteq> None)"
        using m(4) driver_errorD [OF redact_driver [OF m(3)]]
        by (auto simp: e1 insert_error_def simp del: errors_Is.simps split: option.splits prod.splits if_splits)
      with m v show ?thesis by simp
    qed
  qed
next
  fix w i res w'
  assume w: "good w" and c: "repo_Get (postgres_repository uni pool) i w = (res, w')"
  obtain q w1 where q: "pool_QueryRow pool sql_select [Text i] w = (q, w1)" by fastforce
  show "good w' \<and> content w' = content w \<and> (\<forall>d. res = Inr d \<longrightarrow> content w i = Some d) \<and>
      (\<forall>e. res = Inl e \<longrightarrow> errors_Is e ErrNotFound \<longrightarrow> content w i = None)"
    using sql_select_means [OF assms w q] c q driver_errorD(3) [OF redact_driver]
    by (cases q) (auto simp: postgres_repository_def Postgres_Get_def simp del: errors_Is.simps split: if_splits)
next
  fix w o1 pres w'
  assume "good w" "repo_List (postgres_repository uni pool) o1 w = (pres, w')"
  then show "good w' \<and> content w' = content w \<and>
      (\<forall>p. pres = Inr p \<longrightarrow> p = make_page (Limit (Normalise uni o1)) (listing (content w) (Normalise uni o1)))"
    using Postgres_List_page [OF assms, of w uni o1 pres w'] by (simp add: postgres_repository_def)
qed

section \<open>A table\<close>

text \<open>A pool over a table in memory, on which the statements do what \<open>sql_devices\<close> says.\<close>

definition table_QueryRow :: "string \<Rightarrow> sql_arg list \<Rightarrow> MemoryRepository \<Rightarrow> (go_error + Device) \<times> MemoryRepository" where
  "table_QueryRow sql args t =
     (case args of
        [Text i, Text n, Text s, Text k] \<Rightarrow>
          let d = \<lparr>ID = i, Name = n, Site = s, Kind = k, CreatedAt = 0, UpdatedAt = 0\<rparr>
          in if map_of (devices t) i \<noteq> None then (Inl (PgError ''23505'' ''duplicate key'' ''ERROR: duplicate key''), t)
             else (Inr d, t\<lparr>devices := devices t @ [(i, d)]\<rparr>)
      | [Text i] \<Rightarrow> (case map_of (devices t) i of None \<Rightarrow> (Inl ErrNoRows, t) | Some d \<Rightarrow> (Inr d, t))
      | _ \<Rightarrow> (Inl (ErrText ''bad arguments''), t))"

definition table_Query :: "string \<Rightarrow> sql_arg list \<Rightarrow> MemoryRepository \<Rightarrow> (go_error + Rows) \<times> MemoryRepository" where
  "table_Query sql args t =
     (case args of
        [Text s, Text c, Integer n] \<Rightarrow>
          (Inr \<lparr>scans = map Inr (take (nat n) (sort_key ID (filter (matches \<lparr>lo_Site = s, Limit = n, Cursor = c\<rparr>) (map snd (devices t))))),
                rows_Err = None\<rparr>, t)
      | _ \<Rightarrow> (Inl (ErrText ''bad arguments''), t))"

definition table_pool :: "MemoryRepository Pool" where
  "table_pool = \<lparr>pool_Exec = (\<lambda>_ t. (None, t)), pool_QueryRow = table_QueryRow, pool_Query = table_Query,
     pool_Ping = (\<lambda>t. (None, t)), pool_Close = (\<lambda>t. t)\<rparr>"

lemma driver_error_table: "driver_error ErrNoRows" "driver_error (PgError c m t)" "driver_error (ErrText t)"
  by (simp_all add: driver_error_def ErrNoRows_def ErrInvalid_def ErrAlreadyExists_def ErrNotFound_def)

lemma table_insert:
  assumes "memory_ok t" "idPattern i" "table_QueryRow q [Text i, Text n, Text s, Text k] t = (res, t')"
  shows "memory_ok t' \<and> (case res of
      Inr d \<Rightarrow> ID d = i \<and> Name d = n \<and> Site d = s \<and> Kind d = k \<and> memory_content t i = None \<and>
        memory_content t' = (memory_content t)(i \<mapsto> d)
    | Inl e \<Rightarrow> driver_error e \<and> memory_content t' = memory_content t \<and>
        (\<forall>m. errors_As_PgError e = Some (''23505'', m) \<longrightarrow> memory_content t i \<noteq> None))"
proof (cases "map_of (devices t) i")
  case None
  have "map_of (devices t @ [(i, d)]) = (map_of (devices t))(i \<mapsto> d)" for d
    using None by (auto simp: fun_eq_iff map_add_def split: option.split)
  with None assms show ?thesis
    by (auto simp: table_QueryRow_def Let_def memory_content_def memory_ok_def map_of_eq_None_iff)
next
  case (Some d)
  with assms show ?thesis by (auto simp: table_QueryRow_def Let_def memory_content_def driver_error_table)
qed

lemma table_sql: "sql_devices table_pool memory_content memory_ok"
  unfolding sql_devices_def
proof (intro conjI allI impI)
  show "keyed (memory_content t)" if "memory_ok t" for t using that by (rule memory_keyed)
next
  fix t i n s k res t'
  assume "memory_ok t" "idPattern i" "pool_QueryRow table_pool sql_insert [Text i, Text n, Text s, Text k] t = (res, t')"
  note r = table_insert [OF this(1,2), of sql_insert n s k res t'] this(3)
  then show "memory_ok t'" by (simp add: table_pool_def)
  show "case res of
      Inr d \<Rightarrow> ID d = i \<and> Name d = n \<and> Site d = s \<and> Kind d = k \<and> memory_content t i = None \<and>
        memory_content t' = (memory_content t)(i \<mapsto> d)
    | Inl e \<Rightarrow> driver_error e \<and> memory_content t' = memory_content t \<and>
        (\<forall>m. errors_As_PgError e = Some (''23505'', m) \<longrightarrow> memory_content t i \<noteq> None)"
    using r by (simp add: table_pool_def)
next
  fix t i res t'
  assume "memory_ok t" "pool_QueryRow table_pool sql_select [Text i] t = (res, t')"
  then show "memory_ok t'" "memory_content t' = memory_content t"
    "case res of Inr d \<Rightarrow> memory_content t i = Some d
     | Inl e \<Rightarrow> driver_error e \<and> (errors_Is e ErrNoRows \<longrightarrow> memory_content t i = None)"
    by (auto simp: table_pool_def table_QueryRow_def memory_content_def driver_error_table split: option.splits)
next
  fix t s c n res t'
  assume t: "memory_ok t" and q: "pool_Query table_pool sql_list [Text s, Text c, Integer n] t = (res, t')"
  have "sort_key ID (filter (matches o1) (map snd (devices t))) = listing (memory_content t) o1" for o1
    using sort_visited [OF memory_keyed [OF t] memory_visited [OF t, of "[]"], of o1] by simp
  with t q show "memory_ok t'" "memory_content t' = memory_content t"
    "case res of Inr rows \<Rightarrow> rows_Err rows = None \<longrightarrow> (\<forall>ds. scans rows = map Inr ds \<longrightarrow>
       ds = take (nat n) (listing (memory_content t) \<lparr>lo_Site = s, Limit = n, Cursor = c\<rparr>))
     | Inl e \<Rightarrow> driver_error e"
    by (auto simp: table_pool_def table_Query_def inj_map_eq_map)
qed

interpretation table: device_store "postgres_repository uni table_pool" memory_content memory_ok uni for uni
  by (rule postgres_device_store) (rule table_sql)

section \<open>Properties\<close>

text \<open>
  When the database answers a statement: a row or the lack of one; a created row or a violated key; a
  result all of whose rows can be read. Anything else is a failure of the database or of its connection.
\<close>

definition select_answered :: "'w Pool \<Rightarrow> string \<Rightarrow> 'w \<Rightarrow> bool" where
  "select_answered pool i w \<longleftrightarrow>
     (case fst (pool_QueryRow pool sql_select [Text i] w) of Inl e \<Rightarrow> errors_Is e ErrNoRows | Inr d \<Rightarrow> True)"

definition insert_answered :: "(string \<Rightarrow> string) \<Rightarrow> 'w Pool \<Rightarrow> Device \<Rightarrow> 'w \<Rightarrow> bool" where
  "insert_answered uni pool d w \<longleftrightarrow>
     (let d = snd (Validate uni d)
      in case fst (pool_QueryRow pool sql_insert [Text (ID d), Text (Name d), Text (Site d), Text (Kind d)] w) of
           Inl e \<Rightarrow> (case errors_As_PgError e of Some (code, m) \<Rightarrow> code = ''23505'' | None \<Rightarrow> False)
         | Inr d \<Rightarrow> True)"

definition list_answered :: "(string \<Rightarrow> string) \<Rightarrow> 'w Pool \<Rightarrow> ListOptions \<Rightarrow> 'w \<Rightarrow> bool" where
  "list_answered uni pool o1 w \<longleftrightarrow>
     (let o1 = Normalise uni o1
      in case fst (pool_Query pool sql_list [Text (lo_Site o1), Text (Cursor o1), Integer (Limit o1 + 1)] w) of
           Inl e \<Rightarrow> False | Inr rows \<Rightarrow> list_all (Not \<circ> isl) (scans rows) \<and> rows_Err rows = None)"

text \<open>A device without the two times, which the database sets by its own clock.\<close>

definition undated :: "Device \<Rightarrow> Device" where
  "undated d = d\<lparr>CreatedAt := 0, UpdatedAt := 0\<rparr>"

abbreviation undated_content :: "(string \<rightharpoonup> Device) \<Rightarrow> string \<rightharpoonup> Device" where
  "undated_content m \<equiv> map_option undated \<circ> m"

lemma undated_eq:
  "undated d = undated d' \<longleftrightarrow> ID d = ID d' \<and> Name d = Name d' \<and> Site d = Site d' \<and> Kind d = Kind d'"
  by (cases d; cases d') (simp add: undated_def)

lemma Postgres_Get_equals:
  assumes "sql_devices pool content good" "good w" "memory_content r = content w"
  shows "if select_answered pool i w then fst (Postgres_Get pool i w) = Memory_Get i r
     else \<exists>e. fst (Postgres_Get pool i w) = Inl e \<and> driver_error e"
    "good (snd (Postgres_Get pool i w)) \<and> content (snd (Postgres_Get pool i w)) = content w"
proof -
  obtain q w1 where q: "pool_QueryRow pool sql_select [Text i] w = (q, w1)" by (rule prod.exhaust)
  note means = sql_select_means [OF assms(1,2) q]
  have m: "map_of (devices r) i = content w i" using assms(3) by (metis memory_content_def)
  show "if select_answered pool i w then fst (Postgres_Get pool i w) = Memory_Get i r
     else \<exists>e. fst (Postgres_Get pool i w) = Inl e \<and> driver_error e"
  proof (cases q)
    case (Inl e)
    then show ?thesis using means redact_driver [of e]
      by (auto simp: select_answered_def Postgres_Get_def Memory_Get_def q m simp del: errors_Is.simps)
  qed (use means in \<open>simp add: select_answered_def Postgres_Get_def Memory_Get_def q m\<close>)
  show "good (snd (Postgres_Get pool i w)) \<and> content (snd (Postgres_Get pool i w)) = content w"
    using means by (simp add: Postgres_Get_def q split: sum.split)
qed

lemma scan_rows_answered: "list_all (Not \<circ> isl) xs \<longleftrightarrow> (\<exists>ds. scan_rows xs = Inr ds)"
  by (induction xs rule: scan_rows.induct) (auto split: sum.splits)

lemma Postgres_List_equals:
  assumes "sql_devices pool content good" "good w" "memory_ok r" "memory_content r = content w"
  shows "if list_answered uni pool o1 w
     then fst (Postgres_List uni pool o1 w) = Inr (Memory_List uni o1 (visit ns (map snd (devices r))))
     else \<exists>e. fst (Postgres_List uni pool o1 w) = Inl e"
    "good (snd (Postgres_List uni pool o1 w)) \<and> content (snd (Postgres_List uni pool o1 w)) = content w"
proof -
  obtain res w1 where l: "Postgres_List uni pool o1 w = (res, w1)" by (rule prod.exhaust)
  note page = Postgres_List_page [OF assms(1,2) l]
  have "list_answered uni pool o1 w \<longleftrightarrow> (\<exists>p. res = Inr p)"
    using l unfolding list_answered_def scan_rows_answered
    by (auto simp: Postgres_List_def Let_def split: sum.splits prod.splits option.splits)
  then show "if list_answered uni pool o1 w
     then fst (Postgres_List uni pool o1 w) = Inr (Memory_List uni o1 (visit ns (map snd (devices r))))
     else \<exists>e. fst (Postgres_List uni pool o1 w) = Inl e"
    using page assms(3,4) by (cases res) (auto simp: l Memory_List_listing)
  show "good (snd (Postgres_List uni pool o1 w)) \<and> content (snd (Postgres_List uni pool o1 w)) = content w"
    using page by (simp add: l)
qed

lemma Postgres_Create_equals:
  assumes "sql_devices pool content good" "good w" "memory_content r = content w"
  shows "if fst (Validate uni d) = None \<and> \<not> insert_answered uni pool d w
     then (\<exists>e. fst (Postgres_Create uni pool d w) = Inl e \<and> driver_error e) \<and> content (snd (Postgres_Create uni pool d w)) = content w
     else map_sum id undated (fst (Postgres_Create uni pool d w)) = map_sum id undated (fst (Memory_Create uni t d r)) \<and>
       undated_content (content (snd (Postgres_Create uni pool d w))) = undated_content (memory_content (snd (Memory_Create uni t d r)))"
    "good (snd (Postgres_Create uni pool d w))"
proof -
  obtain v d1 where v: "Validate uni d = (v, d1)" by (rule prod.exhaust)
  obtain q w1 where q: "pool_QueryRow pool sql_insert [Text (ID d1), Text (Name d1), Text (Site d1), Text (Kind d1)] w = (q, w1)"
    by (rule prod.exhaust)
  have m: "map_of (devices r) = content w" using assms(3) by (metis memory_content_def)
  let ?goal = "if fst (Validate uni d) = None \<and> \<not> insert_answered uni pool d w
     then (\<exists>e. fst (Postgres_Create uni pool d w) = Inl e \<and> driver_error e) \<and> content (snd (Postgres_Create uni pool d w)) = content w
     else map_sum id undated (fst (Postgres_Create uni pool d w)) = map_sum id undated (fst (Memory_Create uni t d r)) \<and>
       undated_content (content (snd (Postgres_Create uni pool d w))) = undated_content (memory_content (snd (Memory_Create uni t d r)))"
  have "?goal \<and> good (snd (Postgres_Create uni pool d w))"
  proof (cases v)
    case (Some e)
    then show ?thesis using assms(2) by (simp add: Postgres_Create_def Memory_Create_def v m memory_content_def)
  next
    case None
    with v have "Validate uni d = (None, d1)" by simp
    note means = sql_insert_means [OF assms(1,2) Validate_ok(1) [OF this] q]
    show ?thesis
    proof (cases q)
      case (Inl e)
      then have e: "driver_error e" "content w1 = content w" "good w1"
        "\<And>m. errors_As_PgError e = Some (''23505'', m) \<Longrightarrow> content w (ID d1) \<noteq> None" using means by simp_all
      have "driver_error (insert_error (ID d1) e)" if "\<not> insert_answered uni pool d w"
        using that redact_driver [OF e(1)]
        by (auto simp: insert_answered_def v q Inl insert_error_def split: option.splits prod.splits)
      moreover have "content w (ID d1) \<noteq> None" "insert_error (ID d1) e = Wrapf [] ErrAlreadyExists ('': '' @ ID d1)"
        if "insert_answered uni pool d w"
        using that e(4) by (auto simp: insert_answered_def v q Inl insert_error_def split: option.splits prod.splits)
      ultimately show ?thesis using e(2,3)
        by (auto simp: Postgres_Create_def Memory_Create_def v None q Inl m memory_content_def)
    next
      case (Inr d')
      then have d': "ID d' = ID d1" "Name d' = Name d1" "Site d' = Site d1" "Kind d' = Kind d1" "content w (ID d1) = None"
        "content w1 = (content w)(ID d1 \<mapsto> d')" "good w1" using means by simp_all
      let ?d = "d1\<lparr>CreatedAt := t, UpdatedAt := t\<rparr>"
      have u: "undated d' = undated ?d" using d' by (simp add: undated_eq)
      have "map_of (devices r @ [(ID d1, ?d)]) = (content w)(ID d1 \<mapsto> ?d)"
        using d'(5) m by (auto simp: fun_eq_iff map_add_def split: option.split)
      then show ?thesis using d' u
        by (auto simp: Postgres_Create_def Memory_Create_def v None q Inr m memory_content_def insert_answered_def
            fun_eq_iff Let_def)
    qed
  qed
  then show ?goal "good (snd (Postgres_Create uni pool d w))" by (rule conjunct1, rule conjunct2)
qed


definition wit_store :: MemoryRepository where
  "wit_store = snd (Memory_Create (\<lambda>s. s) 5 wit_device NewMemoryRepository)"

lemma wit_store_ok: "memory_ok wit_store"
  unfolding wit_store_def by (rule Memory_Create_ok) (simp add: memory_ok_def NewMemoryRepository_def)

text \<open>A table with one device: a lookup of it, a lookup of another, a listing, and its second creation.\<close>

lemma wit_store_table:
  "devices wit_store = [(''pump-7'', wit_device\<lparr>ID := ''pump-7'', Name := ''Pump'', Site := ''north'', Kind := ''unknown'', CreatedAt := 5, UpdatedAt := 5\<rparr>)]"
  by (simp add: wit_store_def Memory_Create_def wit_device_valid NewMemoryRepository_def Let_def)

lemma wit_select_answered: "select_answered table_pool i t"
  by (simp add: select_answered_def table_pool_def table_QueryRow_def split: option.split)

lemma wit_list_answered: "list_answered uni table_pool o1 t"
  by (auto simp: list_answered_def table_pool_def table_Query_def list_all_iff Let_def)

lemma wit_insert_answered: "insert_answered uni table_pool d t"
  by (simp add: insert_answered_def table_pool_def table_QueryRow_def Let_def)


subsection \<open>Redaction\<close>

text \<open>
  Two driver errors that differ at most in their details: both are a \<open>PgError\<close>, under any wrapping, with the same
  code and message, or both a \<open>ConnectError\<close>; any other error is like itself only. Two pools are alike when
  their functions are, and leave the same world.
\<close>

definition alike :: "go_error \<Rightarrow> go_error \<Rightarrow> bool" where
  "alike e e' \<longleftrightarrow>
     errors_As_PgError e = errors_As_PgError e' \<and>
     (errors_As_PgError e = None \<longrightarrow> errors_As_ConnectError e = errors_As_ConnectError e' \<and>
       (\<not> errors_As_ConnectError e \<longrightarrow> e = e'))"

definition rows_alike :: "Rows \<Rightarrow> Rows \<Rightarrow> bool" where
  "rows_alike rs rs' \<longleftrightarrow> list_all2 (rel_sum alike (=)) (scans rs) (scans rs') \<and> rel_option alike (rows_Err rs) (rows_Err rs')"

definition pools_alike :: "'w Pool \<Rightarrow> 'w Pool \<Rightarrow> bool" where
  "pools_alike p p' \<longleftrightarrow>
     (\<forall>q w. rel_prod (rel_option alike) (=) (pool_Exec p q w) (pool_Exec p' q w)) \<and>
     (\<forall>q args w. rel_prod (rel_sum alike (=)) (=) (pool_QueryRow p q args w) (pool_QueryRow p' q args w)) \<and>
     (\<forall>q args w. rel_prod (rel_sum alike rows_alike) (=) (pool_Query p q args w) (pool_Query p' q args w)) \<and>
     (\<forall>w. rel_prod (rel_option alike) (=) (pool_Ping p w) (pool_Ping p' w)) \<and>
     (\<forall>w. pool_Close p w = pool_Close p' w)"

lemma alike_PgError: "alike e e' \<Longrightarrow> errors_As_PgError e' = errors_As_PgError e"
  unfolding alike_def by (elim conjE) (rule sym)

lemma alike_redact:
  assumes "alike e e'" shows "redact e = redact e'"
proof (cases "errors_As_PgError e")
  case None
  with assms have "errors_As_ConnectError e' = errors_As_ConnectError e" "\<not> errors_As_ConnectError e \<Longrightarrow> e' = e"
    unfolding alike_def by blast+
  with None show ?thesis by (cases "errors_As_ConnectError e") (simp_all add: redact_def alike_PgError [OF assms])
qed (simp add: redact_def alike_PgError [OF assms] split_beta)

lemma driver_leaf:
  shows pg_leaf: "errors_As_PgError e \<noteq> None \<Longrightarrow> \<not> errors_Is e (ErrVar v t)"
    and connect_leaf: "errors_As_ConnectError e \<Longrightarrow> \<not> errors_Is e (ErrVar v t)"
  by (induction e) simp_all

lemma alike_NoRows:
  assumes "alike e e'" shows "errors_Is e ErrNoRows = errors_Is e' ErrNoRows"
proof (cases "errors_As_PgError e = None")
  case True
  show ?thesis
  proof (cases "errors_As_ConnectError e")
    case True
    then have "errors_As_ConnectError e'" using assms \<open>errors_As_PgError e = None\<close> by (simp add: alike_def)
    with True show ?thesis by (simp add: ErrNoRows_def connect_leaf)
  qed (use True assms in \<open>simp add: alike_def\<close>)
next
  case False
  then have "errors_As_PgError e' \<noteq> None" using assms by (simp add: alike_def)
  with False show ?thesis by (simp add: ErrNoRows_def pg_leaf)
qed

lemma alike_insert:
  assumes "alike e e'" shows "insert_error i e = insert_error i e'"
  unfolding insert_error_def alike_redact [OF assms] alike_PgError [OF assms] by (rule refl)

lemma rel_prodE:
  assumes "rel_prod R (=) x y"
  obtains a b w where "x = (a, w)" "y = (b, w)" "R a b"
  using assms by (cases x; cases y) auto

lemma alike_scan: "list_all2 (rel_sum alike (=)) xs ys \<Longrightarrow> scan_rows xs = scan_rows ys"
proof (induction xs ys rule: list_all2_induct)
  case (Cons x xs y ys)
  then show ?case by (cases x; cases y) (auto simp: alike_redact)
qed simp

lemma alike_Get:
  assumes "pools_alike p p'" shows "Postgres_Get p i w = Postgres_Get p' i w"
proof -
  have "rel_prod (rel_sum alike (=)) (=) (pool_QueryRow p sql_select [Text i] w) (pool_QueryRow p' sql_select [Text i] w)"
    using assms unfolding pools_alike_def by blast
  then obtain q q' w1 where q: "pool_QueryRow p sql_select [Text i] w = (q, w1)" "pool_QueryRow p' sql_select [Text i] w = (q', w1)"
    "rel_sum alike (=) q q'" by (rule rel_prodE)
  from q(3) show ?thesis
    by (cases rule: rel_sum.cases) (simp_all add: Postgres_Get_def q(1,2) alike_NoRows alike_redact)
qed

lemma alike_Create:
  assumes "pools_alike p p'" shows "Postgres_Create uni p d w = Postgres_Create uni p' d w"
proof -
  obtain v d1 where v: "Validate uni d = (v, d1)" by (rule prod.exhaust)
  let ?args = "[Text (ID d1), Text (Name d1), Text (Site d1), Text (Kind d1)]"
  have "rel_prod (rel_sum alike (=)) (=) (pool_QueryRow p sql_insert ?args w) (pool_QueryRow p' sql_insert ?args w)"
    using assms unfolding pools_alike_def by blast
  then obtain q q' w1 where q: "pool_QueryRow p sql_insert ?args w = (q, w1)" "pool_QueryRow p' sql_insert ?args w = (q', w1)"
    "rel_sum alike (=) q q'" by (rule rel_prodE)
  from q(3) show ?thesis
    by (cases rule: rel_sum.cases; cases v) (simp_all add: Postgres_Create_def v q(1,2) alike_insert)
qed

lemma alike_List:
  assumes "pools_alike p p'" shows "Postgres_List uni p o1 w = Postgres_List uni p' o1 w"
proof -
  let ?o = "Normalise uni o1"
  let ?args = "[Text (lo_Site ?o), Text (Cursor ?o), Integer (Limit ?o + 1)]"
  have "rel_prod (rel_sum alike rows_alike) (=) (pool_Query p sql_list ?args w) (pool_Query p' sql_list ?args w)"
    using assms unfolding pools_alike_def by blast
  then obtain q q' w1 where q: "pool_Query p sql_list ?args w = (q, w1)" "pool_Query p' sql_list ?args w = (q', w1)"
    "rel_sum alike rows_alike q q'" by (rule rel_prodE)
  from q(3) show ?thesis
  proof (cases rule: rel_sum.cases)
    case (2 rs rs')
    then have "scan_rows (scans rs) = scan_rows (scans rs')" "rel_option alike (rows_Err rs) (rows_Err rs')"
      by (simp_all add: rows_alike_def alike_scan)
    then show ?thesis using 2
      by (cases "rows_Err rs"; cases "rows_Err rs'"; cases "scan_rows (scans rs')")
        (simp_all add: Postgres_List_def q(1,2) alike_redact)
  qed (simp add: Postgres_List_def q(1,2) alike_redact)
qed

lemma alike_Ping:
  assumes "pools_alike p p'" shows "Postgres_Ping p w = Postgres_Ping p' w"
proof -
  have "rel_prod (rel_option alike) (=) (pool_Ping p w) (pool_Ping p' w)" using assms unfolding pools_alike_def by blast
  then obtain q q' w1 where q: "pool_Ping p w = (q, w1)" "pool_Ping p' w = (q', w1)" "rel_option alike q q'" by (rule rel_prodE)
  then show ?thesis by (cases q; cases q') (simp_all add: Postgres_Ping_def alike_redact)
qed

lemma alike_Migrate:
  assumes "pools_alike p p'" shows "Migrate p w = Migrate p' w"
proof -
  have "rel_prod (rel_option alike) (=) (pool_Exec p sql_schema w) (pool_Exec p' sql_schema w)"
    using assms unfolding pools_alike_def by blast
  then obtain q q' w1 where q: "pool_Exec p sql_schema w = (q, w1)" "pool_Exec p' sql_schema w = (q', w1)" "rel_option alike q q'"
    by (rule rel_prodE)
  then show ?thesis by (cases q; cases q') (simp_all add: Migrate_def alike_redact)
qed


text \<open>Two databases that refuse connections, each with its own address in the driver's error.\<close>

definition wit_unreachable :: "string \<Rightarrow> unit Pool" where
  "wit_unreachable addr = \<lparr>pool_Exec = (\<lambda>_ w. (Some (ConnectError addr), w)), pool_QueryRow = (\<lambda>_ _ w. (Inl (ConnectError addr), w)),
     pool_Query = (\<lambda>_ _ w. (Inl (Wrapf addr (ConnectError addr) []), w)), pool_Ping = (\<lambda>w. (Some (ConnectError addr), w)), pool_Close = (\<lambda>w. w)\<rparr>"

lemma wit_unreachable_alike: "pools_alike (wit_unreachable a) (wit_unreachable b)"
  by (simp add: pools_alike_def wit_unreachable_def alike_def)


text \<open>
  The error of a malformed DSN is neither of the two kinds: it is passed on as it is, text and all, although the
  comment beside it says that the DSN is never included.
\<close>

lemma dsn_error_kept:
  assumes "parse (DSN cfg) = Inl e" "errors_As_PgError e = None" "\<not> errors_As_ConnectError e"
  shows "\<exists>e'. NewPostgresRepository parse open_pool cfg w = (Inl e', w) \<and> errors_Is e' e \<and> Error e' = ''parse database DSN: '' @ Error e"
  using assms by (simp add: NewPostgresRepository_def PoolConfig_withDefaults_def redact_def Let_def)

end
