(* ===== verification/CatalogHttp.thy ===== *)
theory CatalogHttp
  imports Postgres Mux
begin

text \<open>
  The catalog's HTTP handlers, \<open>internal/catalog/handler.go\<close>, over any \<open>Repository\<close>. The repository's
  state is a component of the world that \<open>h_get\<close> and \<open>h_put\<close> read and replace. Decoding of the
  request body into a device, with unknown fields refused, is the argument \<open>h_decode\<close>.
\<close>

section \<open>Handlers\<close>

datatype catalog_json = DeviceJSON Device | PageJSON Page

record ('s, 'w) CatalogHandler =
  h_repo :: "'s Repository"
  h_get :: "'w \<Rightarrow> 's"
  h_put :: "'s \<Rightarrow> 'w \<Rightarrow> 'w"
  h_env :: "'w Env"
  h_uni :: "string \<Rightarrow> string"
  h_decode :: "ReqBody \<Rightarrow> go_error + Device"

definition on_repo :: "('s, 'w) CatalogHandler \<Rightarrow> ('s \<Rightarrow> 'a \<times> 's) \<Rightarrow> 'w \<Rightarrow> 'a \<times> 'w" where
  "on_repo h f w = (let (a, s) = f (h_get h w) in (a, h_put h s w))"

definition writeRepoError ::
  "('s, 'w) CatalogHandler \<Rightarrow> 'w Request \<Rightarrow> go_error \<Rightarrow> 'w \<Rightarrow> catalog_json run \<times> 'w" where
  "writeRepoError h r err w =
     (if errors_Is err ErrNotFound then
        (respond r (WriteProblem r 404 ''device_not_found'' ''No device is registered with that id.''), w)
      else if errors_Is err ErrAlreadyExists then
        (respond r (WriteProblem r 409 ''device_exists'' ''A device with that id is already registered.''), w)
      else if errors_Is err ErrInvalid then
        (respond r (WriteProblem r 400 ''invalid_device'' (TrimPrefix (Error err) ''device is invalid: '')), w)
      else
        (respond r (WriteProblem r 500 ''internal_error'' ''The request could not be completed.''),
         env_emit (h_env h) (Log LevelError ''repository call failed'' (LoggerFrom (Ctx r) @ [(''error'', AError err)])) w))"

definition Catalog_Get :: "('s, 'w) CatalogHandler \<Rightarrow> (catalog_json, 'w) Handler" where
  "Catalog_Get h r w =
     (let i = ToLower (h_uni h) (TrimSpace (PathValue r ''id''))
      in if i = [] then (respond r (WriteProblem r 400 ''invalid_request'' ''A device id is required.''), w)
         else (case on_repo h (repo_Get (h_repo h) i) w of
                 (Inl err, w) \<Rightarrow> writeRepoError h r err w
               | (Inr d, w) \<Rightarrow> (respond r (WriteJSON 200 (DeviceJSON d)), w)))"

definition list_limit :: "'w Request \<Rightarrow> string + int" where
  "list_limit r =
     (let raw = Query_Get r ''limit''
      in if raw = [] then Inr 0
         else (case Atoi raw of
                 None \<Rightarrow> Inl ''limit must be an integer.''
               | Some limit \<Rightarrow> if limit < 0 then Inl ''limit must not be negative.'' else Inr limit))"

definition Catalog_List :: "('s, 'w) CatalogHandler \<Rightarrow> (catalog_json, 'w) Handler" where
  "Catalog_List h r w =
     (case list_limit r of
        Inl detail \<Rightarrow> (respond r (WriteProblem r 400 ''invalid_request'' detail), w)
      | Inr limit \<Rightarrow>
          (case on_repo h (repo_List (h_repo h)
                  \<lparr>lo_Site = Query_Get r ''site'', Limit = limit, Cursor = Query_Get r ''cursor''\<rparr>) w of
             (Inl err, w) \<Rightarrow> writeRepoError h r err w
           | (Inr page, w) \<Rightarrow> (respond r (WriteJSON 200 (PageJSON page)), w)))"

definition Catalog_Create :: "('s, 'w) CatalogHandler \<Rightarrow> (catalog_json, 'w) Handler" where
  "Catalog_Create h r w =
     (case h_decode h (Body r) of
        Inl err \<Rightarrow> (respond r (WriteProblem r 400 ''invalid_request'' ''The request body is not a valid device.''), w)
      | Inr device \<Rightarrow>
          (case on_repo h (repo_Create (h_repo h) (device\<lparr>CreatedAt := zeroTime, UpdatedAt := zeroTime\<rparr>)) w of
             (Inl err, w) \<Rightarrow> writeRepoError h r err w
           | (Inr d, w) \<Rightarrow>
               (respond r (HeaderSet ''Location'' (''/v1/devices/'' @ ID d) # WriteJSON 201 (DeviceJSON d)), w)))"

definition Catalog_Routes :: "('s, 'w) CatalogHandler \<Rightarrow> (catalog_json, 'w) Route list" where
  "Catalog_Routes h =
     [\<lparr>route_method = ''GET'', route_segs = [Lit ''v1'', Lit ''devices''], route_pattern = ''GET /v1/devices'',
       route_handler = Catalog_List h\<rparr>,
      \<lparr>route_method = ''POST'', route_segs = [Lit ''v1'', Lit ''devices''], route_pattern = ''POST /v1/devices'',
       route_handler = Catalog_Create h\<rparr>,
      \<lparr>route_method = ''GET'', route_segs = [Lit ''v1'', Lit ''devices'', Wild ''id''],
       route_pattern = ''GET /v1/devices/{id}'', route_handler = Catalog_Get h\<rparr>]"

section \<open>Errors\<close>

lemma TrimPrefix_append: "TrimPrefix (p @ s) p = s"
  by (simp add: TrimPrefix_def CutPrefix_def)

lemma Error_invalid: "Error (invalid msg) = ''device is invalid: '' @ msg"
  by (simp add: invalid_def ErrInvalid_def)

text \<open>
  Repository errors reach the client as 404, 409, 400 or 500, by sentinel; the answer to an error
  without a sentinel does not depend on the error, so nothing of a driver error is disclosed; and a
  validation error discloses exactly the message written for it.
\<close>

theorem repo_error_mapping:
  "run_status (fst (writeRepoError h r err w)) =
     (if errors_Is err ErrNotFound then 404 else if errors_Is err ErrAlreadyExists then 409
      else if errors_Is err ErrInvalid then 400 else 500) \<and>
   (if driver_error err then fst (writeRepoError h r err w) =
      respond r (WriteProblem r 500 ''internal_error'' ''The request could not be completed.'') else True) \<and>
   run_bodies (fst (writeRepoError h r (invalid msg) w)) = [ProblemBody (problem r 400 ''invalid_device'' msg)]"
proof (intro conjI)
  show "run_bodies (fst (writeRepoError h r (invalid msg) w)) = [ProblemBody (problem r 400 ''invalid_device'' msg)]"
    unfolding writeRepoError_def Error_invalid TrimPrefix_append by (simp del: errors_Is.simps)
qed (simp_all add: writeRepoError_def driver_error_def del: errors_Is.simps)

section \<open>Creating, reading back and creating again\<close>

lemma id_rest_not_slash: "id_rest c \<Longrightarrow> c \<noteq> CHR ''/''"
  using id_rest_range [of c] by auto

lemma clean_device_path:
  assumes "idPattern i"
  shows "cleanPath (''/v1/devices/'' @ i) = ''/v1/devices/'' @ i"
    "match_segs [Lit ''v1'', Lit ''devices'', Wild ''id''] (path_segs (''/v1/devices/'' @ i)) = Some [(''id'', i)]"
    "match_segs [Lit ''v1'', Lit ''devices''] (path_segs (''/v1/devices/'' @ i)) = None"
proof -
  have ns: "CHR ''/'' \<notin> set i" using idPattern_chars [OF assms] id_rest_not_slash by blast
  have sp: "Split CHR ''/'' (''/v1/devices/'' @ i) = [[], ''v1'', ''devices'', i]"
    by (simp add: Split_no_sep [OF ns])
  have i: "i \<noteq> []" "i \<noteq> ''.''" "i \<noteq> ''..''"
    using assms by (auto simp: idPattern_def id_first_def)
  have "last i \<noteq> CHR ''/''" using last_in_set [OF i(1)] ns by metis
  note i = i this
  show "cleanPath (''/v1/devices/'' @ i) = ''/v1/devices/'' @ i"
    unfolding cleanPath_def sp using i by simp
  show "match_segs [Lit ''v1'', Lit ''devices'', Wild ''id''] (path_segs (''/v1/devices/'' @ i)) = Some [(''id'', i)]"
    "match_segs [Lit ''v1'', Lit ''devices''] (path_segs (''/v1/devices/'' @ i)) = None"
    unfolding path_segs_def sp using i by simp_all
qed

lemma mux_get_device:
  assumes "idPattern i" "Method r = ''GET''" "Path r = ''/v1/devices/'' @ i"
  shows "ServeMux url (Catalog_Routes h) r w =
    Catalog_Get h (r\<lparr>Pattern := ''GET /v1/devices/{id}'', PathValues := [''id'' \<mapsto> i]\<rparr>) w"
  unfolding ServeMux_def find_route_def Catalog_Routes_def assms(2,3) clean_device_path(1) [OF assms(1)] Let_def
  using clean_device_path(2,3) [OF assms(1)] by (simp add: method_ok_def split_beta)

text \<open>The handler over the in-memory store.\<close>

definition memory_handler ::
  "('s, 'w) CatalogHandler \<Rightarrow> (MemoryRepository \<Rightarrow> time) \<Rightarrow> (ListOptions \<Rightarrow> MemoryRepository \<Rightarrow> nat list) \<Rightarrow>
   ('w \<Rightarrow> MemoryRepository) \<Rightarrow> (MemoryRepository \<Rightarrow> 'w \<Rightarrow> 'w) \<Rightarrow> (MemoryRepository, 'w) CatalogHandler" where
  "memory_handler h now order get put =
     \<lparr>h_repo = memory_repository (h_uni h) now order, h_get = get, h_put = put, h_env = h_env h, h_uni = h_uni h,
      h_decode = h_decode h\<rparr>"

lemma writeRepoError_not_201: "run_status (fst (writeRepoError h r e w)) \<noteq> 201"
  by (simp add: writeRepoError_def)

lemma create_201:
  assumes "run_status (fst (Catalog_Create (memory_handler h now order get put) r w)) = 201"
  obtains d0 d s where "h_decode h (Body r) = Inr d0"
    "Memory_Create (h_uni h) (now (get w)) (d0\<lparr>CreatedAt := zeroTime, UpdatedAt := zeroTime\<rparr>) (get w) = (Inr d, s)"
    "Catalog_Create (memory_handler h now order get put) r w =
       (respond r (HeaderSet ''Location'' (''/v1/devices/'' @ ID d) # WriteJSON 201 (DeviceJSON d)), put s w)"
  using assms that
  by (auto simp: Catalog_Create_def memory_handler_def memory_repository_def on_repo_def Let_def writeRepoError_not_201
      split: sum.splits prod.splits)

text \<open>
  Following the \<open>Location\<close> of a created device through the routes gives that device back: a GET
  of the path answers 200 with the same JSON that the POST answered.
\<close>

lemma location_roundtrip:
  assumes "memory_ok (get w)" "\<And>s w. get (put s w) = s"
    and "Catalog_Create (memory_handler h now order get put) r w = (x, w')" "run_status x = 201"
    and "Method r2 = ''GET''" "Path r2 = Header_Get (reply_header (reply_of (ops x))) ''Location''"
  shows "let y = fst (ServeMux url (Catalog_Routes (memory_handler h now order get put)) r2 w')
    in run_status y = 200 \<and> run_bodies y = run_bodies x"
proof -
  have "run_status (fst (Catalog_Create (memory_handler h now order get put) r w)) = 201" using assms(3,4) by simp
  then obtain d0 d s where c:
    "Memory_Create (h_uni h) (now (get w)) (d0\<lparr>CreatedAt := zeroTime, UpdatedAt := zeroTime\<rparr>) (get w) = (Inr d, s)"
    "Catalog_Create (memory_handler h now order get put) r w =
       (respond r (HeaderSet ''Location'' (''/v1/devices/'' @ ID d) # WriteJSON 201 (DeviceJSON d)), put s w)"
    by (rule create_201)
  then have x: "x = respond r (HeaderSet ''Location'' (''/v1/devices/'' @ ID d) # WriteJSON 201 (DeviceJSON d))" "w' = put s w"
    using assms(3) by simp_all
  have canonical: "CanonicalHeaderKey ''Location'' \<noteq> CanonicalHeaderKey ''Content-Type''" by code_simp
  have loc: "Path r2 = ''/v1/devices/'' @ ID d"
    unfolding assms(6) x by (simp add: respond_def reply_of_def WriteJSON_def new_reply_def reply_header_def
        bodyAllowed_def Header_Get_Set canonical)
  have created: "repo_Create (memory_repository (h_uni h) now order) (d0\<lparr>CreatedAt := zeroTime, UpdatedAt := zeroTime\<rparr>) (get w)
      = (Inr d, s)" using c(1) by (simp add: memory_repository_def)
  from mem.create_inserts [OF assms(1) created] have s: "memory_ok s" "memory_content s (ID d) = Some d"
    by (blast, simp)
  then have i: "idPattern (ID d)" using memory_keyed [OF s(1)] unfolding keyed_def by metis
  then have n: "ToLower (h_uni h) (TrimSpace (ID d)) = ID d" "ID d \<noteq> []" by (auto simp: idPattern_normal)
  have g: "Memory_Get (ID d) s = Inr d" using s(2) by (simp add: Memory_Get_def memory_content_def)
  have "fst (Catalog_Get (memory_handler h now order get put) (r2\<lparr>Pattern := p, PathValues := [''id'' \<mapsto> ID d]\<rparr>) (put s w))
      = respond (r2\<lparr>Pattern := p, PathValues := [''id'' \<mapsto> ID d]\<rparr>) (WriteJSON 200 (DeviceJSON d))" for p
    by (simp add: Catalog_Get_def memory_handler_def memory_repository_def on_repo_def Let_def PathValue_def n g assms(2))
  then show ?thesis unfolding x Let_def mux_get_device [OF i assms(5) loc] by simp
qed

text \<open>
  Creation is not idempotent: sending the same POST again after it succeeded, as a retry after a
  lost response does, is answered with 409.
\<close>

theorem create_retry_conflicts:
  assumes "memory_ok (get w)" "\<And>s w. get (put s w) = s"
    and "Catalog_Create (memory_handler h now order get put) r w = (x, w')" "run_status x = 201"
  shows "run_status (fst (Catalog_Create (memory_handler h now order get put) r w')) = 409"
proof -
  have "run_status (fst (Catalog_Create (memory_handler h now order get put) r w)) = 201" using assms(3,4) by simp
  then obtain d0 d s where c: "h_decode h (Body r) = Inr d0"
    "Memory_Create (h_uni h) (now (get w)) (d0\<lparr>CreatedAt := zeroTime, UpdatedAt := zeroTime\<rparr>) (get w) = (Inr d, s)"
    "Catalog_Create (memory_handler h now order get put) r w =
       (respond r (HeaderSet ''Location'' (''/v1/devices/'' @ ID d) # WriteJSON 201 (DeviceJSON d)), put s w)"
    by (rule create_201)
  have w': "get w' = s" using c(3) assms(2,3) by simp
  have again: "Memory_Create (h_uni h) t (d0\<lparr>CreatedAt := zeroTime, UpdatedAt := zeroTime\<rparr>) s =
      (Inl (Wrapf [] ErrAlreadyExists ('': '' @ ID d)), s)" for t
    using Memory_Create_again [OF c(2)] .
  show ?thesis
    using c(1) again
    by (simp add: Catalog_Create_def memory_handler_def memory_repository_def on_repo_def Let_def w' writeRepoError_def
        del: errors_Is.simps)
qed

section \<open>Concrete runs\<close>

definition wit_handler :: "(unit, MemoryRepository) CatalogHandler" where
  "wit_handler = \<lparr>h_repo = \<lparr>repo_Create = (\<lambda>_ s. (Inl ErrInvalid, s)), repo_Get = (\<lambda>_ s. (Inl ErrNotFound, s)),
       repo_List = (\<lambda>_ s. (Inl ErrInvalid, s)), repo_Ping = (\<lambda>s. (None, s))\<rparr>,
     h_get = (\<lambda>_. ()), h_put = (\<lambda>_ w. w),
     h_env = \<lparr>env_now = (\<lambda>w. (0, w)), env_rand16 = (\<lambda>w. (None, w)), env_emit = (\<lambda>_ w. w)\<rparr>,
     h_uni = (\<lambda>s. s), h_decode = (\<lambda>_. Inr wit_device)\<rparr>"

abbreviation wit_memory :: "(MemoryRepository, MemoryRepository) CatalogHandler" where
  "wit_memory \<equiv> memory_handler wit_handler (\<lambda>_. 5) (\<lambda>_ _. []) (\<lambda>w. w) (\<lambda>s _. s)"

lemma wit_created:
  defines "d \<equiv> wit_device\<lparr>ID := ''pump-7'', Name := ''Pump'', Site := ''north'', Kind := ''unknown'', CreatedAt := 5, UpdatedAt := 5\<rparr>"
  shows "Catalog_Create wit_memory r NewMemoryRepository =
    (respond r (HeaderSet ''Location'' (''/v1/devices/'' @ ''pump-7'') # WriteJSON 201 (DeviceJSON d)),
     \<lparr>devices = [(''pump-7'', d)], failPing = None\<rparr>)"
proof -
  have "Validate (\<lambda>s. s) (wit_device\<lparr>CreatedAt := zeroTime, UpdatedAt := zeroTime\<rparr>) = (None,
      wit_device\<lparr>ID := ''pump-7'', Name := ''Pump'', Site := ''north'', Kind := ''unknown'', CreatedAt := zeroTime, UpdatedAt := zeroTime\<rparr>)"
    by code_simp
  then show ?thesis
    by (simp add: d_def Catalog_Create_def memory_handler_def memory_repository_def wit_handler_def on_repo_def Let_def
        Memory_Create_def NewMemoryRepository_def)
qed

lemma memory_ok_new: "memory_ok NewMemoryRepository"
  by (simp add: memory_ok_def NewMemoryRepository_def)

lemma create_retry_conflicts_witness:
  "run_status (fst (Catalog_Create wit_memory (wit_request ''POST'' ''/v1/devices'' Map.empty [])
     (snd (Catalog_Create wit_memory (wit_request ''POST'' ''/v1/devices'' Map.empty []) NewMemoryRepository)))) = 409"
proof -
  have "run_status (fst (Catalog_Create wit_memory (wit_request ''POST'' ''/v1/devices'' Map.empty []) NewMemoryRepository)) = 201"
    unfolding wit_created by simp
  then show ?thesis by (rule create_retry_conflicts [OF memory_ok_new refl surjective_pairing])
qed

end
