(* ===== verification/Config.thy ===== *)
theory Config
  imports Ieee Strconv
begin

text \<open>
  Configuration from the environment, \<open>internal/platform/config/config.go\<close>, with
  \<open>time.ParseDuration\<close> as the standard library defines it. \<open>strconv.ParseFloat\<close> and the quoting of
  \<open>%q\<close> are arguments, as is the environment.
\<close>

section \<open>Durations in text\<close>

definition is_digit :: "char \<Rightarrow> bool" where
  "is_digit c \<longleftrightarrow> digit_value c \<noteq> None"

text \<open>\<open>leadingInt\<close>: the number at the front, or \<open>None\<close> when it exceeds \<open>2 ^ 63\<close>.\<close>

fun leadingInt :: "nat \<Rightarrow> string \<Rightarrow> (nat \<times> string) option" where
  "leadingInt x [] = Some (x, [])"
| "leadingInt x (c # cs) =
     (case digit_value c of
        None \<Rightarrow> Some (x, c # cs)
      | Some d \<Rightarrow>
          if 2 ^ 63 div 10 < x then None
          else let y = x * 10 + d in if 2 ^ 63 < y then None else leadingInt y cs)"

text \<open>\<open>leadingFraction\<close>: the digits at the front and their scale, ignoring digits past the precision.\<close>

fun leadingFraction :: "bool \<Rightarrow> nat \<Rightarrow> rat \<Rightarrow> string \<Rightarrow> nat \<times> rat \<times> string" where
  "leadingFraction over x scale [] = (x, scale, [])"
| "leadingFraction over x scale (c # cs) =
     (case digit_value c of
        None \<Rightarrow> (x, scale, c # cs)
      | Some d \<Rightarrow>
          if over \<or> (2 ^ 63 - 1) div 10 < x then leadingFraction True x scale cs
          else let y = x * 10 + d
               in if 2 ^ 63 < y then leadingFraction True x scale cs
                  else leadingFraction False y (rnd64 (scale * 10)) cs)"

definition unitMap :: "(string \<times> nat) list" where
  "unitMap = [(''ns'', 1), (''us'', 10 ^ 3), ([CHR 0xC2, CHR 0xB5, CHR ''s''], 10 ^ 3),
     ([CHR 0xCE, CHR 0xBC, CHR ''s''], 10 ^ 3), (''ms'', 10 ^ 6), (''s'', 10 ^ 9), (''m'', 60 * 10 ^ 9),
     (''h'', 3600 * 10 ^ 9)]"

text \<open>The number at the front: its whole part, its fraction with its scale, and the rest.\<close>

definition fraction_part :: "string \<Rightarrow> nat \<times> rat \<times> string \<times> bool" where
  "fraction_part s =
     (case s of
        c # cs \<Rightarrow>
          if c = CHR ''.''
          then (case leadingFraction False 0 1 cs of (f, scale, s') \<Rightarrow> (f, scale, s', length s' \<noteq> length cs))
          else (0, 1, s, False)
      | [] \<Rightarrow> (0, 1, s, False))"

definition number_part :: "string \<Rightarrow> (nat \<times> nat \<times> rat \<times> string) option" where
  "number_part s =
     (case s of [] \<Rightarrow> None | c # _ \<Rightarrow>
        if \<not> (c = CHR ''.'' \<or> is_digit c) then None
        else (case leadingInt 0 s of
          None \<Rightarrow> None
        | Some (v, s1) \<Rightarrow>
            (case fraction_part s1 of (f, scale, s2, post) \<Rightarrow>
               if length s1 = length s \<and> \<not> post then None else Some (v, f, scale, s2))))"

text \<open>The unit that follows, and the value in nanoseconds; \<open>None\<close> also on overflow.\<close>

definition unit_part :: "nat \<Rightarrow> nat \<Rightarrow> rat \<Rightarrow> string \<Rightarrow> (nat \<times> string) option" where
  "unit_part v f scale s =
     (let u = takeWhile (\<lambda>c. \<not> (c = CHR ''.'' \<or> is_digit c)) s; rest = drop (length u) s
      in if u = [] then None
         else (case map_of unitMap u of
           None \<Rightarrow> None
         | Some unit \<Rightarrow>
             if 2 ^ 63 div unit < v then None
             else let v = v * unit;
                      v = (if 0 < f then v + nat (trunc64 (rnd64 (float64_of_int (int f)
                              * rnd64 (float64_of_int (int unit) / scale)))) else v)
                  in if 2 ^ 63 < v then None else Some (v, rest)))"

lemma leadingInt_length: "leadingInt x s = Some (v, s') \<Longrightarrow> length s' \<le> length s"
  by (induction x s rule: leadingInt.induct) (fastforce simp: Let_def split: option.splits if_splits)+

lemma leadingFraction_length: "leadingFraction o1 x sc s = (f, sc', s') \<Longrightarrow> length s' \<le> length s"
  by (induction o1 x sc s rule: leadingFraction.induct) (fastforce simp: Let_def split: option.splits if_splits)+

lemma fraction_part_length: "fraction_part s = (f, sc, s', post) \<Longrightarrow> length s' \<le> length s"
  by (auto simp: fraction_part_def dest: leadingFraction_length split: list.splits if_splits prod.splits)

lemma number_part_length: "number_part s = Some (v, f, sc, s') \<Longrightarrow> length s' \<le> length s"
  by (auto simp: number_part_def dest!: leadingInt_length fraction_part_length
      split: list.splits option.splits prod.splits if_splits)

lemma unit_part_length: "unit_part v f sc s = Some (x, rest) \<Longrightarrow> length rest < length s"
proof -
  assume "unit_part v f sc s = Some (x, rest)"
  then obtain u where "u = takeWhile (\<lambda>c. \<not> (c = CHR ''.'' \<or> is_digit c)) s" "u \<noteq> []" "rest = drop (length u) s"
    by (auto simp: unit_part_def Let_def split: if_splits option.splits)
  then show ?thesis using length_takeWhile_le [of "\<lambda>c. \<not> (c = CHR ''.'' \<or> is_digit c)" s]
    by (cases s) auto
qed

text \<open>The loop over the terms.\<close>

function duration_terms :: "nat \<Rightarrow> string \<Rightarrow> nat option" where
  "duration_terms d s =
     (if s = [] then Some d
      else case number_part s of
        None \<Rightarrow> None
      | Some (v, f, scale, s') \<Rightarrow>
          (case unit_part v f scale s' of
             None \<Rightarrow> None
           | Some (x, rest) \<Rightarrow> if 2 ^ 63 < d + x then None else duration_terms (d + x) rest))"
  by pat_completeness auto
termination
proof (relation "measure (\<lambda>(d, s). length s)")
  fix d :: nat and s x2 v b f c scale s' p x rest
  assume "number_part s = Some x2" "(v, b) = x2" "(f, c) = b" "(scale, s') = c"
    "unit_part v f scale s' = Some p" "(x, rest) = p"
  then have "length s' \<le> length s" "length rest < length s'"
    using number_part_length [of s v f scale s'] unit_part_length [of v f scale s' x rest] by auto
  then show "((d + x, rest), d, s) \<in> measure (\<lambda>(d, s). length s)" by simp
qed simp

declare duration_terms.simps [simp del]

definition ParseDuration :: "string \<Rightarrow> duration option" where
  "ParseDuration s =
     (let (neg, s) = (case s of [] \<Rightarrow> (False, [])
        | c # cs \<Rightarrow> if c = CHR ''-'' then (True, cs) else if c = CHR ''+'' then (False, cs) else (False, s))
      in if s = ''0'' then Some 0
         else if s = [] then None
         else (case duration_terms 0 s of
                 None \<Rightarrow> None
               | Some d \<Rightarrow> if neg then Some (- int d) else if 2 ^ 63 - 1 < d then None else Some (int d)))"

section \<open>The loader\<close>

text \<open>
  The environment of a process, and the two functions of the standard library left abstract;
  \<open>strconv.ParseFloat\<close> also accepts the spellings of infinities and NaN.
\<close>

record Environ =
  LookupEnv :: "string \<rightharpoonup> string"
  ParseFloat :: "string \<Rightarrow> float64 option"
  Quote :: "string \<Rightarrow> string"

type_synonym Loader = "go_error list"

definition NewLoader :: Loader where
  "NewLoader = []"

text \<open>\<open>errors.Join\<close>, by its message: the messages one per line.\<close>

fun join_lines :: "string list \<Rightarrow> string" where
  "join_lines [] = []"
| "join_lines [s] = s"
| "join_lines (s # ss) = s @ [CHR 0x0A] @ join_lines ss"

definition Loader_Err :: "Loader \<Rightarrow> go_error option" where
  "Loader_Err l = (if l = [] then None else Some (ErrText (join_lines (map Error l))))"

definition fail :: "string \<Rightarrow> go_error \<Rightarrow> Loader \<Rightarrow> Loader" where
  "fail key err l = l @ [Wrapf (''config '' @ key @ '': '') err []]"

definition Loader_String :: "Environ \<Rightarrow> string \<Rightarrow> string \<Rightarrow> Loader \<Rightarrow> string \<times> Loader" where
  "Loader_String E key dflt l =
     (case LookupEnv E key of Some v \<Rightarrow> if v \<noteq> [] then (v, l) else (dflt, l) | None \<Rightarrow> (dflt, l))"

definition RequiredString :: "Environ \<Rightarrow> string \<Rightarrow> Loader \<Rightarrow> string \<times> Loader" where
  "RequiredString E key l =
     (case LookupEnv E key of
        Some v \<Rightarrow> if TrimSpace v = [] then ([], fail key (ErrText ''is required but not set'') l) else (v, l)
      | None \<Rightarrow> ([], fail key (ErrText ''is required but not set'') l))"

text \<open>The value of a variable that is set and not empty.\<close>

definition given :: "Environ \<Rightarrow> string \<Rightarrow> string option" where
  "given E key = (case LookupEnv E key of Some raw \<Rightarrow> if raw = [] then None else Some raw | None \<Rightarrow> None)"

definition Loader_Int :: "Environ \<Rightarrow> string \<Rightarrow> int \<Rightarrow> Loader \<Rightarrow> int \<times> Loader" where
  "Loader_Int E key dflt l =
     (case given E key of
        None \<Rightarrow> (dflt, l)
      | Some raw \<Rightarrow>
          (case Atoi raw of
             None \<Rightarrow> (dflt, fail key (ErrText (Quote E raw @ '' is not an integer'')) l)
           | Some v \<Rightarrow> (v, l)))"

definition Loader_Duration :: "Environ \<Rightarrow> string \<Rightarrow> duration \<Rightarrow> Loader \<Rightarrow> duration \<times> Loader" where
  "Loader_Duration E key dflt l =
     (case given E key of
        None \<Rightarrow> (dflt, l)
      | Some raw \<Rightarrow>
          (case ParseDuration raw of
             None \<Rightarrow> (dflt, fail key (ErrText (Quote E raw @ '' is not a duration'')) l)
           | Some v \<Rightarrow> if v \<le> 0 then (dflt, fail key (ErrText (Quote E raw @ '' must be positive'')) l) else (v, l)))"

definition Loader_Float :: "Environ \<Rightarrow> string \<Rightarrow> float64 \<Rightarrow> Loader \<Rightarrow> float64 \<times> Loader" where
  "Loader_Float E key dflt l =
     (case given E key of
        None \<Rightarrow> (dflt, l)
      | Some raw \<Rightarrow>
          (case ParseFloat E raw of
             None \<Rightarrow> (dflt, fail key (ErrText (Quote E raw @ '' is not a number'')) l)
           | Some v \<Rightarrow> (v, l)))"

definition Loader_Bool :: "Environ \<Rightarrow> string \<Rightarrow> bool \<Rightarrow> Loader \<Rightarrow> bool \<times> Loader" where
  "Loader_Bool E key dflt l =
     (case given E key of
        None \<Rightarrow> (dflt, l)
      | Some raw \<Rightarrow>
          (case ParseBool raw of
             None \<Rightarrow> (dflt, fail key (ErrText (Quote E raw @ '' is not a boolean'')) l)
           | Some v \<Rightarrow> (v, l)))"

section \<open>The shared settings\<close>

record Runtime =
  ServiceName :: string
  rt_Version :: string
  Environment :: string
  LogLevel :: string
  HTTPAddr :: string
  rt_AdminAddr :: string
  rt_ReadTimeout :: duration
  rt_WriteTimeout :: duration
  rt_IdleTimeout :: duration
  rt_ShutdownGrace :: duration
  RequestTimeout :: duration
  OTLPEndpoint :: string
  TraceSampleRate :: float64

definition LoadRuntime :: "Environ \<Rightarrow> string \<Rightarrow> Loader \<Rightarrow> Runtime \<times> Loader" where
  "LoadRuntime E serviceName l =
     (let (ver, l) = Loader_String E ''SERVICE_VERSION'' ''dev'' l;
          (envt, l) = Loader_String E ''ENVIRONMENT'' ''local'' l;
          (lvl, l) = Loader_String E ''LOG_LEVEL'' ''info'' l;
          (http, l) = Loader_String E ''HTTP_ADDR'' '':8080'' l;
          (adm, l) = Loader_String E ''ADMIN_ADDR'' '':9090'' l;
          (rd, l) = Loader_Duration E ''HTTP_READ_TIMEOUT'' (5 * Second) l;
          (wr, l) = Loader_Duration E ''HTTP_WRITE_TIMEOUT'' (30 * Second) l;
          (idle, l) = Loader_Duration E ''HTTP_IDLE_TIMEOUT'' (120 * Second) l;
          (grace, l) = Loader_Duration E ''SHUTDOWN_GRACE'' (25 * Second) l;
          (req, l) = Loader_Duration E ''REQUEST_TIMEOUT'' (10 * Second) l;
          (otlp, l) = Loader_String E ''OTEL_EXPORTER_OTLP_ENDPOINT'' [] l;
          (rate, l) = Loader_Float E ''OTEL_TRACE_SAMPLE_RATE'' (Finite (rnd64 (1/10))) l
      in (\<lparr>ServiceName = serviceName, rt_Version = ver, Environment = envt, LogLevel = lvl, HTTPAddr = http,
           rt_AdminAddr = adm, rt_ReadTimeout = rd, rt_WriteTimeout = wr, rt_IdleTimeout = idle, rt_ShutdownGrace = grace,
           RequestTimeout = req, OTLPEndpoint = otlp, TraceSampleRate = rate\<rparr>, l))"

section \<open>Reading what was printed\<close>

lemma parse_digits_mono: "parse_digits x ds = Some n \<Longrightarrow> x \<le> n"
  by (induction x ds arbitrary: n rule: parse_digits.induct) (fastforce split: option.splits)+

lemma leadingInt_digits:
  assumes "parse_digits x ds = Some n" "n \<le> 2 ^ 63" "case rest of [] \<Rightarrow> True | c # _ \<Rightarrow> \<not> is_digit c"
  shows "leadingInt x (ds @ rest) = Some (n, rest)"
  using assms(1)
proof (induction ds arbitrary: x)
  case Nil
  with assms(3) show ?case by (cases rest) (auto simp: is_digit_def)
next
  case (Cons c ds)
  then obtain d where d: "digit_value c = Some d" "parse_digits (10 * x + d) ds = Some n" by (auto split: option.splits)
  have le: "x * 10 + d \<le> 2 ^ 63" using parse_digits_mono [OF d(2)] assms(2) by simp
  then have "x * 10 \<le> 2 ^ 63" by linarith
  then have x: "\<not> 2 ^ 63 div 10 < x" by (simp only: not_less less_eq_div_iff_mult_less_eq zero_less_numeral)
  have "leadingInt (x * 10 + d) (ds @ rest) = Some (n, rest)"
    using Cons.IH [OF d(2)] by (simp only: mult.commute)
  then show ?case by (simp only: append_Cons leadingInt.simps d(1) option.case x le [folded not_less] Let_def if_False)
qed

definition unit_text :: "string \<Rightarrow> bool" where
  "unit_text u \<longleftrightarrow> u \<noteq> [] \<and> list_all (\<lambda>c. \<not> (c = CHR ''.'' \<or> is_digit c)) u"

lemma unitMap_text: "list_all (\<lambda>(u, k). unit_text u \<and> 0 < k) unitMap"
  by (simp add: unitMap_def unit_text_def is_digit_def digit_value_def)

lemma format_nat_digit: "\<exists>c cs. format_nat 10 n = c # cs \<and> is_digit c \<and> c \<noteq> CHR ''-'' \<and> c \<noteq> CHR ''+''"
  using format_nat_head [of n] digit_char_decimal digit_char_not_sign by (fastforce simp: is_digit_def)

lemma duration_terms_one:
  assumes "map_of unitMap u = Some k" "n * k \<le> 2 ^ 63"
  shows "duration_terms 0 (format_nat 10 n @ u) = Some (n * k)"
proof -
  obtain c cs where c: "format_nat 10 n = c # cs" "is_digit c" using format_nat_digit by blast
  have u: "unit_text u" "0 < k"
    using unitMap_text map_of_SomeD [OF assms(1)] by (auto simp: list_all_iff)
  then have rest: "case u of [] \<Rightarrow> True | c # _ \<Rightarrow> \<not> is_digit c" and dot: "case u of [] \<Rightarrow> True | c # _ \<Rightarrow> c \<noteq> CHR ''.''"
    by (cases u; auto simp: unit_text_def)+
  have "n \<le> n * k" using u(2) by simp
  then have "leadingInt 0 (format_nat 10 n @ u) = Some (n, u)"
    using order_trans [OF _ assms(2)] rest by (intro leadingInt_digits parse_format_nat) auto
  then have num: "number_part (format_nat 10 n @ u) = Some (n, 0, 1, u)"
    using c dot by (cases u) (auto simp: number_part_def fraction_part_def)
  have "takeWhile (\<lambda>c. \<not> (c = CHR ''.'' \<or> is_digit c)) u = u"
    using u(1) by (simp add: unit_text_def list_all_iff takeWhile_eq_all_conv)
  moreover have "\<not> 2 ^ 63 div k < n" using assms(2) u(2) by (simp only: not_less less_eq_div_iff_mult_less_eq)
  moreover have "\<not> 2 ^ 63 < n * k" using assms(2) by (simp only: not_less)
  ultimately have up: "unit_part n 0 1 u = Some (n * k, [])"
    using assms(1) u(1) unfolding unit_part_def unit_text_def Let_def by (simp only: less_irrefl if_False option.case drop_all le_refl)
  have "duration_terms (n * k) [] = Some (n * k)" by (simp add: duration_terms.simps)
  moreover have "format_nat 10 n @ u \<noteq> []" using c by simp
  ultimately show ?thesis
    by (subst duration_terms.simps) (simp only: num up \<open>\<not> 2 ^ 63 < n * k\<close> option.case prod.case add_0 if_False)
qed

text \<open>
  Every whole number of any unit is read back exactly, as long as it fits a duration
  it is refused.
\<close>

theorem ParseDuration_print:
  assumes "map_of unitMap u = Some k" "0 \<le> n" "n * int k \<le> maxDuration"
  shows "ParseDuration (Itoa n @ u) = Some (n * int k)"
proof -
  obtain c cs where c: "format_nat 10 (nat n) = c # cs" "is_digit c" "c \<noteq> CHR ''-''" "c \<noteq> CHR ''+''"
    using format_nat_digit by blast
  have i: "Itoa n = format_nat 10 (nat n)" using assms(2) by (simp add: Itoa_def FormatInt_def)
  have "u \<noteq> []" using unitMap_text map_of_SomeD [OF assms(1)] by (auto simp: list_all_iff unit_text_def)
  then have n0: "format_nat 10 (nat n) @ u \<noteq> ''0''" using c(1) by (cases u) (auto simp: Cons_eq_append_conv)
  have n: "int (nat n * k) = n * int k" using assms(2) by simp
  then have "int (nat n * k) \<le> int (2 ^ 63 - 1)" using assms(3) by (simp add: maxDuration_def)
  then have b: "nat n * k \<le> 2 ^ 63 - 1" by (simp only: of_nat_le_iff)
  then have "duration_terms 0 (format_nat 10 (nat n) @ u) = Some (nat n * k)"
    by (intro duration_terms_one assms(1) order_trans [OF b] diff_le_self)
  moreover have "\<not> 2 ^ 63 - 1 < nat n * k" using b by (simp only: not_less)
  ultimately show ?thesis using n0
    unfolding ParseDuration_def i Let_def c(1)
    by (simp only: append_Cons list.case c(3,4) if_False prod.case list.distinct option.case n)
qed

lemma ParseDuration_print_witness: "ParseDuration ''250ms'' = Some (250 * Millisecond)"
proof -
  have "Itoa 250 @ ''ms'' = ''250ms''" by code_simp
  moreover have "map_of unitMap ''ms'' = Some (10 ^ 6)" by (simp add: unitMap_def)
  moreover have "(250 :: int) * int (10 ^ 6) \<le> maxDuration" by (simp add: maxDuration_def)
  moreover have "250 * Millisecond = 250 * int (10 ^ 6)" by simp
  ultimately show ?thesis using ParseDuration_print [of "''ms''" "10 ^ 6" 250] by (simp only: zero_le_numeral simp_thms)
qed

section \<open>Bad settings are refused\<close>

definition duration_ok :: "Environ \<Rightarrow> string \<Rightarrow> bool" where
  "duration_ok E key = (case given E key of None \<Rightarrow> True
     | Some raw \<Rightarrow> (case ParseDuration raw of None \<Rightarrow> False | Some v \<Rightarrow> 0 < v))"

definition float_ok :: "Environ \<Rightarrow> string \<Rightarrow> bool" where
  "float_ok E key = (case given E key of None \<Rightarrow> True | Some raw \<Rightarrow> ParseFloat E raw \<noteq> None)"

text \<open>Each lookup adds an error exactly when its variable is bad, and otherwise leaves the list alone.\<close>

lemma Duration_errs:
  "\<exists>e. snd (Loader_Duration E key dflt l) = l @ (if duration_ok E key then [] else [Wrapf (''config '' @ key @ '': '') e []])"
  by (auto simp: Loader_Duration_def duration_ok_def fail_def split: option.split)

lemma Duration_pos: "0 < dflt \<Longrightarrow> 0 < fst (Loader_Duration E key dflt l)"
  by (auto simp: Loader_Duration_def split: option.split)

lemma Float_errs:
  "\<exists>e. snd (Loader_Float E key dflt l) = l @ (if float_ok E key then [] else [Wrapf (''config '' @ key @ '': '') e []])"
  by (auto simp: Loader_Float_def float_ok_def fail_def split: option.split)

lemma String_errs [simp]: "snd (Loader_String E key dflt l) = l"
  by (auto simp: Loader_String_def split: option.split)

definition duration_keys :: "string list" where
  "duration_keys = [''HTTP_READ_TIMEOUT'', ''HTTP_WRITE_TIMEOUT'', ''HTTP_IDLE_TIMEOUT'', ''SHUTDOWN_GRACE'', ''REQUEST_TIMEOUT'']"

lemma bad_count_append: "length (l @ (if P then [] else [x])) = length l + (if P then 0 else 1)"
  by simp

lemma Duration_length:
  "length (snd (Loader_Duration E key dflt l)) = length l + (if duration_ok E key then 0 else 1)"
  using Duration_errs [of E key dflt l] by (auto simp: bad_count_append)

lemma Float_length:
  "length (snd (Loader_Float E key dflt l)) = length l + (if float_ok E key then 0 else 1)"
  using Float_errs [of E key dflt l] by (auto simp: bad_count_append)

lemma LoadRuntime_length:
  "length (snd (LoadRuntime E name l)) =
     length l + length (filter (\<lambda>k. \<not> duration_ok E k) duration_keys) + (if float_ok E ''OTEL_TRACE_SAMPLE_RATE'' then 0 else 1)"
  by (simp add: LoadRuntime_def duration_keys_def Let_def split_beta Duration_length Float_length)

text \<open>
  C32. A service refuses to boot exactly when a setting is malformed, and one boot reports every
  malformed setting: loading the shared settings records one error per bad variable. Whatever the
  environment, every timeout that is loaded is positive.
\<close>

theorem bad_config_refused:
  "let (rt, l) = LoadRuntime E name NewLoader
   in (Loader_Err l = None) = (list_all (duration_ok E) duration_keys \<and> float_ok E ''OTEL_TRACE_SAMPLE_RATE'') \<and>
      length l = length (filter (\<lambda>k. \<not> duration_ok E k) duration_keys) + (if float_ok E ''OTEL_TRACE_SAMPLE_RATE'' then 0 else 1) \<and>
      0 < rt_ReadTimeout rt \<and> 0 < rt_WriteTimeout rt \<and> 0 < rt_IdleTimeout rt \<and> 0 < rt_ShutdownGrace rt \<and> 0 < RequestTimeout rt"
proof -
  obtain rt l where l: "LoadRuntime E name NewLoader = (rt, l)" by (rule prod.exhaust)
  have n: "length l = length (filter (\<lambda>k. \<not> duration_ok E k) duration_keys) + (if float_ok E ''OTEL_TRACE_SAMPLE_RATE'' then 0 else 1)"
    using LoadRuntime_length [of E name NewLoader] unfolding l by (simp add: NewLoader_def)
  have "(l = []) = (list_all (duration_ok E) duration_keys \<and> float_ok E ''OTEL_TRACE_SAMPLE_RATE'')"
    unfolding length_0_conv [symmetric] n by (auto simp: list_all_iff filter_empty_conv)
  moreover have "0 < rt_ReadTimeout rt" "0 < rt_WriteTimeout rt" "0 < rt_IdleTimeout rt" "0 < rt_ShutdownGrace rt" "0 < RequestTimeout rt"
    using l by (auto simp: LoadRuntime_def Let_def split_beta Duration_pos)
  ultimately show ?thesis using n by (simp add: l Loader_Err_def)
qed

end
