(* ===== verification/Telemetry.thy ===== *)
theory Telemetry
  imports Http Config
begin

text \<open>
  \<open>internal/platform/telemetry\<close>: the instruments that \<open>NewMetrics\<close> registers, and the set-up of tracing.
  Prometheus and OpenTelemetry are libraries; what is modelled is what the platform asks of them. The
  updates of the instruments are the events of the HTTP layer.
\<close>

section \<open>Instruments\<close>

datatype instrument_kind = Counter | Gauge | Histogram "rat list"

record instrument =
  inst_name :: string
  inst_kind :: instrument_kind
  inst_labels :: "string list"

definition latencyBuckets :: "rat list" where
  "latencyBuckets = [5/1000, 1/100, 25/1000, 5/100, 1/10, 25/100, 5/10, 1, 25/10, 5, 10]"

text \<open>\<open>prometheus.ExponentialBuckets (64, 4, 8)\<close>\<close>

definition sizeBuckets :: "rat list" where
  "sizeBuckets = map (\<lambda>i. 64 * 4 ^ i) [0..<8]"

definition NewMetrics :: "instrument list" where
  "NewMetrics =
     [\<lparr>inst_name = ''http_requests_total'', inst_kind = Counter, inst_labels = [''method'', ''route'', ''status'', ''status_class'']\<rparr>,
      \<lparr>inst_name = ''http_request_duration_seconds'', inst_kind = Histogram latencyBuckets, inst_labels = [''method'', ''route'']\<rparr>,
      \<lparr>inst_name = ''http_requests_in_flight'', inst_kind = Gauge, inst_labels = []\<rparr>,
      \<lparr>inst_name = ''http_response_size_bytes'', inst_kind = Histogram sizeBuckets, inst_labels = [''route'']\<rparr>,
      \<lparr>inst_name = ''upstream_requests_total'', inst_kind = Counter, inst_labels = [''upstream'', ''outcome'']\<rparr>,
      \<lparr>inst_name = ''upstream_request_duration_seconds'', inst_kind = Histogram latencyBuckets, inst_labels = [''upstream'']\<rparr>,
      \<lparr>inst_name = ''upstream_retries_total'', inst_kind = Counter, inst_labels = [''upstream'']\<rparr>,
      \<lparr>inst_name = ''circuit_breaker_state'', inst_kind = Gauge, inst_labels = [''upstream'']\<rparr>,
      \<lparr>inst_name = ''circuit_breaker_transitions_total'', inst_kind = Counter, inst_labels = [''upstream'', ''from'', ''to'']\<rparr>,
      \<lparr>inst_name = ''service_build_info'', inst_kind = Gauge, inst_labels = [''service'', ''version'', ''environment'']\<rparr>]"

text \<open>The instrument that an event updates and the label values it passes to \<open>WithLabelValues\<close>.\<close>

fun update_of :: "event \<Rightarrow> (string \<times> string list) option" where
  "update_of (Log l m a) = None"
| "update_of (RequestsInFlight d) = Some (''http_requests_in_flight'', [])"
| "update_of (RequestsTotal m rt st cl) = Some (''http_requests_total'', [m, rt, st, cl])"
| "update_of (RequestDuration m rt v) = Some (''http_request_duration_seconds'', [m, rt])"
| "update_of (ResponseSize rt v) = Some (''http_response_size_bytes'', [rt])"
| "update_of (UpstreamRequestsTotal u oc) = Some (''upstream_requests_total'', [u, oc])"
| "update_of (UpstreamRequestDuration u v) = Some (''upstream_request_duration_seconds'', [u])"
| "update_of (UpstreamRetriesTotal u) = Some (''upstream_retries_total'', [u])"
| "update_of (BreakerTransitions u f t) = Some (''circuit_breaker_transitions_total'', [u, f, t])"
| "update_of (BreakerStateGauge u v) = Some (''circuit_breaker_state'', [u])"
| "update_of (BuildInfo s v e) = Some (''service_build_info'', [s, v, e])"

definition find_instrument :: "string \<Rightarrow> instrument option" where
  "find_instrument n = find (\<lambda>i. inst_name i = n) NewMetrics"

text \<open>
  Neither registering nor updating a metric panics: the names of the instruments are distinct, the
  buckets of every histogram increase strictly, and every update that the services make names an
  instrument that exists and passes as many label values as that instrument has labels.
\<close>

theorem metrics_well_formed:
  "distinct (map inst_name NewMetrics) \<and>
   list_all (\<lambda>i. case inst_kind i of Histogram bs \<Rightarrow> sorted_wrt (<) bs | _ \<Rightarrow> True) NewMetrics \<and>
   (case update_of e of
      None \<Rightarrow> True
    | Some (n, vs) \<Rightarrow> (case find_instrument n of None \<Rightarrow> False | Some i \<Rightarrow> length vs = length (inst_labels i)))"
proof (intro conjI)
  show "list_all (\<lambda>i. case inst_kind i of Histogram bs \<Rightarrow> sorted_wrt (<) bs | _ \<Rightarrow> True) NewMetrics"
    by (simp add: NewMetrics_def latencyBuckets_def sizeBuckets_def upt_rec)
  show "case update_of e of None \<Rightarrow> True
    | Some (n, vs) \<Rightarrow> (case find_instrument n of None \<Rightarrow> False | Some i \<Rightarrow> length vs = length (inst_labels i))"
    by (cases e) (simp_all add: find_instrument_def NewMetrics_def)
qed (simp add: NewMetrics_def)

section \<open>Tracing\<close>

record TracingConfig =
  tc_ServiceName :: string
  tc_Version :: string
  tc_Environment :: string
  tc_Endpoint :: string
  tc_SampleRate :: float64

definition sample_rate :: "float64 \<Rightarrow> float64" where
  "sample_rate rate =
     (let rate = (if float64_less rate (Finite 0) then Finite 0 else rate)
      in if float64_less (Finite 1) rate then Finite 1 else rate)"

text \<open>The global state of the tracing library, and the provider that \<open>SetupTracing\<close> installs.\<close>

record tracer_provider =
  tp_resource :: "(string \<times> string) list"
  tp_batchTimeout :: duration
  tp_maxQueue :: nat
  tp_ratio :: float64

record otel =
  otel_propagators :: "string list"
  otel_provider :: "tracer_provider option"

text \<open>
  \<open>new_exporter\<close> and \<open>merge\<close> give the errors of the exporter's constructor and of the merge of resources;
  \<open>shutdown\<close> is the \<open>Shutdown\<close> of the provider. The result is the function that flushes.
\<close>

definition SetupTracing ::
  "(string \<Rightarrow> go_error option) \<Rightarrow> ((string \<times> string) list \<Rightarrow> go_error option) \<Rightarrow> (tracer_provider \<Rightarrow> go_error option) \<Rightarrow>
   TracingConfig \<Rightarrow> otel \<Rightarrow> (go_error + (unit \<Rightarrow> go_error option)) \<times> otel" where
  "SetupTracing new_exporter merge shutdown c ot =
     (let ot = ot\<lparr>otel_propagators := [''tracecontext'', ''baggage'']\<rparr>
      in if tc_Endpoint c = [] then (Inr (\<lambda>_. None), ot)
         else (case new_exporter (tc_Endpoint c) of
             Some err \<Rightarrow> (Inl (Wrapf ''otlp exporter: '' err []), ot)
           | None \<Rightarrow>
               let res = [(''service.name'', tc_ServiceName c), (''service.version'', tc_Version c),
                          (''deployment.environment'', tc_Environment c)]
               in case merge res of
                    Some err \<Rightarrow> (Inl (Wrapf ''otel resource: '' err []), ot)
                  | None \<Rightarrow>
                      let p = \<lparr>tp_resource = res, tp_batchTimeout = 5 * Second, tp_maxQueue = 4096, tp_ratio = sample_rate (tc_SampleRate c)\<rparr>
                      in (Inr (\<lambda>_. shutdown p), ot\<lparr>otel_provider := Some p\<rparr>)))"

text \<open>The sampling ratio is in the unit interval, unless the setting was NaN, which passes every check.\<close>

lemma sample_rate_range:
  "case sample_rate rate of Finite x \<Rightarrow> 0 \<le> x \<and> x \<le> 1 | Infinity p \<Rightarrow> False | NaN \<Rightarrow> rate = NaN"
  by (cases rate) (auto simp: sample_rate_def)

end
