(* ===== verification/Health.thy ===== *)
theory Health
  imports Mux "HOL-Library.AList"
begin

text \<open>
  The three Kubernetes probes, \<open>internal/platform/health/health.go\<close>. Every method of the registry holds
  its mutex, so it is a function of the registry; a probe handler reads the registry once, by
  \<open>snapshot\<close>, and is a function of what it then sees. The readiness checks run in goroutines of their
  own: their interleaving is a schedule, in which a check is one step and the recording of its message another.
\<close>

section \<open>The registry\<close>

type_synonym 'w Check = "'w RequestContext \<Rightarrow> 'w \<Rightarrow> go_error option \<times> 'w"

record HealthStatus =
  hs_Status :: string
  hs_Service :: string
  hs_Version :: string
  hs_Checks :: "string \<rightharpoonup> string"

text \<open>The checks are kept as an association list with one entry per name.\<close>

record 'w Registry =
  reg_service :: string
  reg_version :: string
  reg_timeout :: duration
  reg_checks :: "(string \<times> 'w Check) list"
  started :: bool
  draining :: bool

definition Registry_New :: "string \<Rightarrow> string \<Rightarrow> duration \<Rightarrow> 'w Registry" where
  "Registry_New service version perCheckTimeout =
     \<lparr>reg_service = service, reg_version = version,
      reg_timeout = (if perCheckTimeout \<le> 0 then 2 * Second else perCheckTimeout),
      reg_checks = [], started = False, draining = False\<rparr>"

definition Register :: "string \<Rightarrow> 'w Check \<Rightarrow> 'w Registry \<Rightarrow> 'w Registry" where
  "Register name c reg = reg\<lparr>reg_checks := AList.update name c (reg_checks reg)\<rparr>"

definition MarkStarted :: "'w Registry \<Rightarrow> 'w Registry" where
  "MarkStarted reg = reg\<lparr>started := True\<rparr>"

definition BeginDrain :: "'w Registry \<Rightarrow> 'w Registry" where
  "BeginDrain reg = reg\<lparr>draining := True\<rparr>"

definition Draining :: "'w Registry \<Rightarrow> bool" where
  "Draining reg = draining reg"

definition snapshot :: "'w Registry \<Rightarrow> bool \<times> bool \<times> (string \<times> 'w Check) list" where
  "snapshot reg = (started reg, draining reg, reg_checks reg)"

definition Names :: "'w Registry \<Rightarrow> string list" where
  "Names reg = sort (map fst (reg_checks reg))"

section \<open>Probes\<close>

definition health_write :: "int \<Rightarrow> HealthStatus \<Rightarrow> HealthStatus wop list" where
  "health_write code body =
     [HeaderSet ''Content-Type'' ''application/json'', HeaderSet ''Cache-Control'' ''no-store'',
      SendHeader code, SendBody (JSON body)]"

definition status_of :: "'w Registry \<Rightarrow> string \<Rightarrow> HealthStatus" where
  "status_of reg s = \<lparr>hs_Status = s, hs_Service = reg_service reg, hs_Version = reg_version reg, hs_Checks = Map.empty\<rparr>"

definition StartupHandler :: "'w Registry \<Rightarrow> (HealthStatus, 'w) Handler" where
  "StartupHandler reg r w =
     (let (up, _, _) = snapshot reg
      in if \<not> up then (respond r (health_write 503 (status_of reg ''starting'')), w)
         else (respond r (health_write 200 (status_of reg ''ok'')), w))"

definition LivenessHandler :: "'w Registry \<Rightarrow> (HealthStatus, 'w) Handler" where
  "LivenessHandler reg r w = (respond r (health_write 200 (status_of reg ''ok'')), w)"

text \<open>
  One probe's goroutines. A goroutine first runs its check, then takes the mutex and records the
  message. A schedule is a list of names, each for the next step of that goroutine; \<open>wg.Wait\<close> lets
  the goroutines that are left finish.
\<close>

record 'w probe =
  pending :: "(string \<times> 'w Check) list"
  answered :: "(string \<times> string) list"
  results :: "string \<rightharpoonup> string"
  healthy :: bool
  probe_world :: 'w

definition check_message :: "go_error option \<Rightarrow> string" where
  "check_message err = (case err of None \<Rightarrow> ''ok'' | Some e \<Rightarrow> Error e)"

definition probe_step :: "'w Env \<Rightarrow> duration \<Rightarrow> 'w RequestContext \<Rightarrow> 'w probe \<Rightarrow> string \<Rightarrow> 'w probe" where
  "probe_step env timeout ctx p name =
     (case map_of (pending p) name of
        Some check \<Rightarrow>
          let (t, w) = env_now env (probe_world p);
              (err, w) = check (ctx\<lparr>std := WithTimeout env (t + timeout) (std ctx)\<rparr>) w
          in p\<lparr>pending := filter (\<lambda>(n, _). n \<noteq> name) (pending p),
               answered := (name, check_message err) # answered p, probe_world := w\<rparr>
      | None \<Rightarrow>
          (case map_of (answered p) name of
             Some msg \<Rightarrow>
               p\<lparr>answered := filter (\<lambda>(n, _). n \<noteq> name) (answered p), results := (results p)(name \<mapsto> msg),
                 healthy := (healthy p \<and> msg = ''ok'')\<rparr>
           | None \<Rightarrow> p))"

definition probe_wait :: "'w Env \<Rightarrow> duration \<Rightarrow> 'w RequestContext \<Rightarrow> 'w probe \<Rightarrow> 'w probe" where
  "probe_wait env timeout ctx p =
     foldl (probe_step env timeout ctx) p (concat (map (\<lambda>(n, _). [n, n]) (pending p)) @ map fst (answered p))"

definition run_checks ::
  "'w Env \<Rightarrow> duration \<Rightarrow> 'w RequestContext \<Rightarrow> (string \<times> 'w Check) list \<Rightarrow> string list \<Rightarrow> 'w \<Rightarrow> 'w probe" where
  "run_checks env timeout ctx cs sch w =
     probe_wait env timeout ctx (foldl (probe_step env timeout ctx)
       \<lparr>pending = cs, answered = [], results = Map.empty, healthy = True, probe_world = w\<rparr> sch)"

definition ReadinessHandler :: "'w Env \<Rightarrow> string list \<Rightarrow> 'w Registry \<Rightarrow> (HealthStatus, 'w) Handler" where
  "ReadinessHandler env sch reg r w =
     (let (up, drain, checks) = snapshot reg
      in if \<not> up then (respond r (health_write 503 (status_of reg ''starting'')), w)
         else if drain then (respond r (health_write 503 (status_of reg ''draining'')), w)
         else let p = run_checks env (reg_timeout reg) (Ctx r) checks sch w;
                  status = (status_of reg ''ok'')\<lparr>hs_Checks := results p\<rparr>
              in if \<not> healthy p
                 then (respond r (health_write 503 (status\<lparr>hs_Status := ''degraded''\<rparr>)), probe_world p)
                 else (respond r (health_write 200 status), probe_world p))"


section \<open>What a probe waits for\<close>

text \<open>The steps that the goroutine of a name still has to do.\<close>

definition steps_left :: "'w probe \<Rightarrow> string \<Rightarrow> nat" where
  "steps_left p n = (if n \<in> fst ` set (pending p) then 2 else if n \<in> fst ` set (answered p) then 1 else 0)"

lemma fst_filter_neq: "fst ` set (filter (\<lambda>(n, _). n \<noteq> k) xs) = fst ` set xs - {k}"
  by force

lemma steps_left_step:
  "steps_left (probe_step env t ctx p k) n = (if n = k then steps_left p n - 1 else steps_left p n)"
  by (auto simp: probe_step_def steps_left_def fst_filter_neq split_beta Let_def map_of_eq_None_iff
      dest: map_of_SomeD split: option.splits)
    (metis domI dom_map_of_conv_image_fst image_eqI)+

lemma steps_left_run:
  "steps_left (foldl (probe_step env t ctx) p ks) n = steps_left p n - count_list ks n"
  by (induction ks arbitrary: p) (simp_all add: steps_left_step)

lemma count_list_twice: "n \<in> fst ` set xs \<Longrightarrow> 2 \<le> count_list (concat (map (\<lambda>(n, _). [n, n]) xs)) n"
  by (induction xs) (force simp: split_beta)+

lemma count_list_mem: "n \<in> set xs \<Longrightarrow> 1 \<le> count_list xs n"
  by (induction xs) auto

lemma probe_wait_done: "pending (probe_wait env t ctx p) = [] \<and> answered (probe_wait env t ctx p) = []"
proof -
  have "steps_left (probe_wait env t ctx p) n = 0" for n
  proof -
    have "steps_left p n \<le> count_list (concat (map (\<lambda>(n, _). [n, n]) (pending p)) @ map fst (answered p)) n"
      unfolding count_list_append steps_left_def
      using count_list_twice [of n "pending p"] count_list_mem [of n "map fst (answered p)"]
      by (auto simp del: count_list_append intro: trans_le_add1 trans_le_add2)
    then show ?thesis unfolding probe_wait_def steps_left_run by simp
  qed
  then have "n \<notin> fst ` set (pending (probe_wait env t ctx p)) \<and> n \<notin> fst ` set (answered (probe_wait env t ctx p))" for n
    by (metis steps_left_def one_neq_zero zero_neq_numeral)
  then show ?thesis by (metis image_is_empty set_empty2 equals0I)
qed

section \<open>What the goroutines record\<close>

text \<open>
  The checks one after the other: each runs once, in the world that the ones before it left, under the
  request's context with a timeout that starts when the check does.
\<close>

fun checks_in_order ::
  "'w Env \<Rightarrow> duration \<Rightarrow> 'w RequestContext \<Rightarrow> (string \<times> 'w Check) list \<Rightarrow> 'w \<Rightarrow> (string \<times> go_error option) list \<times> 'w" where
  "checks_in_order env timeout ctx [] w = ([], w)"
| "checks_in_order env timeout ctx ((n, c) # cs) w =
     (let (t, w) = env_now env w;
          (err, w) = c (ctx\<lparr>std := WithTimeout env (t + timeout) (std ctx)\<rparr>) w;
          (errs, w) = checks_in_order env timeout ctx cs w
      in ((n, err) # errs, w))"

abbreviation messages :: "(string \<times> go_error option) list \<Rightarrow> (string \<times> string) list" where
  "messages errs \<equiv> map (\<lambda>(n, err). (n, check_message err)) errs"

lemma checks_in_order_names: "map fst (fst (checks_in_order env t ctx cs w)) = map fst cs"
  by (induction env t ctx cs w rule: checks_in_order.induct) (auto simp: Let_def split: prod.split)

lemma names_messages: "map fst (messages errs) = map fst errs"
  by (simp add: split_beta comp_def)

lemma checks_in_order_append:
  "checks_in_order env t ctx (cs @ ds) w =
     (let (es, w) = checks_in_order env t ctx cs w; (fs, w) = checks_in_order env t ctx ds w in (es @ fs, w))"
proof (induction cs arbitrary: w)
  case (Cons x cs)
  then show ?case by (cases x) (simp add: Let_def split_beta)
qed simp

lemma checks_in_order_mem:
  "(n, err) \<in> set (fst (checks_in_order env t ctx cs w)) \<Longrightarrow> \<exists>c ctx' w'. (n, c) \<in> set cs \<and> err = fst (c ctx' w')"
proof (induction cs arbitrary: w)
  case (Cons x cs)
  obtain k c where x: "x = (k, c)" by (rule prod.exhaust)
  let ?r = "c (ctx\<lparr>std := WithTimeout env (fst (env_now env w) + t) (std ctx)\<rparr>) (snd (env_now env w))"
  from Cons.prems have "n = k \<and> err = fst ?r \<or> (n, err) \<in> set (fst (checks_in_order env t ctx cs (snd ?r)))"
    by (simp add: x Let_def split_beta)
  then show ?case using Cons.IH [of "snd ?r"] x by auto
qed simp

text \<open>
  The goroutines of a probe that started in the world \<open>w0\<close>, when those of \<open>ord\<close> have run their checks, in this
  order: the world is the one after these checks, and each of their messages is recorded or about to be.
\<close>

definition probe_ran ::
  "'w Env \<Rightarrow> duration \<Rightarrow> 'w RequestContext \<Rightarrow> (string \<times> 'w Check) list \<Rightarrow> 'w \<Rightarrow> (string \<times> 'w Check) list \<Rightarrow> 'w probe \<Rightarrow> bool" where
  "probe_ran env timeout ctx cs w0 ord p \<longleftrightarrow>
     distinct (map fst ord) \<and> fst ` set ord \<inter> fst ` set (pending p) = {} \<and>
     map_of ord ++ map_of (pending p) = map_of cs \<and>
     snd (checks_in_order env timeout ctx ord w0) = probe_world p \<and>
     map_of (messages (fst (checks_in_order env timeout ctx ord w0))) = results p ++ map_of (answered p) \<and>
     dom (results p) \<inter> fst ` set (answered p) = {} \<and>
     healthy p = (ran (results p) \<subseteq> {''ok''})"

definition probe_inv ::
  "'w Env \<Rightarrow> duration \<Rightarrow> 'w RequestContext \<Rightarrow> (string \<times> 'w Check) list \<Rightarrow> 'w \<Rightarrow> 'w probe \<Rightarrow> bool" where
  "probe_inv env timeout ctx cs w0 p \<longleftrightarrow> (\<exists>ord. probe_ran env timeout ctx cs w0 ord p)"

lemma probe_inv_start:
  "probe_inv env t ctx cs w \<lparr>pending = cs, answered = [], results = Map.empty, healthy = True, probe_world = w\<rparr>"
  unfolding probe_inv_def by (rule exI [of _ "[]"]) (simp add: probe_ran_def)

lemma map_of_filter_neq: "map_of (filter (\<lambda>(n, _). n \<noteq> k) xs) = (map_of xs)(k := None)"
  by (induction xs) (auto simp: fun_eq_iff)

lemma map_of_snoc: "k \<notin> fst ` set xs \<Longrightarrow> map_of (xs @ [(k, v)]) = (map_of xs)(k \<mapsto> v)"
  by (induction xs) auto

lemma probe_ran_check:
  assumes "probe_ran env t ctx cs w0 ord p" "map_of (pending p) k = Some c"
  shows "probe_ran env t ctx cs w0 (ord @ [(k, c)]) (probe_step env t ctx p k)"
proof -
  let ?q = "checks_in_order env t ctx ord w0"
  have inv: "distinct (map fst ord)" "fst ` set ord \<inter> fst ` set (pending p) = {}"
      "map_of ord ++ map_of (pending p) = map_of cs" "snd ?q = probe_world p"
      "map_of (messages (fst ?q)) = results p ++ map_of (answered p)"
      "dom (results p) \<inter> fst ` set (answered p) = {}" "healthy p = (ran (results p) \<subseteq> {''ok''})"
    by (insert assms(1) [unfolded probe_ran_def], (elim conjE, assumption)+)
  obtain t0 w1 where n: "env_now env (probe_world p) = (t0, w1)" by (rule prod.exhaust)
  obtain err w2 where e: "c (ctx\<lparr>std := WithTimeout env (t0 + t) (std ctx)\<rparr>) w1 = (err, w2)" by (rule prod.exhaust)
  have st: "probe_step env t ctx p k = p\<lparr>pending := filter (\<lambda>(n, _). n \<noteq> k) (pending p),
      answered := (k, check_message err) # answered p, probe_world := w2\<rparr>"
    by (simp add: probe_step_def assms(2) n e)
  have q: "checks_in_order env t ctx (ord @ [(k, c)]) w0 = (fst ?q @ [(k, err)], w2)"
    by (simp add: checks_in_order_append inv(4) n e Let_def split_beta)
  have k: "k \<notin> fst ` set ord" using map_of_SomeD [OF assms(2)] inv(2) by force
  have names: "fst ` set (messages (fst ?q)) = fst ` set ord"
    using checks_in_order_names [of env t ctx ord w0] names_messages [of "fst ?q"] by (metis list.set_map)
  have "k \<notin> dom (results p ++ map_of (answered p))" unfolding inv(5) [symmetric] dom_map_of_conv_image_fst names by (rule k)
  then have r: "k \<notin> dom (results p)" "k \<notin> fst ` set (answered p)" by (auto simp: dom_map_of_conv_image_fst)
  have "map_of (messages (fst ?q) @ [(k, check_message err)]) = results p ++ map_of ((k, check_message err) # answered p)"
    using k names by (subst map_of_snoc) (auto simp: inv(5))
  moreover have "map_of (ord @ [(k, c)]) ++ (map_of (pending p))(k := None) = map_of cs"
    unfolding inv(3) [symmetric] map_of_snoc [OF k] using assms(2)
    by (auto simp: fun_eq_iff map_add_def split: option.split)
  moreover have "fst ` set (ord @ [(k, c)]) \<inter> (fst ` set (pending p) - {k}) = {}" using inv(2) by auto
  ultimately show ?thesis using inv(1,6,7) k r unfolding probe_ran_def st q
    by (simp add: map_of_filter_neq fst_filter_neq del: set_filter)
qed

lemma probe_ran_record:
  assumes "probe_ran env t ctx cs w0 ord p" "map_of (pending p) k = None" "map_of (answered p) k = Some m"
  shows "probe_ran env t ctx cs w0 ord (probe_step env t ctx p k)"
proof -
  have st: "probe_step env t ctx p k = p\<lparr>answered := filter (\<lambda>(n, _). n \<noteq> k) (answered p),
      results := (results p)(k \<mapsto> m), healthy := (healthy p \<and> m = ''ok'')\<rparr>"
    by (simp add: probe_step_def assms(2,3))
  have k: "k \<in> fst ` set (answered p)" using map_of_SomeD [OF assms(3)] by force
  then have "results p k = None" using assms(1) by (auto simp: probe_ran_def)
  then have "ran ((results p)(k \<mapsto> m)) = insert m (ran (results p))" by simp
  moreover have "(results p)(k \<mapsto> m) ++ (map_of (answered p))(k := None) = results p ++ map_of (answered p)"
    using assms(3) by (auto simp: fun_eq_iff map_add_def split: option.split)
  moreover have "dom ((results p)(k \<mapsto> m)) \<inter> (fst ` set (answered p) - {k}) = {}"
    using assms(1) by (auto simp: probe_ran_def)
  ultimately show ?thesis using assms(1) unfolding probe_ran_def st
    by (simp add: map_of_filter_neq fst_filter_neq conj_commute del: set_filter)
qed

lemma probe_inv_step:
  assumes "probe_inv env t ctx cs w0 p" shows "probe_inv env t ctx cs w0 (probe_step env t ctx p k)"
proof -
  from assms obtain ord where o: "probe_ran env t ctx cs w0 ord p" unfolding probe_inv_def ..
  consider c where "map_of (pending p) k = Some c" | m where "map_of (pending p) k = None" "map_of (answered p) k = Some m"
    | "probe_step env t ctx p k = p"
    by (cases "map_of (pending p) k"; cases "map_of (answered p) k") (auto simp: probe_step_def)
  then show ?thesis
    by cases (use o probe_ran_check [OF o] probe_ran_record [OF o] in \<open>unfold probe_inv_def, force+\<close>)
qed

interpretation probe: stepping "probe_step env t ctx" "probe_inv env t ctx cs w" for env t ctx cs w
  by unfold_locales (rule probe_inv_step)

text \<open>
  Whatever the schedule, the probe does what some order of the checks does one after the other.
\<close>

lemma run_checks_ordered:
  obtains ord where "distinct (map fst ord)" "map_of ord = map_of cs"
    "probe_world (run_checks env t ctx cs sch w) = snd (checks_in_order env t ctx ord w)"
    "results (run_checks env t ctx cs sch w) = map_of (messages (fst (checks_in_order env t ctx ord w)))"
    "healthy (run_checks env t ctx cs sch w)
       = list_all (\<lambda>(n, err). check_message err = ''ok'') (fst (checks_in_order env t ctx ord w))"
proof -
  let ?p = "run_checks env t ctx cs sch w"
  have "probe_inv env t ctx cs w ?p" unfolding run_checks_def probe_wait_def by (intro probe.good_run probe_inv_start)
  then obtain ord where o: "probe_ran env t ctx cs w ord ?p" unfolding probe_inv_def ..
  let ?es = "fst (checks_in_order env t ctx ord w)"
  have e: "pending ?p = []" "answered ?p = []" unfolding run_checks_def by (simp_all add: probe_wait_done)
  with o have r: "distinct (map fst ord)" "map_of ord = map_of cs" "results ?p = map_of (messages ?es)"
    "probe_world ?p = snd (checks_in_order env t ctx ord w)" "healthy ?p = (ran (results ?p) \<subseteq> {''ok''})"
    by (simp_all add: probe_ran_def)
  have "distinct (map fst (messages ?es))" unfolding names_messages checks_in_order_names by (rule r(1))
  then have "ran (results ?p) = snd ` set (messages ?es)" unfolding r(3) by (rule ran_distinct)
  then have "healthy ?p = list_all (\<lambda>(n, err). check_message err = ''ok'') ?es"
    unfolding r(5) by (force simp: list_all_iff)
  with r show ?thesis by (intro that)
qed

text \<open>Checks that never fail make a probe healthy.\<close>

lemma checks_pass:
  assumes "\<And>n c ctx w. map_of cs n = Some c \<Longrightarrow> fst (c ctx w) = None"
  shows "healthy (run_checks env t ctx cs sch w)"
proof (rule run_checks_ordered [of cs env t ctx sch w])
  fix ord
  assume o: "distinct (map fst ord)" "map_of ord = map_of cs"
    and h: "healthy (run_checks env t ctx cs sch w)
       = list_all (\<lambda>(n, err). check_message err = ''ok'') (fst (checks_in_order env t ctx ord w))"
  have "err = None" if "(n, err) \<in> set (fst (checks_in_order env t ctx ord w))" for n err
    using checks_in_order_mem [OF that] assms o by (metis map_of_is_SomeI)
  then show ?thesis unfolding h by (fastforce simp: list_all_iff check_message_def)
qed

text \<open>A check that never passes makes it unhealthy.\<close>

lemma check_fails:
  assumes "map_of cs n = Some c" "\<And>ctx w. \<exists>e. fst (c ctx w) = Some e \<and> Error e \<noteq> ''ok''"
  shows "\<not> healthy (run_checks env t ctx cs sch w)"
proof (rule run_checks_ordered [of cs env t ctx sch w])
  fix ord
  let ?es = "fst (checks_in_order env t ctx ord w)"
  assume o: "distinct (map fst ord)" "map_of ord = map_of cs"
    and h: "healthy (run_checks env t ctx cs sch w) = list_all (\<lambda>(n, err). check_message err = ''ok'') ?es"
  have "n \<in> fst ` set ord" using map_of_SomeD [of ord n c] o(2) assms(1) by force
  then have "n \<in> set (map fst ?es)" unfolding checks_in_order_names by simp
  then obtain err where m: "(n, err) \<in> set ?es" by auto
  from checks_in_order_mem [OF this] obtain c' ctx' w' where "(n, c') \<in> set ord" "err = fst (c' ctx' w')" by blast
  then have "err = fst (c ctx' w')" using o(2) assms(1) map_of_is_SomeI [OF o(1), of n c'] by simp
  then have "check_message err \<noteq> ''ok''" using assms(2) [of ctx' w'] by (auto simp: check_message_def)
  with m show ?thesis unfolding h by (auto simp: list_all_iff)
qed

section \<open>The three probes\<close>

lemma run_health_write [simp]:
  "200 \<le> code \<Longrightarrow> code \<noteq> 204 \<Longrightarrow> code \<noteq> 304 \<Longrightarrow> run_status (respond r (health_write code b)) = code"
  "200 \<le> code \<Longrightarrow> code \<noteq> 204 \<Longrightarrow> code \<noteq> 304 \<Longrightarrow> run_bodies (respond r (health_write code b)) = [JSON b]"
  by (simp_all add: run_status_def run_bodies_def respond_def health_write_def reply_of_def new_reply_def
      reply_status_def bodyAllowed_def)

text \<open>
  C16. Readiness is 503 until boot is over and from the moment a drain has begun. Otherwise the probe does, for
  every interleaving of its goroutines, what some order of the registered checks does one after the
  other: every check runs once, in this probe, from the world the request came in, and the world after
  the probe is the one the last of them leaves. The answer reports what each check returned, and it is
  200 exactly when every message is \<open>ok\<close>, which is the message of a check that returned no error and of one
  whose error has that text; any other message makes it 503.
\<close>

theorem readiness_exact:
  "let (x, w') = ReadinessHandler env sch reg r w
   in if \<not> started reg then run_status x = 503 \<and> run_bodies x = [JSON (status_of reg ''starting'')] \<and> w' = w
      else if draining reg then run_status x = 503 \<and> run_bodies x = [JSON (status_of reg ''draining'')] \<and> w' = w
      else \<exists>ord errs. distinct (map fst ord) \<and> map_of ord = map_of (reg_checks reg) \<and>
        checks_in_order env (reg_timeout reg) (Ctx r) ord w = (errs, w') \<and>
        (if list_all (\<lambda>(n, err). check_message err = ''ok'') errs
         then run_status x = 200 \<and> run_bodies x = [JSON ((status_of reg ''ok'')\<lparr>hs_Checks := map_of (messages errs)\<rparr>)]
         else run_status x = 503 \<and> run_bodies x = [JSON ((status_of reg ''degraded'')\<lparr>hs_Checks := map_of (messages errs)\<rparr>)])"
proof (cases "started reg \<and> \<not> draining reg")
  case True
  let ?p = "run_checks env (reg_timeout reg) (Ctx r) (reg_checks reg) sch w"
  obtain ord where o: "distinct (map fst ord)" "map_of ord = map_of (reg_checks reg)"
    and q: "probe_world ?p = snd (checks_in_order env (reg_timeout reg) (Ctx r) ord w)"
      "results ?p = map_of (messages (fst (checks_in_order env (reg_timeout reg) (Ctx r) ord w)))"
      "healthy ?p = list_all (\<lambda>(n, err). check_message err = ''ok'') (fst (checks_in_order env (reg_timeout reg) (Ctx r) ord w))"
    by (rule run_checks_ordered)
  obtain errs w' where e: "checks_in_order env (reg_timeout reg) (Ctx r) ord w = (errs, w')" by (rule prod.exhaust)
  have "ReadinessHandler env sch reg r w =
     (if list_all (\<lambda>(n, err). check_message err = ''ok'') errs
      then respond r (health_write 200 ((status_of reg ''ok'')\<lparr>hs_Checks := map_of (messages errs)\<rparr>))
      else respond r (health_write 503 ((status_of reg ''degraded'')\<lparr>hs_Checks := map_of (messages errs)\<rparr>)), w')"
    using True q by (simp add: ReadinessHandler_def snapshot_def status_of_def e Let_def)
  then show ?thesis using True o e
    by (simp only: split_beta Let_def fst_conv snd_conv not_True_eq_False simp_thms if_False)
      (intro exI [of _ ord] exI [of _ errs], simp)
qed (auto simp: ReadinessHandler_def snapshot_def)


section \<open>The registry over its life\<close>

datatype 'w reg_call = CallRegister string "'w Check" | CallMarkStarted | CallBeginDrain

fun reg_step :: "'w Registry \<Rightarrow> 'w reg_call \<Rightarrow> 'w Registry" where
  "reg_step reg (CallRegister n c) = Register n c reg"
| "reg_step reg CallMarkStarted = MarkStarted reg"
| "reg_step reg CallBeginDrain = BeginDrain reg"

lemmas reg_defs = Registry_New_def Register_def MarkStarted_def BeginDrain_def

lemma reg_run:
  "started (foldl reg_step reg cs) = (started reg \<or> CallMarkStarted \<in> set cs)"
  "draining (foldl reg_step reg cs) = (draining reg \<or> CallBeginDrain \<in> set cs)"
  "fst ` set (reg_checks (foldl reg_step reg cs)) = fst ` set (reg_checks reg) \<union> {n. \<exists>c. CallRegister n c \<in> set cs}"
  "distinct (map fst (reg_checks reg)) \<Longrightarrow> distinct (map fst (reg_checks (foldl reg_step reg cs)))"
proof (induction cs arbitrary: reg)
  case (Cons x cs)
  {
    case 1 then show ?case using Cons.IH(1) [of "reg_step reg x"] by (cases x) (auto simp: reg_defs)
  next
    case 2 then show ?case using Cons.IH(2) [of "reg_step reg x"] by (cases x) (auto simp: reg_defs)
  next
    case 3 then show ?case using Cons.IH(3) [of "reg_step reg x"]
      by (cases x) (auto simp: reg_defs dom_update)
  next
    case 4 then show ?case using Cons.IH(4) [of "reg_step reg x"]
      by (cases x) (auto simp: reg_defs distinct_update)
  }
qed simp_all

text \<open>
  C34. Over the whole life of a registry, whatever calls it has seen: liveness is 200, whether or not
  it drains and whatever its checks say; startup is 200 from \<open>MarkStarted\<close> on; readiness is 503 from
  \<open>BeginDrain\<close> on, for good, without running a check; and the names are those registered, sorted, once each.
\<close>

theorem probe_lifecycle:
  "let reg = foldl reg_step (Registry_New service ver perCheck) cs
   in run_status (fst (LivenessHandler reg r w)) = 200 \<and>
      run_status (fst (StartupHandler reg r w)) = (if CallMarkStarted \<in> set cs then 200 else 503) \<and>
      (if CallBeginDrain \<in> set cs
       then run_status (fst (ReadinessHandler env sch reg r w)) = 503 \<and> snd (ReadinessHandler env sch reg r w) = w
       else True) \<and>
      sorted (Names reg) \<and> distinct (Names reg) \<and> set (Names reg) = {n. \<exists>c. CallRegister n c \<in> set cs}"
proof -
  let ?reg = "foldl reg_step (Registry_New service ver perCheck) cs :: 'a Registry"
  have "distinct (Names ?reg)" "set (Names ?reg) = {n. \<exists>c. CallRegister n c \<in> set cs}"
    using reg_run(4) [of "Registry_New service ver perCheck" cs] reg_run(3) [of "Registry_New service ver perCheck" cs]
    by (simp_all add: Names_def Registry_New_def)
  then show ?thesis
    by (simp add: Let_def LivenessHandler_def StartupHandler_def ReadinessHandler_def snapshot_def reg_run Names_def)
      (simp add: Registry_New_def)
qed

text \<open>A check that fails with the text \<open>ok\<close> is taken for one that passed.\<close>

lemma failure_called_ok:
  "run_status (fst (ReadinessHandler env [] (MarkStarted (Register ''db'' (\<lambda>_ w. (Some (ErrText ''ok''), w))
     (Registry_New s v t))) r w)) = 200"
  by (simp add: ReadinessHandler_def snapshot_def reg_defs run_checks_def probe_wait_def probe_step_def check_message_def
      split_beta Let_def)

end
