(* ===== verification/Server.thy ===== *)
theory Server
  imports Health
begin

text \<open>
  The paired listeners and the graceful shutdown of \<open>internal/platform/httpx/server.go\<close>.

  \<open>Serve\<close> runs three goroutines under an error group: the public listener, the admin listener, and the
  one that waits for the end and drains. Its behaviour is the step relation \<open>serve_step\<close>, whose labels
  are what happens: signals, failures of a listener, requests that begin and end, time that passes, and
  the steps of the third goroutine. Time passes only up to the next instant at which the third
  goroutine goes on, so the relation counts no scheduling delay.
\<close>

section \<open>Configuration\<close>

record ServerConfig =
  PublicAddr :: string
  AdminAddr :: string
  ReadTimeout :: duration
  WriteTimeout :: duration
  IdleTimeout :: duration
  ShutdownGrace :: duration
  DrainDelay :: duration

definition ServerConfig_withDefaults :: "ServerConfig \<Rightarrow> ServerConfig" where
  "ServerConfig_withDefaults c =
     (let c = (if PublicAddr c = [] then c\<lparr>PublicAddr := '':8080''\<rparr> else c);
          c = (if AdminAddr c = [] then c\<lparr>AdminAddr := '':9090''\<rparr> else c);
          c = (if ReadTimeout c \<le> 0 then c\<lparr>ReadTimeout := 5 * Second\<rparr> else c);
          c = (if WriteTimeout c \<le> 0 then c\<lparr>WriteTimeout := 30 * Second\<rparr> else c);
          c = (if IdleTimeout c \<le> 0 then c\<lparr>IdleTimeout := 120 * Second\<rparr> else c);
          c = (if ShutdownGrace c \<le> 0 then c\<lparr>ShutdownGrace := 25 * Second\<rparr> else c)
      in if DrainDelay c \<le> 0 then c\<lparr>DrainDelay := 5 * Second\<rparr> else c)"

text \<open>The settings of the two \<open>http.Server\<close> values.\<close>

record http_Server =
  srv_Addr :: string
  ReadHeaderTimeout :: duration
  srv_ReadTimeout :: duration
  srv_WriteTimeout :: duration
  srv_IdleTimeout :: duration

definition publicSrv :: "ServerConfig \<Rightarrow> http_Server" where
  "publicSrv c = \<lparr>srv_Addr = PublicAddr c, ReadHeaderTimeout = ReadTimeout c, srv_ReadTimeout = ReadTimeout c,
     srv_WriteTimeout = WriteTimeout c, srv_IdleTimeout = IdleTimeout c\<rparr>"

definition adminSrv :: "ServerConfig \<Rightarrow> http_Server" where
  "adminSrv c = \<lparr>srv_Addr = AdminAddr c, ReadHeaderTimeout = ReadTimeout c, srv_ReadTimeout = 0,
     srv_WriteTimeout = 30 * Second, srv_IdleTimeout = IdleTimeout c\<rparr>"

text \<open>The admin mux; the Prometheus handler is the argument \<open>metrics\<close>.\<close>

definition AdminHandler ::
  "'w Env \<Rightarrow> string list \<Rightarrow> (HealthStatus, 'w) Handler \<Rightarrow> 'w Registry \<Rightarrow> (HealthStatus, 'w) Route list" where
  "AdminHandler env sch metrics reg =
     [\<lparr>route_method = ''GET'', route_segs = [Lit ''healthz''], route_pattern = ''GET /healthz'',
       route_handler = LivenessHandler reg\<rparr>,
      \<lparr>route_method = ''GET'', route_segs = [Lit ''readyz''], route_pattern = ''GET /readyz'',
       route_handler = ReadinessHandler env sch reg\<rparr>,
      \<lparr>route_method = ''GET'', route_segs = [Lit ''startupz''], route_pattern = ''GET /startupz'',
       route_handler = StartupHandler reg\<rparr>,
      \<lparr>route_method = ''GET'', route_segs = [Lit ''metrics''], route_pattern = ''GET /metrics'',
       route_handler = metrics\<rparr>]"

section \<open>Serving and draining\<close>

text \<open>A listener accepts, has been shut down, or has failed.\<close>

datatype listener = Listening | Closed | Failed go_error

text \<open>Where the third goroutine is, with the instant it waits for.\<close>

datatype stage = Serving | Sleeping time | ShutPublic time | ShutAdmin time | Flushing time | Finished

record 'w serve =
  sv_reg :: "'w Registry"
  sv_now :: time
  sv_public :: listener
  sv_admin :: listener
  sv_requests :: nat
  sv_scrapes :: nat
  sv_done :: bool
  sv_stage :: stage
  sv_shutdownErr :: "go_error option"
  sv_err :: "go_error option"
  sv_drained :: "time option"

definition serve_start :: "'w Registry \<Rightarrow> time \<Rightarrow> 'w serve" where
  "serve_start reg t = \<lparr>sv_reg = reg, sv_now = t, sv_public = Listening, sv_admin = Listening, sv_requests = 0,
     sv_scrapes = 0, sv_done = False, sv_stage = Serving, sv_shutdownErr = None, sv_err = None, sv_drained = None\<rparr>"

text \<open>A goroutine of the group that returns an error: the group keeps the first and cancels its context.\<close>

definition group_fail :: "go_error \<Rightarrow> 'w serve \<Rightarrow> 'w serve" where
  "group_fail e s = s\<lparr>sv_err := (case sv_err s of None \<Rightarrow> Some e | Some e' \<Rightarrow> Some e'), sv_done := True\<rparr>"

text \<open>\<open>Shutdown\<close> closes the listener, whose \<open>ListenAndServe\<close> then returns \<open>ErrServerClosed\<close>.\<close>

definition close_listener :: "listener \<Rightarrow> listener" where
  "close_listener l = (case l of Listening \<Rightarrow> Closed | _ \<Rightarrow> l)"

definition to_admin :: "time \<Rightarrow> 'w serve \<Rightarrow> 'w serve" where
  "to_admin dl s = s\<lparr>sv_admin := close_listener (sv_admin s), sv_stage := ShutAdmin dl\<rparr>"

definition finish :: "'w serve \<Rightarrow> 'w serve" where
  "finish s = (case sv_shutdownErr s of None \<Rightarrow> s\<lparr>sv_stage := Finished\<rparr> | Some e \<Rightarrow> group_fail e (s\<lparr>sv_stage := Finished\<rparr>))"

definition to_flush :: "bool \<Rightarrow> 'w serve \<Rightarrow> 'w serve" where
  "to_flush has_flush s = (if has_flush then s\<lparr>sv_stage := Flushing (sv_now s + 5 * Second)\<rparr> else finish s)"

text \<open>The instant at which the third goroutine goes on, if it waits for one.\<close>

fun due :: "stage \<Rightarrow> time option" where
  "due Serving = None"
| "due (Sleeping t) = Some t"
| "due (ShutPublic t) = Some t"
| "due (ShutAdmin t) = Some t"
| "due (Flushing t) = Some t"
| "due Finished = None"

datatype action =
    Signal | PublicFails go_error | AdminFails go_error | Arrive | Leave | Scrape | ScrapeEnds | Tick duration
  | Drain | ClosePublic | PublicIdle | PublicDeadline | AdminIdle | AdminDeadline | Flushed

inductive serve_step :: "ServerConfig \<Rightarrow> bool \<Rightarrow> 'w serve \<Rightarrow> action \<Rightarrow> 'w serve \<Rightarrow> bool" for c has_flush where
  signal: "serve_step c has_flush s Signal (s\<lparr>sv_done := True\<rparr>)"
| public_fails: "sv_public s = Listening \<Longrightarrow>
    serve_step c has_flush s (PublicFails e) (group_fail (Wrapf ''public listener: '' e []) (s\<lparr>sv_public := Failed e\<rparr>))"
| admin_fails: "sv_admin s = Listening \<Longrightarrow>
    serve_step c has_flush s (AdminFails e) (group_fail (Wrapf ''admin listener: '' e []) (s\<lparr>sv_admin := Failed e\<rparr>))"
| arrive: "sv_public s = Listening \<Longrightarrow> serve_step c has_flush s Arrive (s\<lparr>sv_requests := sv_requests s + 1\<rparr>)"
| leave: "0 < sv_requests s \<Longrightarrow> serve_step c has_flush s Leave (s\<lparr>sv_requests := sv_requests s - 1\<rparr>)"
| scrape: "sv_admin s = Listening \<Longrightarrow> serve_step c has_flush s Scrape (s\<lparr>sv_scrapes := sv_scrapes s + 1\<rparr>)"
| scrape_ends: "0 < sv_scrapes s \<Longrightarrow> serve_step c has_flush s ScrapeEnds (s\<lparr>sv_scrapes := sv_scrapes s - 1\<rparr>)"
| tick: "0 \<le> d \<Longrightarrow> sv_stage s \<noteq> Finished \<Longrightarrow> \<not> (sv_stage s = Serving \<and> sv_done s) \<Longrightarrow>
    (case due (sv_stage s) of None \<Rightarrow> True | Some t \<Rightarrow> sv_now s + d \<le> t) \<Longrightarrow>
    serve_step c has_flush s (Tick d) (s\<lparr>sv_now := sv_now s + d\<rparr>)"
| drain: "sv_stage s = Serving \<Longrightarrow> sv_done s \<Longrightarrow>
    serve_step c has_flush s Drain (s\<lparr>sv_reg := BeginDrain (sv_reg s), sv_stage := Sleeping (sv_now s + DrainDelay c),
      sv_drained := Some (sv_now s)\<rparr>)"
| close_public: "sv_stage s = Sleeping t \<Longrightarrow> t \<le> sv_now s \<Longrightarrow>
    serve_step c has_flush s ClosePublic (s\<lparr>sv_public := close_listener (sv_public s),
      sv_stage := ShutPublic (sv_now s + ShutdownGrace c)\<rparr>)"
| public_idle: "sv_stage s = ShutPublic t \<Longrightarrow> sv_requests s = 0 \<Longrightarrow> serve_step c has_flush s PublicIdle (to_admin t s)"
| public_deadline: "sv_stage s = ShutPublic t \<Longrightarrow> t \<le> sv_now s \<Longrightarrow>
    serve_step c has_flush s PublicDeadline
      (to_admin t (s\<lparr>sv_shutdownErr := Some (Wrapf ''public shutdown: '' DeadlineExceeded [])\<rparr>))"
| admin_idle: "sv_stage s = ShutAdmin t \<Longrightarrow> sv_scrapes s = 0 \<Longrightarrow> serve_step c has_flush s AdminIdle (to_flush has_flush s)"
| admin_deadline: "sv_stage s = ShutAdmin t \<Longrightarrow> t \<le> sv_now s \<Longrightarrow> serve_step c has_flush s AdminDeadline (to_flush has_flush s)"
| flushed: "sv_stage s = Flushing t \<Longrightarrow> serve_step c has_flush s Flushed (finish s)"

inductive_cases serve_stepE: "serve_step c has_flush s a s'"

text \<open>The runs of \<open>Serve\<close>, and what it returns once its three goroutines have returned.\<close>

inductive serve_run :: "ServerConfig \<Rightarrow> bool \<Rightarrow> 'w serve \<Rightarrow> action list \<Rightarrow> 'w serve \<Rightarrow> bool" for c has_flush where
  run_nil: "serve_run c has_flush s [] s"
| run_snoc: "serve_run c has_flush s as t \<Longrightarrow> serve_step c has_flush t a u \<Longrightarrow> serve_run c has_flush s (as @ [a]) u"

definition Serve_result :: "'w serve \<Rightarrow> go_error option option" where
  "Serve_result s =
     (if sv_stage s = Finished \<and> sv_public s \<noteq> Listening \<and> sv_admin s \<noteq> Listening then Some (sv_err s) else None)"


section \<open>The invariant of a shutdown\<close>

text \<open>What holds from the start of the drain on, for the stage the third goroutine is in.\<close>

definition drained_since :: "'w serve \<Rightarrow> time \<Rightarrow> bool" where
  "drained_since s t \<longleftrightarrow> sv_drained s = Some t \<and> draining (sv_reg s) \<and> sv_done s"

definition stage_inv :: "ServerConfig \<Rightarrow> 'w serve \<Rightarrow> bool" where
  "stage_inv c s \<longleftrightarrow> (case sv_stage s of
     Serving \<Rightarrow> sv_drained s = None \<and> sv_public s \<noteq> Closed \<and> sv_admin s \<noteq> Closed \<and> sv_shutdownErr s = None
   | Sleeping t \<Rightarrow> \<exists>t0. drained_since s t0 \<and> t = t0 + DrainDelay c \<and> t0 \<le> sv_now s \<and> sv_now s \<le> t \<and>
       sv_public s \<noteq> Closed \<and> sv_admin s \<noteq> Closed \<and> sv_shutdownErr s = None
   | ShutPublic t \<Rightarrow> \<exists>t0. drained_since s t0 \<and> t = t0 + DrainDelay c + ShutdownGrace c \<and>
       t0 + DrainDelay c \<le> sv_now s \<and> sv_now s \<le> t \<and> sv_public s \<noteq> Listening \<and> sv_admin s \<noteq> Closed \<and> sv_shutdownErr s = None
   | ShutAdmin t \<Rightarrow> \<exists>t0. drained_since s t0 \<and> t = t0 + DrainDelay c + ShutdownGrace c \<and>
       t0 + DrainDelay c \<le> sv_now s \<and> sv_now s \<le> t \<and> sv_public s \<noteq> Listening \<and> sv_admin s \<noteq> Listening \<and>
       (sv_shutdownErr s = None \<longrightarrow> sv_requests s = 0)
   | Flushing t \<Rightarrow> \<exists>t0. drained_since s t0 \<and> t \<le> t0 + DrainDelay c + ShutdownGrace c + 5 * Second \<and>
       t0 + DrainDelay c \<le> sv_now s \<and> sv_now s \<le> t \<and> sv_public s \<noteq> Listening \<and> sv_admin s \<noteq> Listening \<and>
       (sv_shutdownErr s = None \<longrightarrow> sv_requests s = 0)
   | Finished \<Rightarrow> \<exists>t0. drained_since s t0 \<and> t0 + DrainDelay c \<le> sv_now s \<and>
       sv_now s \<le> t0 + DrainDelay c + ShutdownGrace c + 5 * Second \<and> sv_public s \<noteq> Listening \<and> sv_admin s \<noteq> Listening \<and>
       (sv_shutdownErr s = None \<longrightarrow> sv_requests s = 0) \<and> (sv_shutdownErr s \<noteq> None \<longrightarrow> sv_err s \<noteq> None))"

definition failed :: "listener \<Rightarrow> bool" where
  "failed l \<longleftrightarrow> (case l of Failed e \<Rightarrow> True | _ \<Rightarrow> False)"

definition serve_inv :: "ServerConfig \<Rightarrow> 'w serve \<Rightarrow> bool" where
  "serve_inv c s \<longleftrightarrow> stage_inv c s \<and> (failed (sv_public s) \<or> failed (sv_admin s) \<longrightarrow> sv_err s \<noteq> None)"

lemmas serve_defs = group_fail_def close_listener_def to_admin_def to_flush_def finish_def drained_since_def failed_def

lemma serve_start_inv: "serve_inv c (serve_start reg t)"
  by (simp add: serve_inv_def stage_inv_def serve_start_def failed_def)

text \<open>The last two stages.\<close>

lemma finish_fields [simp]:
  "sv_stage (finish s) = Finished" "sv_now (finish s) = sv_now s" "sv_drained (finish s) = sv_drained s"
  "sv_reg (finish s) = sv_reg s" "sv_public (finish s) = sv_public s" "sv_admin (finish s) = sv_admin s"
  "sv_requests (finish s) = sv_requests s" "sv_shutdownErr (finish s) = sv_shutdownErr s"
  "sv_done s \<Longrightarrow> sv_done (finish s)" "sv_err (finish s) = (if sv_err s = None then sv_shutdownErr s else sv_err s)"
  by (auto simp: finish_def group_fail_def split: option.split)

lemma finish_inv:
  assumes "drained_since s t0" "t0 + DrainDelay c \<le> sv_now s" "sv_now s \<le> t0 + DrainDelay c + ShutdownGrace c + 5 * Second"
    "sv_public s \<noteq> Listening" "sv_admin s \<noteq> Listening" "sv_shutdownErr s = None \<longrightarrow> sv_requests s = 0"
    "failed (sv_public s) \<or> failed (sv_admin s) \<longrightarrow> sv_err s \<noteq> None"
  shows "serve_inv c (finish s)"
proof -
  have "drained_since (finish s) t0" using assms(1) by (simp add: drained_since_def)
  then show ?thesis using assms(2-) unfolding serve_inv_def stage_inv_def by auto
qed

lemma to_flush_inv:
  assumes "serve_inv c s" "sv_stage s = ShutAdmin t"
  shows "serve_inv c (to_flush f s)"
proof -
  obtain t0 where t0: "drained_since s t0" "t = t0 + DrainDelay c + ShutdownGrace c" "t0 + DrainDelay c \<le> sv_now s"
      "sv_now s \<le> t" "sv_public s \<noteq> Listening" "sv_admin s \<noteq> Listening" "sv_shutdownErr s = None \<longrightarrow> sv_requests s = 0"
    and fl: "failed (sv_public s) \<or> failed (sv_admin s) \<longrightarrow> sv_err s \<noteq> None"
    using assms by (auto simp: serve_inv_def stage_inv_def)
  show ?thesis
  proof (cases f)
    case True
    have "serve_inv c (s\<lparr>sv_stage := Flushing (sv_now s + 5 * Second)\<rparr>)"
      using t0 fl unfolding serve_inv_def stage_inv_def drained_since_def by simp
    then show ?thesis by (simp add: to_flush_def True)
  next
    case False
    have "serve_inv c (finish s)" using t0 fl by (intro finish_inv) auto
    then show ?thesis by (simp add: to_flush_def False)
  qed
qed

lemma serve_step_inv:
  assumes "serve_step c has_flush s a s'" "serve_inv c s" "0 \<le> DrainDelay c" "0 \<le> ShutdownGrace c"
  shows "serve_inv c s'"
  using assms
proof cases
  case tick
  then show ?thesis using assms(2) by (cases "sv_stage s") (auto simp: serve_inv_def stage_inv_def serve_defs)
next
  case drain
  then show ?thesis using assms(2-) by (auto simp: serve_inv_def stage_inv_def serve_defs BeginDrain_def)
next
  case (close_public t)
  then show ?thesis using assms(2-)
    by (auto simp: serve_inv_def stage_inv_def serve_defs split: listener.splits)
next
  case (public_idle t)
  then show ?thesis using assms(2-)
    by (auto simp: serve_inv_def stage_inv_def serve_defs split: listener.splits)
next
  case (public_deadline t)
  then show ?thesis using assms(2-)
    by (auto simp: serve_inv_def stage_inv_def serve_defs split: listener.splits)
next
  case (admin_idle t)
  then show ?thesis using assms(2) by (simp add: to_flush_inv)
next
  case (admin_deadline t)
  then show ?thesis using assms(2) by (simp add: to_flush_inv)
next
  case (flushed t)
  then obtain t0 where "drained_since s t0" "t0 + DrainDelay c \<le> sv_now s"
      "sv_now s \<le> t0 + DrainDelay c + ShutdownGrace c + 5 * Second" "sv_public s \<noteq> Listening" "sv_admin s \<noteq> Listening"
      "sv_shutdownErr s = None \<longrightarrow> sv_requests s = 0"
    using assms(2) by (auto simp: serve_inv_def stage_inv_def)
  moreover have "failed (sv_public s) \<or> failed (sv_admin s) \<longrightarrow> sv_err s \<noteq> None" using assms(2) by (simp add: serve_inv_def)
  ultimately show ?thesis unfolding flushed(2) by (rule finish_inv)
qed (use assms(2) in \<open>auto simp: serve_inv_def stage_inv_def serve_defs split: stage.splits listener.splits option.splits\<close>)

lemma serve_run_inv:
  assumes "serve_run c has_flush s as s'" "serve_inv c s" "0 \<le> DrainDelay c" "0 \<le> ShutdownGrace c"
  shows "serve_inv c s'"
  using assms by (induction rule: serve_run.induct) (auto intro: serve_step_inv)

lemma withDefaults_pos:
  "0 < DrainDelay (ServerConfig_withDefaults c)" "0 < ShutdownGrace (ServerConfig_withDefaults c)"
  "0 < ReadTimeout (ServerConfig_withDefaults c)"
  by (auto simp: ServerConfig_withDefaults_def Let_def)

lemma reachable_inv:
  "serve_run (ServerConfig_withDefaults c) f (serve_start reg t) as s \<Longrightarrow> serve_inv (ServerConfig_withDefaults c) s"
  by (rule serve_run_inv [OF _ serve_start_inv]) (simp_all add: less_imp_le withDefaults_pos)


section \<open>A longest run\<close>

lemma serve_run_cons: "serve_run c f t as u \<Longrightarrow> serve_step c f s a t \<Longrightarrow> serve_run c f s (a # as) u"
proof (induction rule: serve_run.induct)
  case (run_nil t)
  then show ?case using serve_run.run_snoc [OF serve_run.run_nil, of c f s a t] by simp
next
  case (run_snoc t as u b v)
  from serve_run.run_snoc [OF run_snoc.IH [OF run_snoc.prems] run_snoc.hyps(2)] show ?case by simp
qed

text \<open>A run that uses all of it: a request that never ends, and a flush that takes its five seconds.\<close>

abbreviation serve_at where
  "serve_at rg n p a q d st se er dr \<equiv> \<lparr>sv_reg = rg, sv_now = n, sv_public = p, sv_admin = a, sv_requests = q, sv_scrapes = 0,
     sv_done = d, sv_stage = st, sv_shutdownErr = se, sv_err = er, sv_drained = dr\<rparr>"

lemma longest_drain:
  fixes reg :: "'w Registry"
  assumes "0 \<le> DrainDelay c" "0 \<le> ShutdownGrace c"
  shows "\<exists>as s. serve_run c True (serve_start reg t) as s \<and> sv_drained s = Some t \<and> sv_public s = Closed \<and>
    Serve_result s = Some (Some (Wrapf ''public shutdown: '' DeadlineExceeded [])) \<and>
    sv_now s = t + DrainDelay c + ShutdownGrace c + 5 * Second"
proof -
  let ?D = "t + DrainDelay c" and ?e = "Some (Wrapf ''public shutdown: '' DeadlineExceeded [])"
  let ?G = "?D + ShutdownGrace c" and ?r = "BeginDrain reg"
  let ?s0 = "serve_start reg t" and ?s1 = "serve_at reg t Listening Listening 1 False Serving None None None"
  let ?s2 = "serve_at reg t Listening Listening 1 True Serving None None None"
  let ?s3 = "\<lambda>n. serve_at ?r n Listening Listening 1 True (Sleeping ?D) None None (Some t)"
  let ?s4 = "\<lambda>n. serve_at ?r n Closed Listening 1 True (ShutPublic ?G) None None (Some t)"
  let ?s5 = "serve_at ?r ?G Closed Closed 1 True (ShutAdmin ?G) ?e None (Some t)"
  let ?s6 = "\<lambda>n. serve_at ?r n Closed Closed 1 True (Flushing (?G + 5 * Second)) ?e None (Some t)"
  let ?s7 = "serve_at ?r (?G + 5 * Second) Closed Closed 1 True Finished ?e ?e (Some t)"
  have "serve_step c True ?s0 Arrive ?s1" using arrive [of ?s0] by (simp add: serve_start_def)
  moreover have "serve_step c True ?s1 Signal ?s2" using signal [of c True ?s1] by simp
  moreover have "serve_step c True ?s2 Drain (?s3 t)" using drain [of ?s2] by simp
  moreover have "serve_step c True (?s3 t) (Tick (DrainDelay c)) (?s3 ?D)" using tick [of "DrainDelay c" "?s3 t"] assms by simp
  moreover have "serve_step c True (?s3 ?D) ClosePublic (?s4 ?D)" using close_public [of "?s3 ?D"] by (simp add: close_listener_def)
  moreover have "serve_step c True (?s4 ?D) (Tick (ShutdownGrace c)) (?s4 ?G)" using tick [of "ShutdownGrace c" "?s4 ?D"] assms by simp
  moreover have "serve_step c True (?s4 ?G) PublicDeadline ?s5" using public_deadline [of "?s4 ?G"] by (simp add: to_admin_def close_listener_def)
  moreover have "serve_step c True ?s5 AdminIdle (?s6 ?G)" using admin_idle [of ?s5 _ c True] by (simp add: to_flush_def)
  moreover have "serve_step c True (?s6 ?G) (Tick (5 * Second)) (?s6 (?G + 5 * Second))" using tick [of "5 * Second" "?s6 ?G"] by simp
  moreover have "serve_step c True (?s6 (?G + 5 * Second)) Flushed ?s7"
    using flushed [of "?s6 (?G + 5 * Second)"] by (simp add: finish_def group_fail_def)
  ultimately have "serve_run c True ?s0 [Arrive, Signal, Drain, Tick (DrainDelay c), ClosePublic, Tick (ShutdownGrace c),
      PublicDeadline, AdminIdle, Tick (5 * Second), Flushed] ?s7"
    by (blast intro: serve_run_cons run_nil)
  moreover have "Serve_result ?s7 = Some ?e" by (simp add: Serve_result_def)
  ultimately show ?thesis by fastforce
qed

definition wit_server :: ServerConfig where
  "wit_server = \<lparr>PublicAddr = [], AdminAddr = [], ReadTimeout = 0, WriteTimeout = 0, IdleTimeout = 0, ShutdownGrace = 0, DrainDelay = 0\<rparr>"

abbreviation wit_drain where
  "wit_drain P \<equiv> \<exists>as s :: unit serve. serve_run (ServerConfig_withDefaults wit_server) True
     (serve_start (MarkStarted (Registry_New ''gateway'' ''1'' 0)) 0) as s \<and> P s"

lemma wit_drain:
  "wit_drain (\<lambda>s. sv_drained s = Some 0 \<and> sv_public s = Closed \<and>
     Serve_result s = Some (Some (Wrapf ''public shutdown: '' DeadlineExceeded [])) \<and> sv_now s = 35 * Second)"
proof -
  have "DrainDelay (ServerConfig_withDefaults wit_server) = 5 * Second" "ShutdownGrace (ServerConfig_withDefaults wit_server) = 25 * Second"
    by (simp_all add: ServerConfig_withDefaults_def wit_server_def)
  with longest_drain [of "ServerConfig_withDefaults wit_server" "MarkStarted (Registry_New ''gateway'' ''1'' 0) :: unit Registry" 0]
  show ?thesis by simp
qed

section \<open>Properties\<close>

text \<open>
  C5. Readiness turns false before the listener goes away. In every run of \<open>Serve\<close>, a public listener
  that has been shut down leaves a pod whose readiness has answered 503 for at least the drain delay:
  until then, unless the listener itself failed, it still accepts every request that arrives.
\<close>

theorem drain_before_close:
  assumes "serve_run (ServerConfig_withDefaults c) f (serve_start reg t) as s"
  shows "(case sv_public s of
      Closed \<Rightarrow> \<exists>t0. sv_drained s = Some t0 \<and> t0 + DrainDelay (ServerConfig_withDefaults c) \<le> sv_now s
    | Listening \<Rightarrow> \<exists>s'. serve_step (ServerConfig_withDefaults c) f s Arrive s'
    | Failed e \<Rightarrow> sv_err s \<noteq> None)
    \<and> (if sv_drained s \<noteq> None then run_status (fst (ReadinessHandler env sch (sv_reg s) r w)) = 503 else True)"
proof -
  note inv = reachable_inv [OF assms, unfolded serve_inv_def stage_inv_def]
  have "sv_drained s \<noteq> None \<Longrightarrow> draining (sv_reg s)"
    using inv by (cases "sv_stage s") (auto simp: drained_since_def)
  then have "sv_drained s \<noteq> None \<Longrightarrow> run_status (fst (ReadinessHandler env sch (sv_reg s) r w)) = 503"
    by (cases "started (sv_reg s)") (simp_all add: ReadinessHandler_def snapshot_def)
  moreover have "sv_public s = Closed \<Longrightarrow> \<exists>t0. sv_drained s = Some t0 \<and> t0 + DrainDelay (ServerConfig_withDefaults c) \<le> sv_now s"
    using inv by (cases "sv_stage s") (auto simp: drained_since_def)
  moreover have "sv_err s \<noteq> None" if "sv_public s = Failed e" for e
    using inv that by (simp add: failed_def)
  moreover have "sv_public s = Listening \<Longrightarrow> \<exists>s'. serve_step (ServerConfig_withDefaults c) f s Arrive s'"
    by (blast intro: arrive)
  ultimately show ?thesis by (cases "sv_public s") simp_all
qed

lemma drain_before_close_witness:
  "wit_drain (\<lambda>s. sv_public s = Closed \<and> run_status (fst (ReadinessHandler \<lparr>env_now = (\<lambda>w. (0, w)), env_rand16 = (\<lambda>w. (None, w)), env_emit = (\<lambda>_ w. w)\<rparr> [] (sv_reg s) (wit_request ''GET'' ''/readyz'' Map.empty []) ())) = 503)"
proof -
  obtain as and s :: "unit serve" where s: "serve_run (ServerConfig_withDefaults wit_server) True
     (serve_start (MarkStarted (Registry_New ''gateway'' ''1'' 0)) 0) as s" "sv_drained s = Some 0" "sv_public s = Closed"
    using wit_drain by blast
  from drain_before_close [OF s(1), of _ "[]"] s(2,3) have "run_status (fst (ReadinessHandler env [] (sv_reg s) r ())) = 503" for env r
    by simp
  with s show ?thesis by blast
qed

definition completes :: "ServerConfig \<Rightarrow> bool \<Rightarrow> 'w serve \<Rightarrow> bool" where
  "completes c f s \<longleftrightarrow> (\<exists>as s'. serve_run c f s as s' \<and> sv_stage s' = Finished)"

lemma completes_step: "serve_step c f s a t \<Longrightarrow> completes c f t \<Longrightarrow> completes c f s"
  unfolding completes_def by (blast intro: serve_run_cons)

lemma completes_Finished: "sv_stage s = Finished \<Longrightarrow> completes c f s"
  unfolding completes_def by (blast intro: run_nil)

lemma completes_flush: "completes c f (to_flush f s)"
proof (cases f)
  case True
  then have "serve_step c f (to_flush f s) Flushed (finish (to_flush f s))"
    by (intro flushed [where t = "sv_now s + 5 * Second"]) (simp add: to_flush_def)
  then show ?thesis by (rule completes_step) (simp add: completes_Finished)
qed (simp add: to_flush_def completes_Finished)

lemma completes_wait:
  assumes "due (sv_stage s) = Some t" "sv_now s \<le> t" "completes c f (s\<lparr>sv_now := t\<rparr>)"
  shows "completes c f s"
proof -
  have "serve_step c f s (Tick (t - sv_now s)) (s\<lparr>sv_now := sv_now s + (t - sv_now s)\<rparr>)"
    using assms(1,2) by (intro tick) auto
  then show ?thesis by (rule completes_step) (simp add: assms(3))
qed

lemma completes_admin:
  assumes "sv_stage s = ShutAdmin t" "sv_now s \<le> t" shows "completes c f s"
proof -
  have "completes c f (s\<lparr>sv_now := t\<rparr>)"
    by (rule completes_step [OF admin_deadline [where t = t]]) (simp_all add: assms(1) completes_flush)
  then show ?thesis using assms by (intro completes_wait [of s t]) auto
qed

lemma completes_public:
  assumes "sv_stage s = ShutPublic t" "sv_now s \<le> t" shows "completes c f s"
proof -
  have "completes c f (s\<lparr>sv_now := t\<rparr>)"
    by (rule completes_step [OF public_deadline [where t = t]])
      (simp_all add: assms(1) to_admin_def completes_admin [where t = t])
  then show ?thesis using assms by (intro completes_wait [of s t]) auto
qed

lemma completes_sleeping:
  assumes "sv_stage s = Sleeping t" "sv_now s \<le> t" "0 \<le> ShutdownGrace c" shows "completes c f s"
proof -
  have "completes c f (s\<lparr>sv_now := t\<rparr>)"
    by (rule completes_step [OF close_public [where t = t]])
      (use assms in \<open>simp_all add: completes_public [where t = "t + ShutdownGrace c"]\<close>)
  then show ?thesis using assms by (intro completes_wait [of s t]) auto
qed

lemma completes_draining:
  assumes "serve_inv c s" "sv_done s" "0 \<le> DrainDelay c" "0 \<le> ShutdownGrace c"
  shows "completes c f s"
proof (cases "sv_stage s")
  case Serving
  show ?thesis
    by (rule completes_step [OF drain]) (use Serving assms in \<open>simp_all add: completes_sleeping [where t = "sv_now s + DrainDelay c"]\<close>)
next
  case (Flushing t)
  then show ?thesis by (rule completes_step [OF flushed]) (simp add: completes_Finished)
qed (use assms in \<open>auto simp: serve_inv_def stage_inv_def
      intro: completes_Finished completes_admin completes_public completes_sleeping\<close>)

text \<open>
  C20. Once \<open>Serve\<close> has been told to stop it does stop, even when requests never end: from every state
  it can be in, its own steps and the passing of time lead to its return, and it never has been
  draining for longer than the drain delay, the grace period and the five seconds of the flush together.
\<close>

theorem shutdown_completes:
  assumes "serve_run (ServerConfig_withDefaults c) f (serve_start reg t) as s" "sv_done s"
  shows "(\<exists>as' s'. serve_run (ServerConfig_withDefaults c) f s as' s' \<and> Serve_result s' \<noteq> None) \<and>
    (case sv_drained s of None \<Rightarrow> sv_stage s = Serving
     | Some t0 \<Rightarrow> sv_now s \<le> t0 + DrainDelay (ServerConfig_withDefaults c) + ShutdownGrace (ServerConfig_withDefaults c) + 5 * Second)"
proof -
  let ?c = "ServerConfig_withDefaults c"
  note inv = reachable_inv [OF assms(1)]
  have pos: "0 \<le> DrainDelay ?c" "0 \<le> ShutdownGrace ?c" by (simp_all add: less_imp_le withDefaults_pos)
  obtain as' s' where r: "serve_run ?c f s as' s'" "sv_stage s' = Finished"
    using completes_draining [OF inv assms(2) pos, of f] unfolding completes_def by blast
  have "serve_inv ?c s'" by (rule serve_run_inv [OF r(1) inv pos])
  then have "Serve_result s' \<noteq> None" using r(2) by (auto simp: Serve_result_def serve_inv_def stage_inv_def)
  moreover have "case sv_drained s of None \<Rightarrow> sv_stage s = Serving
      | Some t0 \<Rightarrow> sv_now s \<le> t0 + DrainDelay ?c + ShutdownGrace ?c + 5 * Second"
    using inv pos unfolding serve_inv_def stage_inv_def drained_since_def by (cases "sv_stage s") auto
  ultimately show ?thesis using r(1) by blast
qed

lemma shutdown_completes_witness:
  "\<exists>as s' :: unit serve. serve_run (ServerConfig_withDefaults wit_server) False
     ((serve_start (Registry_New ''gateway'' ''1'' 0) 0)\<lparr>sv_done := True\<rparr>) as s' \<and> Serve_result s' \<noteq> None"
proof -
  let ?s = "serve_start (Registry_New ''gateway'' ''1'' 0) 0 :: unit serve"
  have "serve_run (ServerConfig_withDefaults wit_server) False ?s [Signal] (?s\<lparr>sv_done := True\<rparr>)"
    by (rule serve_run_cons [OF run_nil signal])
  from shutdown_completes [OF this] show ?thesis by simp
qed

text \<open>An error of the group comes from a listener that failed or from requests that did not end in time.\<close>

lemma serve_run_err:
  assumes "serve_run c f (serve_start reg t) as s" "sv_err s \<noteq> None"
  shows "failed (sv_public s) \<or> failed (sv_admin s) \<or> sv_shutdownErr s \<noteq> None"
  using assms
proof (induction "serve_start reg t" as s rule: serve_run.induct)
  case run_nil
  then show ?case by (simp add: serve_start_def)
next
  case (run_snoc as s a s')
  from run_snoc.hyps(3) show ?case
    by (rule serve_stepE) (use run_snoc.hyps(2) run_snoc.prems in
      \<open>auto simp: group_fail_def close_listener_def to_admin_def to_flush_def failed_def finish_def split: listener.splits option.splits if_splits\<close>)
qed

text \<open>
  C21. What \<open>Serve\<close> returns: nil exactly when both listeners were shut down without a failure of
  their own and the public one drained within the grace period; and then no request was abandoned.
\<close>

theorem serve_lossless:
  assumes "serve_run (ServerConfig_withDefaults c) f (serve_start reg t) as s" "Serve_result s = Some res"
  shows "(res = None) = (sv_public s = Closed \<and> sv_admin s = Closed \<and> sv_shutdownErr s = None) \<and>
    (if res = None then sv_requests s = 0 else True)"
proof -
  note inv = reachable_inv [OF assms(1), unfolded serve_inv_def stage_inv_def]
  have fin: "sv_stage s = Finished" "sv_public s \<noteq> Listening" "sv_admin s \<noteq> Listening" "res = sv_err s"
    using assms(2) by (auto simp: Serve_result_def split: if_splits)
  with inv have "sv_shutdownErr s = None \<longrightarrow> sv_requests s = 0" "sv_shutdownErr s \<noteq> None \<longrightarrow> sv_err s \<noteq> None"
    "failed (sv_public s) \<or> failed (sv_admin s) \<longrightarrow> sv_err s \<noteq> None" by auto
  moreover have "sv_public s = Closed \<longleftrightarrow> \<not> failed (sv_public s)" "sv_admin s = Closed \<longleftrightarrow> \<not> failed (sv_admin s)"
    using fin(2,3) by (cases "sv_public s"; cases "sv_admin s"; simp add: failed_def)+
  ultimately show ?thesis using serve_run_err [OF assms(1)] fin(4) by auto
qed

lemma serve_lossless_witness: "wit_drain (\<lambda>s. sv_public s = Closed \<and> \<not> (sv_admin s = Closed \<and> sv_shutdownErr s = None))"
proof -
  obtain as and s :: "unit serve" where s: "serve_run (ServerConfig_withDefaults wit_server) True
     (serve_start (MarkStarted (Registry_New ''gateway'' ''1'' 0)) 0) as s" "sv_public s = Closed"
     "Serve_result s = Some (Some (Wrapf ''public shutdown: '' DeadlineExceeded []))"
    using wit_drain by blast
  from serve_lossless [OF s(1,3)] s show ?thesis by auto
qed

end
