(* ===== verification/Services.thy ===== *)
theory Services
  imports Gateway CatalogHttp Telemetry Server
begin

text \<open>
  The two commands, \<open>cmd/gateway/main.go\<close> and \<open>cmd/catalog/main.go\<close>: what they load, what they build,
  and the chains of middleware they serve. What a command hands to \<open>httpx.Serve\<close> is its boot record; the
  rest of its life is the step relation of \<open>Server\<close>. The instrumentation of \<open>otelhttp\<close> around the chain
  is a library's.
\<close>

section \<open>Shared by both\<close>

text \<open>
  \<open>slog.Level.UnmarshalText\<close>: a name in any case, with an optional offset, added in 64-bit arithmetic.
  \<open>upper\<close> is \<open>strings.ToUpper\<close> outside ASCII. A logger is its minimum level and its attributes.
\<close>

definition Level_parse :: "(string \<Rightarrow> string) \<Rightarrow> string \<Rightarrow> int option" where
  "Level_parse upper s =
     (let nm = takeWhile (\<lambda>c. c \<noteq> CHR ''+'' \<and> c \<noteq> CHR ''-'') s; rest = drop (length nm) s
      in case (if rest = [] then Some 0 else Atoi rest) of
           None \<Rightarrow> None
         | Some offset \<Rightarrow>
             map_option (\<lambda>l. (level_value l + offset + 2 ^ 63) mod 2 ^ 64 - 2 ^ 63)
               (map_of [(''DEBUG'', LevelDebug), (''INFO'', LevelInfo), (''WARN'', LevelWarn), (''ERROR'', LevelError)] (ToUpper upper nm)))"

definition newLogger :: "(string \<Rightarrow> string) \<Rightarrow> Runtime \<Rightarrow> int \<times> attrs" where
  "newLogger upper rt =
     (case Level_parse upper (LogLevel rt) of Some l \<Rightarrow> l | None \<Rightarrow> level_value LevelInfo,
      [(''service'', AStr (ServiceName rt)), (''version'', AStr (rt_Version rt)), (''environment'', AStr (Environment rt))])"

definition tracing_config :: "Runtime \<Rightarrow> TracingConfig" where
  "tracing_config rt = \<lparr>tc_ServiceName = ServiceName rt, tc_Version = rt_Version rt, tc_Environment = Environment rt,
     tc_Endpoint = OTLPEndpoint rt, tc_SampleRate = TraceSampleRate rt\<rparr>"

definition server_config :: "Runtime \<Rightarrow> ServerConfig" where
  "server_config rt = \<lparr>PublicAddr = HTTPAddr rt, AdminAddr = rt_AdminAddr rt, ReadTimeout = rt_ReadTimeout rt,
     WriteTimeout = rt_WriteTimeout rt, IdleTimeout = rt_IdleTimeout rt, ShutdownGrace = rt_ShutdownGrace rt, DrainDelay = 0\<rparr>"

text \<open>What the outside gives both commands: the environment, the loggers and the tracing library.\<close>

record 'w platform =
  pf_environ :: Environ
  pf_upper :: "string \<Rightarrow> string"
  pf_exporter :: "string \<Rightarrow> go_error option"
  pf_merge :: "(string \<times> string) list \<Rightarrow> go_error option"
  pf_flush :: "tracer_provider \<Rightarrow> go_error option"
  pf_env :: "'w Env"

definition pf_tracing :: "'w platform \<Rightarrow> Runtime \<Rightarrow> (go_error + (unit \<Rightarrow> go_error option)) \<times> otel" where
  "pf_tracing pf rt = SetupTracing (pf_exporter pf) (pf_merge pf) (pf_flush pf) (tracing_config rt)
     \<lparr>otel_propagators = [], otel_provider = None\<rparr>"

section \<open>The gateway\<close>

record GatewayConfig =
  CatalogURL :: string
  ScorerURL :: string
  UpstreamTimeout :: duration
  RetryAttempts :: int
  RateLimitRPS :: float64
  RateLimitBurst :: int
  APIKeys :: string
  gc_Degrade :: bool

definition LoadGatewayConfig :: "Environ \<Rightarrow> Loader \<Rightarrow> GatewayConfig \<times> Loader" where
  "LoadGatewayConfig E l =
     (let (curl, l) = Loader_String E ''CATALOG_URL'' ''http://catalog:8080'' l;
          (surl, l) = Loader_String E ''SCORER_URL'' ''http://scorer:8080'' l;
          (tmo, l) = Loader_Duration E ''UPSTREAM_TIMEOUT'' (2 * Second) l;
          (att, l) = Loader_Int E ''UPSTREAM_RETRY_ATTEMPTS'' 3 l;
          (rps, l) = Loader_Float E ''RATE_LIMIT_RPS'' (Finite 100) l;
          (bst, l) = Loader_Int E ''RATE_LIMIT_BURST'' 200 l;
          (ks, l) = Loader_String E ''API_KEYS'' [] l;
          (deg, l) = Loader_Bool E ''DEGRADE_ON_CATALOG_FAILURE'' True l
      in (\<lparr>CatalogURL = curl, ScorerURL = surl, UpstreamTimeout = tmo, RetryAttempts = att, RateLimitRPS = rps,
           RateLimitBurst = bst, APIKeys = ks, gc_Degrade = deg\<rparr>, l))"

definition gateway_retry :: "GatewayConfig \<Rightarrow> 'w RetryConfig" where
  "gateway_retry c = \<lparr>MaxAttempts = RetryAttempts c, BaseDelay = 50 * Millisecond, MaxDelay = Second,
     JitterFraction = rnd64 (3/10), Rand = None, Sleep = None, OnRetry = None\<rparr>"

definition gateway_breaker :: "'w BreakerConfig" where
  "gateway_breaker = \<lparr>MinimumRequests = 20, FailureRatio = 1/2, OpenTimeout = 15 * Second, HalfOpenMaxCalls = 3,
     HalfOpenSuccesses = 2, Window = 30 * Second, Now = None, OnStateChange = None\<rparr>"

definition upstream_config :: "GatewayConfig \<Rightarrow> string \<Rightarrow> string \<Rightarrow> 'w UpstreamConfig" where
  "upstream_config c name url = \<lparr>uc_Name = name, uc_BaseURL = url, uc_Timeout = UpstreamTimeout c,
     uc_Retry = gateway_retry c, uc_Breaker = gateway_breaker\<rparr>"

text \<open>The effects of the process on the gateway's state: they reach its world only.\<close>

definition gw_env :: "'w Env \<Rightarrow> 'w gateway Env" where
  "gw_env env =
     \<lparr>env_now = (\<lambda>s. let (t, w) = env_now env (gw_base s) in (t, s\<lparr>gw_base := w\<rparr>)),
      env_rand16 = (\<lambda>s. let (b, w) = env_rand16 env (gw_base s) in (b, s\<lparr>gw_base := w\<rparr>)),
      env_emit = (\<lambda>e s. s\<lparr>gw_base := env_emit env e (gw_base s)\<rparr>)\<rparr>"

text \<open>The readiness checks of the gateway: they report an open breaker in the log, never as a failure.\<close>

definition breaker_check ::
  "'w Env \<Rightarrow> attrs \<Rightarrow> (('w bstate \<Rightarrow> State \<times> 'w bstate) \<Rightarrow> 'w gateway \<Rightarrow> State \<times> 'w gateway) \<Rightarrow> string \<Rightarrow> 'w gateway Check" where
  "breaker_check env logger on name ctx s =
     (let (st, s) = on BreakerState s
      in (None, if st = StateOpen
                then env_emit (gw_env env) (Log LevelWarn ''dependency breaker is open'' (logger @ [(''upstream'', AStr name)])) s
                else s))"

definition gateway_probes :: "'w Env \<Rightarrow> attrs \<Rightarrow> Runtime \<Rightarrow> 'w Upstreams \<Rightarrow> 'w gateway Registry" where
  "gateway_probes env logger rt up =
     Register (Upstream_Name (Scorer up) @ ''_breaker'') (breaker_check env logger on_scorer (Upstream_Name (Scorer up)))
       (Register (Upstream_Name (Catalog up) @ ''_breaker'') (breaker_check env logger on_catalog (Upstream_Name (Catalog up)))
         (Registry_New (ServiceName rt) (rt_Version rt) (2 * Second)))"

text \<open>
  The public chain, in the order of the code, around the handler \<open>inner\<close>. \<open>sz\<close> is the size of an encoded
  body, \<open>stack\<close> the trace of a panic, \<open>sha\<close> SHA-256, and \<open>sched\<close> the race between a handler and its deadline.
\<close>

definition lift_sched :: "('w \<Rightarrow> choice list \<times> 'w) \<Rightarrow> 'w gateway \<Rightarrow> choice list \<times> 'w gateway" where
  "lift_sched sched s = (let (c, w) = sched (gw_base s) in (c, s\<lparr>gw_base := w\<rparr>))"

definition get_limiter :: "'w gateway \<Rightarrow> 'w flstate" where
  "get_limiter s = (gw_limiter s, gw_base s)"

definition put_limiter :: "'w flstate \<Rightarrow> 'w gateway \<Rightarrow> 'w gateway" where
  "put_limiter = (\<lambda>(rl, w) s. s\<lparr>gw_limiter := rl, gw_base := w\<rparr>)"

definition gateway_public ::
  "'w Env \<Rightarrow> ('v payload \<Rightarrow> int) \<Rightarrow> attrs \<Rightarrow> string \<Rightarrow> (string \<Rightarrow> string) \<Rightarrow> APIKeyStore \<Rightarrow> ('w \<Rightarrow> choice list \<times> 'w) \<Rightarrow> duration \<Rightarrow>
   ('v, 'w gateway) Handler \<Rightarrow> ('v, 'w gateway) Handler" where
  "gateway_public env sz logger stack sha keys sched timeout inner =
     Chain inner
       [RequestIDMiddleware (gw_env env),
        Logging (gw_env env) sz logger,
        Recovery (gw_env env) (stack_trace stack),
        SecurityHeaders,
        Metrics (gw_env env) sz,
        MaxBodyBytes (2 ^ 20),
        Authenticate sha (Some keys),
        RateLimiter_Middleware get_limiter put_limiter RateLimitKey,
        Timeout (gw_env env) sz (lift_sched sched) timeout]"

record 'w gateway_boot =
  gb_runtime :: Runtime
  gb_config :: GatewayConfig
  gb_logger :: "int \<times> attrs"
  gb_otel :: otel
  gb_flush :: "unit \<Rightarrow> go_error option"
  gb_up :: "'w Upstreams"
  gb_keys :: APIKeyStore
  gb_probes :: "'w gateway Registry"
  gb_state :: "'w gateway"
  gb_server :: ServerConfig

text \<open>\<open>run\<close> up to the call of \<open>Serve\<close>: an error, or what is served.\<close>

definition gateway_limiter :: "'w Env \<Rightarrow> GatewayConfig \<Rightarrow> 'w fl_RateLimiter" where
  "gateway_limiter env c = fl_NewRateLimiter (env_now env)
     \<lparr>fl_RequestsPerSecond = RateLimitRPS c, fl_Burst = RateLimitBurst c, fl_IdleTTL = 0, fl_Now = None\<rparr>"

definition gateway_run ::
  "'w platform \<Rightarrow> (duration \<Rightarrow> UpRequest \<Rightarrow> 'w \<Rightarrow> (go_error + HttpResponse) \<times> 'w) \<Rightarrow> (string \<Rightarrow> string) \<Rightarrow>
   ((string \<times> string) list \<Rightarrow> (string \<times> string) list) \<Rightarrow> 'w \<Rightarrow> go_error + 'w gateway_boot" where
  "gateway_run pf mk_client sha iter w =
     (let E = pf_environ pf;
          (rt, l) = LoadRuntime E ''gateway'' NewLoader;
          (c, l) = LoadGatewayConfig E l
      in case Loader_Err l of
           Some err \<Rightarrow> Inl err
         | None \<Rightarrow>
             (case pf_tracing pf rt of
                (Inl err, ot) \<Rightarrow> Inl (Wrapf ''tracing: '' err [])
              | (Inr flush, ot) \<Rightarrow>
                  let logger = newLogger (pf_upper pf) rt; env = at_level (fst logger) (pf_env pf);
                      w = env_emit env (BuildInfo (ServiceName rt) (rt_Version rt) (Environment rt)) w;
                      (cat, (cb, w)) = NewUpstream env mk_client (upstream_config c ''catalog'' (CatalogURL c)) True (snd logger) w;
                      (sc, (sb, w)) = NewUpstream env mk_client (upstream_config c ''scorer'' (ScorerURL c)) True (snd logger) w;
                      up = \<lparr>Catalog = cat, Scorer = sc\<rparr>;
                      keys = ParseKeySpec sha iter (APIKeys c);
                      w = (if Len keys = 0
                           then env_emit env (Log LevelWarn ''no API keys configured; the gateway will accept unauthenticated requests''
                             (snd logger @ [(''hint'', AStr ''set API_KEYS, or leave empty only for local development'')])) w
                           else w)
                  in Inr \<lparr>gb_runtime = rt, gb_config = c, gb_logger = logger, gb_otel = ot, gb_flush = flush, gb_up = up, gb_keys = keys,
                          gb_probes = MarkStarted (gateway_probes env (snd logger) rt up),
                          gb_state = \<lparr>gw_catalog = cb, gw_scorer = sb, gw_limiter = gateway_limiter env c,
                            gw_base = env_emit env (Log LevelInfo ''gateway starting''
                              (snd logger @ [(''version'', AStr (rt_Version rt)), (''environment'', AStr (Environment rt)),
                                 (''catalog_url'', AStr (CatalogURL c)), (''scorer_url'', AStr (ScorerURL c)),
                                 (''auth_enabled'', AStr (if 0 < Len keys then ''true'' else ''false'')),
                                 (''degrade_on_catalog_failure'', AStr (if gc_Degrade c then ''true'' else ''false''))])) w\<rparr>,
                          gb_server = server_config rt\<rparr>))"

section \<open>The catalog\<close>

text \<open>The catalog's state: the devices of the in-memory store, and the world of the database and the logs.\<close>

record 'w catalog =
  ct_memory :: MemoryRepository
  ct_base :: 'w

datatype 'w opened = OpenedMemory | OpenedPostgres "'w Pool"

text \<open>The conversion of an \<open>int\<close> to \<open>int32\<close> wraps.\<close>

definition int32 :: "int \<Rightarrow> int" where
  "int32 i = (i + 2 ^ 31) mod 2 ^ 32 - 2 ^ 31"

definition openStore ::
  "'w Env \<Rightarrow> (string \<Rightarrow> string) \<Rightarrow> (string \<Rightarrow> go_error + 'c) \<Rightarrow> ('c \<Rightarrow> PoolConfig \<Rightarrow> 'w \<Rightarrow> (go_error + 'w Pool) \<times> 'w) \<Rightarrow>
   string \<Rightarrow> string \<Rightarrow> PoolConfig \<Rightarrow> bool \<Rightarrow> attrs \<Rightarrow> 'w \<Rightarrow> (go_error + 'w opened) \<times> 'w" where
  "openStore env quote parse open_pool store dsn poolCfg migrate logger w =
     (if store = ''memory'' then
        (Inr OpenedMemory, env_emit env (Log LevelWarn ''using the in-memory store; all data is lost on restart''
           (logger @ [(''hint'', AStr ''set CATALOG_STORE=postgres and DATABASE_URL outside local development'')])) w)
      else if store = ''postgres'' then
        if dsn = [] then (Inl (ErrText ''config DATABASE_URL: is required when CATALOG_STORE=postgres''), w)
        else (case NewPostgresRepository parse open_pool poolCfg w of
            (Inl err, w) \<Rightarrow> (Inl err, w)
          | (Inr pool, w) \<Rightarrow>
              if migrate then
                (case Migrate pool w of
                   (Some err, w) \<Rightarrow> (Inl err, Postgres_Close pool w)
                 | (None, w) \<Rightarrow> (Inr (OpenedPostgres pool), env_emit env (Log LevelInfo ''schema applied'' logger) w))
              else (Inr (OpenedPostgres pool), w))
      else (Inl (ErrText (''config CATALOG_STORE: '' @ quote store @ '' is not one of postgres, memory'')), w))"

text \<open>The opened store as a repository of the catalog's state.\<close>

definition on_memory :: "(MemoryRepository \<Rightarrow> 'a \<times> MemoryRepository) \<Rightarrow> 'w catalog \<Rightarrow> 'a \<times> 'w catalog" where
  "on_memory f s = (let (a, m) = f (ct_memory s) in (a, s\<lparr>ct_memory := m\<rparr>))"

definition on_database :: "('w \<Rightarrow> 'a \<times> 'w) \<Rightarrow> 'w catalog \<Rightarrow> 'a \<times> 'w catalog" where
  "on_database f s = (let (a, w) = f (ct_base s) in (a, s\<lparr>ct_base := w\<rparr>))"

definition Opened_Ping :: "'w opened \<Rightarrow> 'w catalog \<Rightarrow> go_error option \<times> 'w catalog" where
  "Opened_Ping st s = (case st of
     OpenedMemory \<Rightarrow> on_memory (\<lambda>m. (Memory_Ping m, m)) s
   | OpenedPostgres pool \<Rightarrow> on_database (Postgres_Ping pool) s)"

definition catalog_probes :: "Runtime \<Rightarrow> 'w opened \<Rightarrow> 'w catalog Registry" where
  "catalog_probes rt st =
     Register ''database'' (\<lambda>_. Opened_Ping st) (Registry_New (ServiceName rt) (rt_Version rt) (2 * Second))"

definition catalog_public ::
  "'x Env \<Rightarrow> ('v payload \<Rightarrow> int) \<Rightarrow> attrs \<Rightarrow> string \<Rightarrow> ('x \<Rightarrow> choice list \<times> 'x) \<Rightarrow> duration \<Rightarrow> ('v, 'x) Handler \<Rightarrow> ('v, 'x) Handler" where
  "catalog_public env sz logger stack sched timeout inner =
     Chain inner
       [RequestIDMiddleware env,
        Logging env sz logger,
        Recovery env (stack_trace stack),
        SecurityHeaders,
        Metrics env sz,
        MaxBodyBytes (256 * 2 ^ 10),
        Timeout env sz sched timeout]"

record 'w catalog_boot =
  cb_runtime :: Runtime
  cb_logger :: "int \<times> attrs"
  cb_otel :: otel
  cb_flush :: "unit \<Rightarrow> go_error option"
  cb_store :: "'w opened"
  cb_probes :: "'w catalog Registry"
  cb_state :: "'w catalog"
  cb_server :: ServerConfig

definition catalog_run ::
  "'w platform \<Rightarrow> (string \<Rightarrow> go_error + 'c) \<Rightarrow> ('c \<Rightarrow> PoolConfig \<Rightarrow> 'w \<Rightarrow> (go_error + 'w Pool) \<times> 'w) \<Rightarrow> 'w \<Rightarrow>
   (go_error + 'w catalog_boot) \<times> 'w" where
  "catalog_run pf parse open_pool w =
     (let E = pf_environ pf;
          (rt, l) = LoadRuntime E ''catalog'' NewLoader;
          (store, l) = Loader_String E ''CATALOG_STORE'' ''postgres'' l;
          (maxc, l) = Loader_Int E ''DB_MAX_CONNS'' 10 l;
          (minc, l) = Loader_Int E ''DB_MIN_CONNS'' 2 l;
          (ctmo, l) = Loader_Duration E ''DB_CONNECT_TIMEOUT'' (5 * Second) l;
          (mig, l) = Loader_Bool E ''DB_MIGRATE_ON_BOOT'' True l;
          dsn = (case LookupEnv E ''DATABASE_URL'' of Some v \<Rightarrow> v | None \<Rightarrow> [])
      in case Loader_Err l of
           Some err \<Rightarrow> (Inl err, w)
         | None \<Rightarrow>
             (case pf_tracing pf rt of
                (Inl err, ot) \<Rightarrow> (Inl (Wrapf ''tracing: '' err []), w)
              | (Inr flush, ot) \<Rightarrow>
                  let logger = newLogger (pf_upper pf) rt; env = at_level (fst logger) (pf_env pf);
                      w = env_emit env (BuildInfo (ServiceName rt) (rt_Version rt) (Environment rt)) w
                  in case openStore env (Quote E) parse open_pool store dsn
                       \<lparr>DSN = dsn, MaxConns = int32 maxc, MinConns = int32 minc, MaxConnLifetime = 0, MaxConnIdleTime = 0, ConnectTimeout = ctmo\<rparr>
                       mig (snd logger) w of
                       (Inl err, w) \<Rightarrow> (Inl err, w)
                     | (Inr st, w) \<Rightarrow>
                         let w = env_emit env (Log LevelInfo ''catalog starting''
                               (snd logger @ [(''version'', AStr (rt_Version rt)), (''environment'', AStr (Environment rt)), (''store'', AStr store)])) w
                         in (Inr \<lparr>cb_runtime = rt, cb_logger = logger, cb_otel = ot, cb_flush = flush, cb_store = st,
                               cb_probes = MarkStarted (catalog_probes rt st),
                               cb_state = \<lparr>ct_memory = NewMemoryRepository, ct_base = w\<rparr>, cb_server = server_config rt\<rparr>, w)))"


section \<open>What the middleware around a handler keeps\<close>

text \<open>
  The handlers that, on the requests of a set, leave a part of the state alone, and those that answer
  with a given status. The sets are closed under what middleware does to a request.
\<close>

definition passes_on :: "('x Request \<Rightarrow> bool) \<Rightarrow> bool" where
  "passes_on P \<longleftrightarrow> (\<forall>r ctx b. P (WithContext ctx r) = P r \<and> P (r\<lparr>Body := b\<rparr>) = P r)"

definition keeps :: "('x Request \<Rightarrow> bool) \<Rightarrow> ('x \<Rightarrow> 'o) \<Rightarrow> ('v, 'x) Handler \<Rightarrow> bool" where
  "keeps P obs h \<longleftrightarrow> (\<forall>r s. P r \<longrightarrow> obs (snd (h r s)) = obs s)"

definition answers_with :: "('x Request \<Rightarrow> bool) \<Rightarrow> int \<Rightarrow> ('v, 'x) Handler \<Rightarrow> bool" where
  "answers_with P st h \<longleftrightarrow> (\<forall>r s. P r \<longrightarrow> ending (fst (h r s)) = Returned \<and> run_status (fst (h r s)) = st)"

lemma run_status_updates [simp]:
  "run_status (x\<lparr>patternAfter := p\<rparr>) = run_status x"
  "run_status (x\<lparr>ops := HeaderSet k v # os, patternAfter := p\<rparr>) = run_status (x\<lparr>ops := os\<rparr>)"
  "run_status (x\<lparr>ops := HeaderSet k v # os\<rparr>) = run_status (x\<lparr>ops := os\<rparr>)"
  "run_status (x\<lparr>ops := snd (through sz new_recorder os)\<rparr>) = run_status (x\<lparr>ops := os\<rparr>)"
  "run_status (x\<lparr>ops := snd (through sz new_recorder os), patternAfter := p\<rparr>) = run_status (x\<lparr>ops := os\<rparr>)"
  "run_status (x\<lparr>ops := ops x\<rparr>) = run_status x"
  by (simp_all add: run_status_def reply_HeaderSet reply_of_through)

lemma answers_RequestID: "passes_on P \<Longrightarrow> answers_with P st h \<Longrightarrow> answers_with P st (RequestIDMiddleware env h)"
  by (auto simp: answers_with_def passes_on_def RequestIDMiddleware_def before_def split_beta Let_def)

lemma answers_Logging: "passes_on P \<Longrightarrow> answers_with P st h \<Longrightarrow> answers_with P st (Logging env sz lg h)"
  by (auto simp: answers_with_def passes_on_def Logging_def split_beta Let_def)

lemma answers_Recovery: "answers_with P st h \<Longrightarrow> answers_with P st (Recovery env stack h)"
  by (auto simp: answers_with_def Recovery_def split_beta Let_def)

lemma answers_SecurityHeaders: "answers_with P st h \<Longrightarrow> answers_with P st (SecurityHeaders h)"
  by (auto simp: answers_with_def SecurityHeaders_def before_def security_headers_def split_beta Let_def)

lemma answers_Metrics: "answers_with P st h \<Longrightarrow> answers_with P st (Metrics env sz h)"
  by (auto simp: answers_with_def Metrics_def split_beta Let_def)

lemma answers_MaxBodyBytes: "passes_on P \<Longrightarrow> answers_with P st h \<Longrightarrow> answers_with P st (MaxBodyBytes n h)"
  by (auto simp: answers_with_def passes_on_def MaxBodyBytes_def)

text \<open>The effects of the process do not touch the part \<open>obs\<close> of the state.\<close>

locale effects_apart =
  fixes env :: "'x Env" and obs :: "'x \<Rightarrow> 'o"
  assumes now_apart: "obs (snd (env_now env s)) = obs s"
    and rand_apart: "obs (snd (env_rand16 env s)) = obs s"
    and emit_apart: "obs (env_emit env e s) = obs s"
begin

lemma newRequestID_apart: "obs (snd (newRequestID env s)) = obs s"
  using rand_apart [of s] now_apart by (auto simp: newRequestID_def split_beta Let_def split: option.split)

lemma keeps_RequestID: "passes_on P \<Longrightarrow> keeps P obs h \<Longrightarrow> keeps P obs (RequestIDMiddleware env h)"
  by (auto simp: keeps_def passes_on_def RequestIDMiddleware_def newRequestID_apart split_beta Let_def)

lemma keeps_Logging: "passes_on P \<Longrightarrow> keeps P obs h \<Longrightarrow> keeps P obs (Logging env sz lg h)"
  by (auto simp: keeps_def passes_on_def Logging_def now_apart emit_apart split_beta Let_def)

lemma keeps_Recovery: "keeps P obs h \<Longrightarrow> keeps P obs (Recovery env stack h)"
  by (auto simp: keeps_def Recovery_def emit_apart split_beta Let_def split: ending.split)

lemma keeps_SecurityHeaders: "keeps P obs h \<Longrightarrow> keeps P obs (SecurityHeaders h)"
  by (auto simp: keeps_def SecurityHeaders_def split_beta Let_def)

lemma keeps_Metrics: "keeps P obs h \<Longrightarrow> keeps P obs (Metrics env sz h)"
  by (auto simp: keeps_def Metrics_def now_apart emit_apart split_beta Let_def split: ending.split)

lemma keeps_MaxBodyBytes: "passes_on P \<Longrightarrow> keeps P obs h \<Longrightarrow> keeps P obs (MaxBodyBytes n h)"
  by (auto simp: keeps_def passes_on_def MaxBodyBytes_def)

lemma keeps_Timeout:
  assumes "passes_on P" "keeps P obs h" "\<And>s. obs (snd (sched s)) = obs s"
  shows "keeps P obs (Timeout env sz sched d h)"
  using assms by (auto simp: keeps_def passes_on_def Timeout_def now_apart split_beta Let_def)

lemmas keeps_stack = keeps_RequestID keeps_Logging keeps_Recovery keeps_SecurityHeaders keeps_Metrics keeps_MaxBodyBytes

end

lemmas answers_stack = answers_RequestID answers_Logging answers_Recovery answers_SecurityHeaders answers_Metrics answers_MaxBodyBytes

text \<open>In the gateway they reach the world only, so breakers and buckets are apart from them.\<close>

interpretation edge: effects_apart "gw_env env" "\<lambda>s. (gw_catalog s, gw_scorer s, gw_limiter s)" for env
  by unfold_locales (auto simp: gw_env_def split_beta Let_def)

text \<open>What of the limiter matters to one client: the clock, the capacity and the client's bucket.\<close>

definition bucket_view :: "string \<Rightarrow> 'w gateway \<Rightarrow> ('w \<Rightarrow> time \<times> 'w) \<times> float64 \<times> fl_bucket option" where
  "bucket_view k s = (fl_now (gw_limiter s), fl_burst (gw_limiter s), fl_buckets (gw_limiter s) k)"

interpretation bucket: effects_apart "gw_env env" "bucket_view k" for env k
  by unfold_locales (auto simp: gw_env_def bucket_view_def split_beta Let_def)

section \<open>The edge of the gateway\<close>

definition rejected :: "(string \<Rightarrow> string) \<Rightarrow> APIKeyStore \<Rightarrow> 'x Request \<Rightarrow> bool" where
  "rejected sha keys r \<longleftrightarrow> Len keys \<noteq> 0 \<and> \<not> snd (Lookup sha keys (presentedKey r))"

lemma presentedKey_passes [simp]:
  "presentedKey (WithContext ctx r) = presentedKey r" "presentedKey (r\<lparr>Body := b\<rparr>) = presentedKey r"
  by (simp_all add: presentedKey_def WithContext_def)

lemma rejected_passes: "passes_on (rejected sha keys)"
  by (simp add: passes_on_def rejected_def)

lemma Authenticate_rejected:
  "keeps (rejected sha keys) obs (Authenticate sha (Some keys) h)" "answers_with (rejected sha keys) 401 (Authenticate sha (Some keys) h)"
  by (auto simp: keeps_def answers_with_def rejected_def Authenticate_def Let_def split_beta unauthorized_def respond_def run_status_def
      reply_HeaderSet reply_problem)

lemma gateway_rejects: "answers_with (rejected sha keys) 401 (gateway_public env sz logger stack sha keys sched timeout inner)"
  unfolding gateway_public_def Chain_def by (simp add: answers_stack rejected_passes Authenticate_rejected(2))

text \<open>
  C14. Through the whole public chain, a request without a configured key is answered with 401, and
  nothing behind the authentication sees it: no token is taken from any bucket and neither upstream
  is called, whatever the rest of the gateway is.
\<close>

theorem unauthenticated_stops_at_edge:
  assumes "Len keys \<noteq> 0" "\<not> snd (Lookup sha keys (presentedKey r))"
  shows "let (x, s') = gateway_public env sz logger stack sha keys sched timeout inner r s
    in ending x = Returned \<and> run_status x = 401 \<and>
       gw_catalog s' = gw_catalog s \<and> gw_scorer s' = gw_scorer s \<and> gw_limiter s' = gw_limiter s"
proof -
  have P: "rejected sha keys r" using assms by (simp add: rejected_def)
  have "keeps (rejected sha keys) (\<lambda>s. (gw_catalog s, gw_scorer s, gw_limiter s))
      (gateway_public env sz logger stack sha keys sched timeout inner)"
    unfolding gateway_public_def Chain_def
    by (simp add: edge.keeps_stack rejected_passes Authenticate_rejected(1))
  with gateway_rejects [of sha keys env sz logger stack sched timeout inner] show ?thesis using P
    by (simp add: keeps_def answers_with_def split_beta)
qed

definition wit_keys :: APIKeyStore where
  "wit_keys = NewAPIKeyStore (\<lambda>k. k) [(''web'', ''k-1'')]"

lemma wit_keys_lookup: "Len wit_keys \<noteq> 0" "Lookup (\<lambda>k. k) wit_keys [] = ([], False)" "Lookup (\<lambda>k. k) wit_keys ''k-1'' = (''web'', True)"
  by code_simp+

lemma unauthenticated_stops_at_edge_witness:
  "run_status (fst (gateway_public wit_env (\<lambda>_. 1) [] [] (\<lambda>k. k) wit_keys (\<lambda>w. ([], w)) Second
     (\<lambda>r s. (respond r (WriteJSON 200 ()), s)) (wit_request ''GET'' ''/api/v1/devices'' Map.empty []) wit_gw)) = 401"
proof -
  let ?r = "wit_request ''GET'' ''/api/v1/devices'' Map.empty [] :: (time \<times> event list) gateway Request"
  have "presentedKey ?r = []" by (simp add: presentedKey_def wit_request_def Header_Get_def)
  then have "\<not> snd (Lookup (\<lambda>k. k) wit_keys (presentedKey ?r))" by (simp add: wit_keys_lookup)
  from unauthenticated_stops_at_edge [OF wit_keys_lookup(1) this, of wit_env "\<lambda>_. 1" "[]" "[]" "\<lambda>w. ([], w)" Second
    "\<lambda>r s. (respond r (WriteJSON 200 ()), s)" wit_gw] show ?thesis by (simp add: split_beta)
qed


section \<open>One client's requests leave the others' buckets alone\<close>

definition anyone :: "'x Request \<Rightarrow> bool" where
  "anyone r = True"

lemma anyone_passes: "passes_on anyone"
  by (simp add: passes_on_def anyone_def)

lemma keeps_ServeMux:
  "(\<And>rt. rt \<in> set routes \<Longrightarrow> keeps anyone obs (route_handler rt)) \<Longrightarrow> keeps anyone obs (ServeMux url routes)"
  by (auto simp: keeps_def anyone_def ServeMux_def find_route_def find_Some_iff Let_def split_beta split: option.split)

text \<open>No handler of the public API touches the rate limiter.\<close>

lemma upstream_limiter [simp]:
  "gw_limiter (snd (on_catalog f s)) = gw_limiter s" "gw_limiter (snd (on_scorer g s)) = gw_limiter s"
  "gw_limiter (emit h e s) = gw_limiter s"
  by (simp_all add: on_catalog_def on_scorer_def emit_def split_beta Let_def)

lemma call_limiter_snd [simp]:
  "gw_limiter (snd (catalog_Get h r p s)) = gw_limiter s" "gw_limiter (snd (catalog_Post h r p b s)) = gw_limiter s"
  "gw_limiter (snd (scorer_Post h r p b s)) = gw_limiter s"
  by (simp_all add: catalog_Get_def catalog_Post_def scorer_Post_def)

lemma call_limiter:
  "catalog_Get h r p s = (res, s') \<Longrightarrow> gw_limiter s' = gw_limiter s"
  "catalog_Post h r p b s = (res, s') \<Longrightarrow> gw_limiter s' = gw_limiter s"
  "scorer_Post h r p b s = (res, s') \<Longrightarrow> gw_limiter s' = gw_limiter s"
  by (metis call_limiter_snd snd_conv)+

lemma relay_limiter [simp]: "gw_limiter (snd (relayUpstreamError h r n resp s)) = gw_limiter s"
  by (simp add: relayUpstreamError_def split_beta Let_def)

lemma proxy_limiter [simp]: "gw_limiter (snd (proxy h r m p b s)) = gw_limiter s"
  by (auto simp: proxy_def proxy_result_def split_beta dest: call_limiter split: sum.split option.split prod.split)

lemma score_with_limiter [simp]: "gw_limiter (snd (score_with h r req d g why s)) = gw_limiter s"
  by (auto simp: score_with_def dest: call_limiter split: sum.split option.split prod.split)

lemma fetchDevice_limiter: "fetchDevice h r i s = (res, s') \<Longrightarrow> gw_limiter s' = gw_limiter s"
  by (auto simp: fetchDevice_def dest: call_limiter split: sum.splits option.splits prod.splits if_splits)

lemma ScoreReading_limiter [simp]: "gw_limiter (snd (ScoreReading h r s)) = gw_limiter s"
  by (auto simp: ScoreReading_def dest: fetchDevice_limiter split: sum.split option.split prod.split)

lemma routes_limiter: "rt \<in> set (Gateway_Routes h) \<Longrightarrow> keeps anyone (bucket_view k) (route_handler rt)"
  by (auto simp: keeps_def bucket_view_def Gateway_Routes_def ListDevices_def CreateDevice_def GetDevice_def Dependencies_def Let_def split_beta
      split: sum.split)

definition known_as :: "(string \<Rightarrow> string) \<Rightarrow> APIKeyStore \<Rightarrow> string \<Rightarrow> 'x Request \<Rightarrow> bool" where
  "known_as sha keys c r \<longleftrightarrow> (if Len keys = 0 then c = AnonymousClient else c \<noteq> [] \<and> Lookup sha keys (presentedKey r) = (c, True))"

lemma known_as_passes: "passes_on (known_as sha keys c)"
  by (simp add: passes_on_def known_as_def)

lemma limiter_keeps:
  assumes "keeps anyone (bucket_view k) h"
  shows "keeps (\<lambda>r. RateLimitKey r \<noteq> k) (bucket_view k) (RateLimiter_Middleware get_limiter put_limiter RateLimitKey h)"
proof -
  have "fl_now (fst (snd (fl_Allow c (rl, w)))) = fl_now rl" "fl_burst (fst (snd (fl_Allow c (rl, w)))) = fl_burst rl" for c rl w
    by (simp_all add: fl_Allow_eq Let_def)
  then show ?thesis using assms
    by (auto simp: keeps_def anyone_def bucket_view_def RateLimiter_Middleware_def zoom_def get_limiter_def put_limiter_def split_beta Let_def
        fl_Allow_other)
qed

lemma Authenticate_keeps:
  assumes "keeps (\<lambda>r. RateLimitKey r \<noteq> k) obs h" "k \<noteq> c"
  shows "keeps (known_as sha keys c) obs (Authenticate sha (Some keys) h)"
  using assms
  by (auto simp: keeps_def known_as_def Authenticate_def RateLimitKey_def ClientFrom_def withClient_def WithContext_def
      AnonymousClient_def split_beta Let_def split: if_splits)

lemma bucket_kept:
  assumes "known_as sha keys c r" "k \<noteq> c"
  shows "bucket_view k (snd (gateway_public env sz logger stack sha keys sched timeout (ServeMux url (Gateway_Routes h)) r s)) = bucket_view k s"
proof -
  have "keeps anyone (bucket_view k) (Timeout (gw_env env) sz (lift_sched sched) timeout (ServeMux url (Gateway_Routes h)))"
    by (intro bucket.keeps_Timeout keeps_ServeMux anyone_passes routes_limiter) (simp_all add: lift_sched_def bucket_view_def split_beta Let_def)
  then have "keeps (known_as sha keys c) (bucket_view k)
      (gateway_public env sz logger stack sha keys sched timeout (ServeMux url (Gateway_Routes h)))"
    unfolding gateway_public_def Chain_def
    by (simp add: bucket.keeps_stack known_as_passes Authenticate_keeps [OF limiter_keeps assms(2)])
  then show ?thesis using assms(1) by (simp add: keeps_def)
qed

text \<open>
  C25. The limit is kept per client: through the whole public chain with the gateway's own routes, a
  request that presents client \<open>c\<close>'s key leaves every other client's bucket as it was, so no client
  can use up another's budget. Without configured keys all requests share the anonymous bucket.
\<close>

theorem buckets_isolated:
  assumes "known_as sha keys c r" "k \<noteq> c"
  shows "fl_buckets (gw_limiter (snd (gateway_public env sz logger stack sha keys sched timeout (ServeMux url (Gateway_Routes h)) r s))) k
    = fl_buckets (gw_limiter s) k"
  using bucket_kept [OF assms, of env sz logger stack sched timeout url h s] by (simp add: bucket_view_def)

lemma buckets_isolated_witness:
  "fl_buckets (gw_limiter (snd (gateway_public wit_env (\<lambda>_. 1) [] [] (\<lambda>k. k) wit_keys (\<lambda>w. ([], w)) Second
     (ServeMux (\<lambda>p q. p) (Gateway_Routes (wit_gateway True))) (wit_request ''GET'' ''/api/v1/dependencies'' [''X-Api-Key'' \<mapsto> [''k-1'']] []) wit_gw))) ''ops''
   = None"
proof -
  let ?r = "wit_request ''GET'' ''/api/v1/dependencies'' [''X-Api-Key'' \<mapsto> [''k-1'']] [] :: (time \<times> event list) gateway Request"
  have "TrimSpace ''k-1'' = ''k-1''" by code_simp
  then have "presentedKey ?r = ''k-1''"
    unfolding presentedKey_def Header_Get_def canonical_names by (simp add: wit_request_def)
  then have k: "known_as (\<lambda>k. k) wit_keys ''web'' ?r" by (simp add: known_as_def wit_keys_lookup)
  have n: "''ops'' \<noteq> ''web''" by simp
  have "fl_buckets (gw_limiter wit_gw) ''ops'' = None" by (simp add: wit_gw_def fl_NewRateLimiter_def Let_def)
  with buckets_isolated [OF k n, of wit_env "\<lambda>_. 1" "[]" "[]" "\<lambda>w. ([], w)" Second "\<lambda>p q. p" "wit_gateway True" wit_gw] show ?thesis by simp
qed


section \<open>A panic in a handler\<close>

lemma crashed_passes:
  assumes "\<And>r w. ending (fst (h r w)) = Crashed"
  shows "ending (fst (RequestIDMiddleware env h r w)) = Crashed" "ending (fst (Logging env sz lg h r w)) = Crashed"
    "ending (fst (Recovery env stack h r w)) = Crashed" "ending (fst (SecurityHeaders h r w)) = Crashed"
    "ending (fst (Metrics env sz h r w)) = Crashed" "ending (fst (MaxBodyBytes n h r w)) = Crashed"
  by (simp_all add: assms RequestIDMiddleware_def Logging_def Recovery_def SecurityHeaders_def Metrics_def MaxBodyBytes_def before_def
      split_beta Let_def)

text \<open>
  C38. \<open>Recovery\<close> does not protect against a handler that panics. \<open>Timeout\<close> is closest to the handler and
  runs it in a goroutine of its own, where the deferred \<open>recover\<close> of an outer goroutine has no effect: a
  panic in any handler ends the process, although \<open>Recovery\<close> around the same handler, without
  \<open>Timeout\<close> between them, answers it with 500.
\<close>

theorem handler_panic_crashes:
  assumes "\<And>r w. \<exists>v. ending (fst (inner r w)) = Panicked (PanicValue v)" "\<And>r w. ops (fst (inner r w)) = []"
  shows "ending (fst (catalog_public env sz logger stack sched timeout inner r w)) = Crashed \<and>
    (let x = fst (Chain inner [RequestIDMiddleware env, Logging env sz logger, Recovery env stack] r w)
     in ending x = Returned \<and> run_status x = 500)"
proof
  have "ending (fst (Timeout env sz sched timeout inner r w)) = Crashed" for r w
    using assms(1) by (simp add: Timeout_def split_beta Let_def) (metis ending.distinct(1))
  then show "ending (fst (catalog_public env sz logger stack sched timeout inner r w)) = Crashed"
    unfolding catalog_public_def Chain_def by (simp add: crashed_passes)
  have "answers_with anyone 500 (Recovery env stack inner)"
    unfolding answers_with_def
  proof (intro allI impI)
    fix r w
    obtain v where v: "ending (fst (inner r w)) = Panicked (PanicValue v)" using assms(1) by blast
    then show "ending (fst (Recovery env stack inner r w)) = Returned \<and> run_status (fst (Recovery env stack inner r w)) = 500"
      by (simp add: Recovery_def split_beta Let_def assms(2) run_status_def reply_problem)
  qed
  then have "answers_with anyone 500 (Chain inner [RequestIDMiddleware env, Logging env sz logger, Recovery env stack])"
    unfolding Chain_def by (simp add: answers_stack anyone_passes)
  then show "let x = fst (Chain inner [RequestIDMiddleware env, Logging env sz logger, Recovery env stack] r w)
     in ending x = Returned \<and> run_status x = 500"
    by (simp add: answers_with_def anyone_def Let_def)
qed

lemma handler_panic_crashes_witness:
  "ending (fst (catalog_public wit_env (\<lambda>_. 1) [] [] (\<lambda>w. ([], w)) Second (\<lambda>r w. (panics r ([] :: unit wop list) nil_panic, w))
     (wit_request ''GET'' ''/v1/devices'' Map.empty []) (0, []))) = Crashed"
  using handler_panic_crashes [of "\<lambda>r w. (panics r ([] :: unit wop list) nil_panic, w)" wit_env "\<lambda>_. 1"] by (simp add: panics_def)

section \<open>Readiness of the two services\<close>

lemma readiness_of_checks:
  "started reg \<Longrightarrow> \<not> draining reg \<Longrightarrow> run_status (fst (ReadinessHandler env sch reg r w)) =
     (if healthy (run_checks env (reg_timeout reg) (Ctx r) (reg_checks reg) sch w) then 200 else 503)"
  by (simp add: ReadinessHandler_def snapshot_def Let_def)

lemma gateway_checks_pass:
  "map_of (reg_checks (gateway_probes env lg rt up)) n = Some c \<Longrightarrow> fst (c ctx s) = None"
  by (auto simp: gateway_probes_def Register_def Registry_New_def breaker_check_def update_conv' split_beta Let_def split: if_splits)

lemma MarkStarted_checks [simp]: "reg_checks (MarkStarted reg) = reg_checks reg"
  by (simp add: MarkStarted_def)

lemma probes_started [simp]:
  "started (MarkStarted (gateway_probes env lg rt up))" "\<not> draining (MarkStarted (gateway_probes env lg rt up))"
  "started (MarkStarted (catalog_probes rt st))" "\<not> draining (MarkStarted (catalog_probes rt st))"
  by (simp_all add: MarkStarted_def gateway_probes_def catalog_probes_def Register_def Registry_New_def)

text \<open>
  The two services answer an outage of what they depend on in opposite ways, as intended. The
  gateway stays ready whatever its breakers say, since it still serves degraded scores; the catalog is
  not ready while its store does not answer a ping, since it has nothing to serve without it.
\<close>

lemma readiness_policy:
  assumes "\<And>s. \<exists>e. fst (Opened_Ping st s) = Some e \<and> Error e \<noteq> ''ok''"
  shows "run_status (fst (ReadinessHandler (gw_env env) sch (MarkStarted (gateway_probes env lg rt up)) r s)) = 200 \<and>
    run_status (fst (ReadinessHandler env' sch' (MarkStarted (catalog_probes rt' st)) r' s')) = 503"
proof
  show "run_status (fst (ReadinessHandler (gw_env env) sch (MarkStarted (gateway_probes env lg rt up)) r s)) = 200"
    by (subst readiness_of_checks) (simp_all add: checks_pass gateway_checks_pass)
  have "map_of (reg_checks (MarkStarted (catalog_probes rt' st))) ''database'' = Some (\<lambda>_. Opened_Ping st)"
    by (simp add: MarkStarted_def catalog_probes_def Register_def Registry_New_def)
  then show "run_status (fst (ReadinessHandler env' sch' (MarkStarted (catalog_probes rt' st)) r' s')) = 503"
    using check_fails [of _ "''database''" "\<lambda>_. Opened_Ping st"] assms by (subst readiness_of_checks) simp_all
qed

definition wit_pool :: "(time \<times> event list) Pool" where
  "wit_pool = \<lparr>pool_Exec = (\<lambda>_ w. (None, w)), pool_QueryRow = (\<lambda>_ _ w. (Inl ErrNoRows, w)), pool_Query = (\<lambda>_ _ w. (Inl ErrNoRows, w)),
     pool_Ping = (\<lambda>w. (Some (ConnectError ''dial tcp 10.0.0.7:5432''), w)), pool_Close = (\<lambda>w. w)\<rparr>"

section \<open>The store of the catalog\<close>

text \<open>A boot of the catalog is an opened store.\<close>

lemma catalog_run_store:
  assumes "catalog_run pf parse open_pool w = (Inr boot, w')"
  obtains rt l l' store q cfg mig v lg w1 w2 where
    "Loader_String (pf_environ pf) ''CATALOG_STORE'' ''postgres'' l = (store, l')"
    "openStore (at_level v (pf_env pf)) q parse open_pool store (case LookupEnv (pf_environ pf) ''DATABASE_URL'' of Some v \<Rightarrow> v | None \<Rightarrow> [])
       cfg mig lg w1 = (Inr (cb_store boot), w2)"
    "cb_probes boot = MarkStarted (catalog_probes rt (cb_store boot))"
proof -
  let ?E = "pf_environ pf"
  define dsn where "dsn = (case LookupEnv ?E ''DATABASE_URL'' of Some v \<Rightarrow> v | None \<Rightarrow> [])"
  obtain rt l where 1: "LoadRuntime ?E ''catalog'' NewLoader = (rt, l)" by (rule prod.exhaust)
  obtain store l1 where 2: "Loader_String ?E ''CATALOG_STORE'' ''postgres'' l = (store, l1)" by (rule prod.exhaust)
  obtain maxc l2 where 3: "Loader_Int ?E ''DB_MAX_CONNS'' 10 l1 = (maxc, l2)" by (rule prod.exhaust)
  obtain minc l3 where 4: "Loader_Int ?E ''DB_MIN_CONNS'' 2 l2 = (minc, l3)" by (rule prod.exhaust)
  obtain tmo l4 where 5: "Loader_Duration ?E ''DB_CONNECT_TIMEOUT'' 5000000000 l3 = (tmo, l4)" by (rule prod.exhaust)
  obtain mig l5 where 6: "Loader_Bool ?E ''DB_MIGRATE_ON_BOOT'' True l4 = (mig, l5)" by (rule prod.exhaust)
  obtain lv lg where 7: "newLogger (pf_upper pf) rt = (lv, lg)" by (rule prod.exhaust)
  let ?cfg = "\<lparr>DSN = dsn, MaxConns = int32 maxc, MinConns = int32 minc, MaxConnLifetime = 0, MaxConnIdleTime = 0, ConnectTimeout = tmo\<rparr>"
  let ?w = "env_emit (at_level lv (pf_env pf)) (BuildInfo (ServiceName rt) (rt_Version rt) (Environment rt)) w"
  obtain st w2 where 8: "openStore (at_level lv (pf_env pf)) (Quote ?E) parse open_pool store dsn ?cfg mig lg ?w = (st, w2)" by (rule prod.exhaust)
  have "st = Inr (cb_store boot) \<and> cb_probes boot = MarkStarted (catalog_probes rt (cb_store boot))"
    using assms unfolding catalog_run_def Let_def dsn_def [symmetric]
    by (auto simp: 1 2 3 4 5 6 7 8 split: option.splits sum.splits prod.splits)
  then show ?thesis using that [OF 2] 8 by (simp add: dsn_def)
qed

text \<open>
  A catalog never falls back to the in-memory store: one that boots serves from memory exactly
  when \<open>CATALOG_STORE\<close> says so, and otherwise from the database that \<open>DATABASE_URL\<close> names, which has
  answered a ping; and then its startup probe passes.
\<close>

lemma memory_only_on_request:
  assumes "catalog_run pf parse open_pool w = (Inr boot, w')"
  shows "(case cb_store boot of
      OpenedMemory \<Rightarrow> LookupEnv (pf_environ pf) ''CATALOG_STORE'' = Some ''memory''
    | OpenedPostgres pool \<Rightarrow> LookupEnv (pf_environ pf) ''CATALOG_STORE'' \<noteq> Some ''memory'' \<and>
        (\<exists>dsn w1 w2. LookupEnv (pf_environ pf) ''DATABASE_URL'' = Some dsn \<and> dsn \<noteq> [] \<and> pool_Ping pool w1 = (None, w2)))
    \<and> run_status (fst (StartupHandler (cb_probes boot) r s)) = 200"
proof -
  let ?E = "pf_environ pf" and ?dsn = "case LookupEnv (pf_environ pf) ''DATABASE_URL'' of Some v \<Rightarrow> v | None \<Rightarrow> []"
  obtain rt l l' store q cfg mig v lg w1 w2 where
    st: "Loader_String ?E ''CATALOG_STORE'' ''postgres'' l = (store, l')"
    and o: "openStore (at_level v (pf_env pf)) q parse open_pool store ?dsn cfg mig lg w1 = (Inr (cb_store boot), w2)"
    and p: "cb_probes boot = MarkStarted (catalog_probes rt (cb_store boot))"
    by (rule catalog_run_store [OF assms])
  have "store = ''memory'' \<longleftrightarrow> LookupEnv ?E ''CATALOG_STORE'' = Some ''memory''"
    using st by (auto simp: Loader_String_def split: option.splits if_splits)
  moreover have "?dsn \<noteq> [] \<Longrightarrow> \<exists>dsn. LookupEnv ?E ''DATABASE_URL'' = Some dsn \<and> dsn \<noteq> []" by (auto split: option.splits)
  moreover have "\<exists>v1 v2. pool_Ping pool v1 = (None, v2)" if "NewPostgresRepository parse open_pool cfg w1 = (Inr pool, v)" for pool v
    using that by (auto simp: NewPostgresRepository_def Let_def split: sum.splits prod.splits option.splits)
  ultimately have "case cb_store boot of
      OpenedMemory \<Rightarrow> LookupEnv ?E ''CATALOG_STORE'' = Some ''memory''
    | OpenedPostgres pool \<Rightarrow> LookupEnv ?E ''CATALOG_STORE'' \<noteq> Some ''memory'' \<and>
        (\<exists>dsn w1 w2. LookupEnv ?E ''DATABASE_URL'' = Some dsn \<and> dsn \<noteq> [] \<and> pool_Ping pool w1 = (None, w2))"
    using o by (auto simp: openStore_def split: if_splits sum.splits prod.splits option.splits opened.splits) blast+
  moreover have "run_status (fst (StartupHandler (cb_probes boot) r s)) = 200"
    unfolding p by (simp add: StartupHandler_def snapshot_def)
  ultimately show ?thesis by blast
qed

end
