(* ===== verification/Commands.thy ===== *)
theory Commands
  imports Services
begin

text \<open>
  The two processes as a whole: \<open>main\<close>, what \<open>run\<close> serves, and what its deferred calls do when it returns.
  \<open>otelhttp.NewHandler\<close> is a library's and an argument; the code passes it the function that names a
  request's span. What happens between the boot and the return of \<open>Serve\<close> is a run of the step relation
  of \<open>Server\<close>.
\<close>

section \<open>What is served\<close>

definition spanName :: "'x Request \<Rightarrow> string" where
  "spanName r = (if Pattern r \<noteq> [] then Pattern r else Method r @ '' unmatched'')"

type_synonym ('v, 'x) instrumentation = "string \<Rightarrow> ('x Request \<Rightarrow> string) \<Rightarrow> ('v, 'x) Handler \<Rightarrow> ('v, 'x) Handler"

text \<open>\<open>NewHandler\<close>; the JSON functions and the network of \<open>h\<close> are those of the process.\<close>

definition NewGatewayHandler :: "('f, 'w) GatewayHandler \<Rightarrow> 'w Upstreams \<Rightarrow> bool \<Rightarrow> ('f, 'w) GatewayHandler" where
  "NewGatewayHandler h up degrade = h\<lparr>gh_up := up, degradeOnCatalogFailure := degrade\<rparr>"

definition gateway_served ::
  "('f gateway_json, 'w gateway) instrumentation \<Rightarrow> 'w Env \<Rightarrow> ('f gateway_json payload \<Rightarrow> int) \<Rightarrow> string \<Rightarrow> (string \<Rightarrow> string) \<Rightarrow>
   ('w \<Rightarrow> choice list \<times> 'w) \<Rightarrow> (string \<Rightarrow> string \<Rightarrow> string) \<Rightarrow> ('f, 'w) GatewayHandler \<Rightarrow> 'w gateway_boot \<Rightarrow>
   ('f gateway_json, 'w gateway) Handler" where
  "gateway_served otelhttp env sz stack sha sched url h boot =
     otelhttp ''gateway'' spanName
       (gateway_public (at_level (fst (gb_logger boot)) env) sz (snd (gb_logger boot)) stack sha (gb_keys boot) sched
         (RequestTimeout (gb_runtime boot))
         (ServeMux url (Gateway_Routes (NewGatewayHandler h (gb_up boot) (gc_Degrade (gb_config boot))))))"

definition catalog_served ::
  "(catalog_json, 'x) instrumentation \<Rightarrow> 'x Env \<Rightarrow> (catalog_json payload \<Rightarrow> int) \<Rightarrow> string \<Rightarrow> ('x \<Rightarrow> choice list \<times> 'x) \<Rightarrow>
   (string \<Rightarrow> string \<Rightarrow> string) \<Rightarrow> ('s, 'x) CatalogHandler \<Rightarrow> 'w catalog_boot \<Rightarrow> (catalog_json, 'x) Handler" where
  "catalog_served otelhttp env sz stack sched url h boot =
     otelhttp ''catalog'' spanName
       (catalog_public (at_level (fst (cb_logger boot)) env) sz (snd (cb_logger boot)) stack sched
         (RequestTimeout (cb_runtime boot)) (ServeMux url (Catalog_Routes h)))"

section \<open>The processes\<close>

text \<open>The exit code of a process and what it has written to standard error.\<close>

definition main_exit :: "go_error option \<Rightarrow> int \<times> string" where
  "main_exit err = (case err of None \<Rightarrow> (0, []) | Some e \<Rightarrow> (1, ''fatal: '' @ Error e @ [CHR 0x0A]))"

text \<open>
  How a process can end: with the error of its boot, or with what a run of \<open>Serve\<close> returned, which was
  given the probes and the settings of the boot and a function that flushes.
\<close>

definition serves_until :: "ServerConfig \<Rightarrow> 'x Registry \<Rightarrow> time \<Rightarrow> action list \<Rightarrow> 'x serve \<Rightarrow> go_error option \<Rightarrow> bool" where
  "serves_until c reg t as s res \<longleftrightarrow>
     serve_run (ServerConfig_withDefaults c) True (serve_start reg t) as s \<and> Serve_result s = Some res"

definition gateway_exit :: "go_error + 'w gateway_boot \<Rightarrow> time \<Rightarrow> int \<times> string \<Rightarrow> bool" where
  "gateway_exit start t outcome \<longleftrightarrow> (case start of
     Inl err \<Rightarrow> outcome = main_exit (Some err)
   | Inr boot \<Rightarrow> \<exists>as s res. serves_until (gb_server boot) (gb_probes boot) t as s res \<and> outcome = main_exit res)"

definition catalog_exit :: "go_error + 'w catalog_boot \<Rightarrow> time \<Rightarrow> int \<times> string \<Rightarrow> bool" where
  "catalog_exit start t outcome \<longleftrightarrow> (case start of
     Inl err \<Rightarrow> outcome = main_exit (Some err)
   | Inr boot \<Rightarrow> \<exists>as s res. serves_until (cb_server boot) (cb_probes boot) t as s res \<and> outcome = main_exit res)"

text \<open>The deferred calls: the gateway stops the eviction of its limiter, the catalog closes its store.\<close>

definition gateway_cleanup :: "'w gateway \<Rightarrow> 'w gateway" where
  "gateway_cleanup s = s\<lparr>gw_limiter := fl_Close (gw_limiter s)\<rparr>"

definition catalog_cleanup :: "'w opened \<Rightarrow> 'w \<Rightarrow> 'w" where
  "catalog_cleanup st w = (case st of OpenedMemory \<Rightarrow> w | OpenedPostgres pool \<Rightarrow> Postgres_Close pool w)"

section \<open>Exit codes\<close>

lemma main_exit_code [simp]: "fst (main_exit err) = 0 \<longleftrightarrow> err = None"
  by (simp add: main_exit_def split: option.split)

text \<open>The result of a run of \<open>Serve\<close> that lost nothing.\<close>

lemma serves_until_nil:
  assumes "serves_until c reg t as s None"
  shows "sv_public s = Closed \<and> sv_admin s = Closed \<and> sv_requests s = 0"
proof -
  have "serve_run (ServerConfig_withDefaults c) True (serve_start reg t) as s" "Serve_result s = Some None"
    using assms by (simp_all add: serves_until_def)
  note inv = reachable_inv [OF this(1), unfolded serve_inv_def stage_inv_def] and fin = this(2)
  have f: "sv_stage s = Finished" "sv_public s \<noteq> Listening" "sv_admin s \<noteq> Listening" "sv_err s = None"
    using fin by (auto simp: Serve_result_def split: if_splits)
  with inv have "\<not> failed (sv_public s)" "\<not> failed (sv_admin s)" "sv_requests s = 0" by auto
  with f show ?thesis by (cases "sv_public s"; cases "sv_admin s"; simp add: failed_def)
qed

text \<open>
  C33. A bad setting never reaches traffic, and one start reports every bad setting: with any error
  recorded by the loader, the gateway ends before it serves, with exit code 1 and the messages of all
  the errors on standard error; and an exit code of 0 says that it booted, that both of its listeners were
  shut down, and that no request was abandoned.
\<close>

theorem gateway_exit_codes:
  assumes "gateway_run pf mk sha iter w = start" "gateway_exit start t outcome"
    and "LoadRuntime (pf_environ pf) ''gateway'' NewLoader = (rt, l)" "LoadGatewayConfig (pf_environ pf) l = (c, errs)"
  shows "(errs \<noteq> [] \<longrightarrow> outcome = (1, ''fatal: '' @ join_lines (map Error errs) @ [CHR 0x0A])) \<and>
    (fst outcome = 0 \<longrightarrow> errs = [] \<and> (\<exists>boot as s. start = Inr boot \<and> serves_until (gb_server boot) (gb_probes boot) t as s None \<and>
       sv_public s = Closed \<and> sv_admin s = Closed \<and> sv_requests s = 0))"
proof -
  have bad: "start = Inl (ErrText (join_lines (map Error errs)))" if "errs \<noteq> []"
    using assms(1) that unfolding gateway_run_def Let_def by (simp add: assms(3,4) Loader_Err_def)
  then have "errs \<noteq> [] \<longrightarrow> outcome = (1, ''fatal: '' @ join_lines (map Error errs) @ [CHR 0x0A])"
    using assms(2) by (auto simp: gateway_exit_def main_exit_def)
  moreover have "errs = [] \<and> (\<exists>boot as s. start = Inr boot \<and> serves_until (gb_server boot) (gb_probes boot) t as s None \<and>
       sv_public s = Closed \<and> sv_admin s = Closed \<and> sv_requests s = 0)" if "fst outcome = 0"
  proof (cases start)
    case (Inl err)
    with assms(2) that show ?thesis by (simp add: gateway_exit_def)
  next
    case (Inr boot)
    then obtain as s res where "serves_until (gb_server boot) (gb_probes boot) t as s res" "outcome = main_exit res"
      using assms(2) by (auto simp: gateway_exit_def)
    with that have "serves_until (gb_server boot) (gb_probes boot) t as s None" by simp
    with serves_until_nil [OF this] Inr bad show ?thesis by blast
  qed
  ultimately show ?thesis by blast
qed

definition wit_bad_platform :: "(time \<times> event list) platform" where
  "wit_bad_platform = \<lparr>pf_environ = \<lparr>LookupEnv = [''RATE_LIMIT_BURST'' \<mapsto> ''many''], ParseFloat = (\<lambda>_. None), Quote = (\<lambda>s. s)\<rparr>,
     pf_upper = (\<lambda>s. s), pf_exporter = (\<lambda>_. None), pf_merge = (\<lambda>_. None), pf_flush = (\<lambda>_. None), pf_env = wit_env\<rparr>"

lemma gateway_exit_codes_witness:
  "gateway_run wit_bad_platform (\<lambda>_ _ w. (Inl (ErrText ''down''), w)) (\<lambda>k. k) (\<lambda>ps. ps) (0, []) =
     Inl (ErrText ''config RATE_LIMIT_BURST: many is not an integer'') \<and>
   (\<forall>outcome. gateway_exit (Inl (ErrText ''config RATE_LIMIT_BURST: many is not an integer'') :: go_error + (time \<times> event list) gateway_boot) 0 outcome =
     (outcome = (1, ''fatal: config RATE_LIMIT_BURST: many is not an integer'' @ [CHR 0x0A])))"
proof -
  let ?E = "pf_environ wit_bad_platform"
  obtain rt l where 1: "LoadRuntime ?E ''gateway'' NewLoader = (rt, l)" by (rule prod.exhaust)
  have l: "l = []" using 1 by (simp add: wit_bad_platform_def LoadRuntime_def Loader_String_def Loader_Duration_def Loader_Float_def
      given_def NewLoader_def Let_def)
  obtain c errs where 2: "LoadGatewayConfig ?E l = (c, errs)" by (rule prod.exhaust)
  have "Atoi ''many'' = None" by code_simp
  then have errs: "map Error errs = [''config RATE_LIMIT_BURST: many is not an integer'']"
    using 2 l by (auto simp: wit_bad_platform_def LoadGatewayConfig_def Loader_String_def Loader_Duration_def Loader_Float_def
      Loader_Int_def Loader_Bool_def given_def fail_def Let_def)
  have run: "gateway_run wit_bad_platform (\<lambda>_ _ w. (Inl (ErrText ''down''), w)) (\<lambda>k. k) (\<lambda>ps. ps) (0, []) =
      Inl (ErrText ''config RATE_LIMIT_BURST: many is not an integer'')" (is "_ = ?start")
    unfolding gateway_run_def Let_def using errs by (auto simp: 1 2 Loader_Err_def)
  have "gateway_exit ?start 0 outcome \<Longrightarrow> outcome = (1, ''fatal: config RATE_LIMIT_BURST: many is not an integer'' @ [CHR 0x0A])" for outcome
    using gateway_exit_codes [OF run _ 1 2, of 0 outcome] errs by auto
  moreover have "gateway_exit ?start 0 (1, ''fatal: config RATE_LIMIT_BURST: many is not an integer'' @ [CHR 0x0A])"
    by (simp add: gateway_exit_def main_exit_def)
  ultimately show ?thesis using run by blast
qed

section \<open>Span names\<close>

lemma RequestID_pattern: "patternAfter (fst (RequestIDMiddleware env h r w)) = Pattern r"
  by (simp add: RequestIDMiddleware_def split_beta Let_def)

text \<open>
  The name of a server span is never the route either: the outermost middleware copies the request
  before the mux stores the pattern, so the request that the instrumentation holds has an empty pattern
  both before and after the call.
\<close>

lemma span_name_unmatched:
  assumes "Pattern r = []"
  shows "spanName r = Method r @ '' unmatched''"
    "spanName (r\<lparr>Pattern := patternAfter (fst (gateway_public env sz logger stack sha keys sched timeout inner r s))\<rparr>) = Method r @ '' unmatched''"
    "spanName (r\<lparr>Pattern := patternAfter (fst (catalog_public env' sz' logger' stack' sched' timeout' inner' r w))\<rparr>) = Method r @ '' unmatched''"
  using assms by (simp_all add: spanName_def gateway_public_def catalog_public_def Chain_def RequestID_pattern)

section \<open>The pool is always closed\<close>

text \<open>
  \<open>opens\<close> counts the open pools of a world: opening one that succeeds adds one, closing takes one away, and
  nothing else that the boot does changes it.
\<close>

definition counts_pools :: "('w \<Rightarrow> int) \<Rightarrow> 'w Env \<Rightarrow> ('c \<Rightarrow> PoolConfig \<Rightarrow> 'w \<Rightarrow> (go_error + 'w Pool) \<times> 'w) \<Rightarrow> bool" where
  "counts_pools opens env open_pool \<longleftrightarrow>
     (\<forall>e w. opens (env_emit env e w) = opens w) \<and>
     (\<forall>c pc w. case open_pool c pc w of
        (Inl err, w') \<Rightarrow> opens w' = opens w
      | (Inr pool, w') \<Rightarrow> opens w' = opens w + 1 \<and> (\<forall>v. opens (snd (pool_Ping pool v)) = opens v) \<and>
          (\<forall>q v. opens (snd (pool_Exec pool q v)) = opens v) \<and> (\<forall>v. opens (pool_Close pool v) = opens v - 1))"

lemma counts_opens:
  assumes "counts_pools opens env open_pool"
  shows "open_pool c pc w = (Inl e, w') \<Longrightarrow> opens w' = opens w"
    "open_pool c pc w = (Inr pool, w') \<Longrightarrow> opens w' = opens w + 1"
    "open_pool c pc w = (Inr pool, w') \<Longrightarrow> opens (snd (pool_Ping pool v)) = opens v"
    "open_pool c pc w = (Inr pool, w') \<Longrightarrow> opens (snd (pool_Exec pool q v)) = opens v"
    "open_pool c pc w = (Inr pool, w') \<Longrightarrow> opens (pool_Close pool v) = opens v - 1"
  using assms [unfolded counts_pools_def, THEN conjunct2, rule_format, where c = c and pc = pc and w = w] by simp_all

definition pools_of :: "'w opened \<Rightarrow> int" where
  "pools_of st = (case st of OpenedMemory \<Rightarrow> 0 | OpenedPostgres pool \<Rightarrow> 1)"

lemma counts_at_level: "counts_pools opens env open_pool \<Longrightarrow> counts_pools opens (at_level v env) open_pool"
  by (auto simp: counts_pools_def at_level_def split: event.split)

lemma NewPostgresRepository_counts:
  assumes "counts_pools opens env open_pool" "NewPostgresRepository parse open_pool pc w = (res, w')"
  shows "case res of Inl e \<Rightarrow> opens w' = opens w
    | Inr pool \<Rightarrow> opens w' = opens w + 1 \<and> (\<forall>q v. opens (snd (pool_Exec pool q v)) = opens v) \<and> (\<forall>v. opens (pool_Close pool v) = opens v - 1)"
proof (cases "parse (DSN (PoolConfig_withDefaults pc))")
  case (Inl e)
  then show ?thesis using assms(2) by (auto simp: NewPostgresRepository_def)
next
  case (Inr c)
  obtain r v where o: "open_pool c (PoolConfig_withDefaults pc) w = (r, v)" by (rule prod.exhaust)
  show ?thesis
  proof (cases r)
    case (Inl e)
    then show ?thesis using assms Inr o counts_opens(1) [OF assms(1)] by (auto simp: NewPostgresRepository_def)
  next
    case r: (Inr pool)
    obtain e u where p: "pool_Ping pool v = (e, u)" by (rule prod.exhaust)
    note c = counts_opens(2-) [OF assms(1) o [unfolded r]]
    have "opens u = opens v" using c(2) [of v] p by simp
    then show ?thesis using assms(2) Inr o r p c by (cases e) (auto simp: NewPostgresRepository_def)
  qed
qed

lemma openStore_counts:
  assumes "counts_pools opens env open_pool" "openStore env q parse open_pool store dsn pc mig lg w = (res, w')"
  shows "case res of Inl e \<Rightarrow> opens w' = opens w
    | Inr st \<Rightarrow> opens w' = opens w + pools_of st \<and> (\<forall>v. opens (catalog_cleanup st v) = opens v - pools_of st)"
proof -
  have emit: "opens (env_emit env e w) = opens w" for e w using assms(1) by (simp add: counts_pools_def)
  note here = assms(2) [unfolded openStore_def] and sums = pools_of_def catalog_cleanup_def Postgres_Close_def
  consider (memory) "store = ''memory''" | (unset) "store = ''postgres''" "dsn = []" | (postgres) "store = ''postgres''" "dsn \<noteq> []"
    | (other) "store \<noteq> ''memory''" "store \<noteq> ''postgres''" by blast
  then show ?thesis
  proof cases
    case postgres
    obtain r v where n: "NewPostgresRepository parse open_pool pc w = (r, v)" by (rule prod.exhaust)
    note c = NewPostgresRepository_counts [OF assms(1) n]
    show ?thesis
    proof (cases r)
      case (Inl e)
      with c here postgres n show ?thesis by auto
    next
      case (Inr pool)
      then have p: "opens v = opens w + 1" "opens (snd (pool_Exec pool q u)) = opens u" "opens (pool_Close pool u) = opens u - 1" for q u
        using c by simp_all
      obtain e u where m: "Migrate pool v = (e, u)" by (rule prod.exhaust)
      have "u = snd (pool_Exec pool sql_schema v)" using m by (auto simp: Migrate_def split: prod.splits option.splits)
      then have u: "opens u = opens w + 1" by (simp add: p)
      have close: "opens (pool_Close pool x) = opens x - 1" for x by (rule p(3))
      show ?thesis
      proof (cases "mig \<and> e \<noteq> None")
        case True
        then obtain err where "res = Inl err" "w' = Postgres_Close pool u" using here postgres n Inr m by (cases e) auto
        then show ?thesis by (simp add: Postgres_Close_def close u)
      next
        case False
        then have "res = Inr (OpenedPostgres pool) \<and> opens w' = opens w + 1"
          using here postgres n Inr m p(1) u by (cases mig; cases e) (auto simp: emit)
        then show ?thesis by (simp add: sums close)
      qed
    qed
  qed (use here emit in \<open>auto simp: sums\<close>)
qed

text \<open>
  The catalog never leaks its connections: a boot that fails has closed every pool it opened, whatever
  step failed, and after a boot that succeeds the deferred call closes exactly the pool that was opened.
\<close>

lemma pool_never_leaked:
  assumes "counts_pools opens (pf_env pf) open_pool" "catalog_run pf parse open_pool w = (start, w')"
  shows "case start of Inl err \<Rightarrow> opens w' = opens w
    | Inr boot \<Rightarrow> opens w' = opens w + pools_of (cb_store boot) \<and> (\<forall>v. opens (catalog_cleanup (cb_store boot) v) = opens v - pools_of (cb_store boot))"
proof -
  have emit: "opens (env_emit (at_level l (pf_env pf)) e v) = opens v" for l e v
    using counts_at_level [OF assms(1), of l] by (simp add: counts_pools_def)
  show ?thesis using assms(2) unfolding catalog_run_def Let_def
    by (auto simp: emit dest!: openStore_counts [OF counts_at_level [OF assms(1)]] split: option.splits sum.splits prod.splits)
qed

end
