(* ===== verification/Scoring.thy ===== *)
theory Scoring
  imports Ieee "HOL-Library.Multiset"
begin

text \<open>
  The detector of the scorer service, \<open>services/scorer/app/scoring.py\<close>: a robust z-score of the last
  reading of a window against the median and the median absolute deviation of the readings before
  it. Python's \<open>float\<close> is binary64; its additions and subtractions overflow to infinities silently, and
  a division by zero raises.

  The properties: what the median promises about a majority of the values, that a window of moderate
  readings always gets a finite score in range, that outliers in the history cannot hide an anomaly,
  and what happens to windows whose sums overflow.
\<close>

section \<open>The module\<close>

definition MAD_TO_SIGMA :: float64 where
  "MAD_TO_SIGMA = Finite (rnd64 (6745 / 10000))"

definition MIN_WINDOW :: nat where
  "MIN_WINDOW = 8"

definition MAX_WINDOW :: nat where
  "MAX_WINDOW = 4096"

definition SATURATED_SCORE :: float64 where
  "SATURATED_SCORE = Finite 1000"

datatype py_error = ScoringError string | ZeroDivisionError

record ScoreResult =
  sc_score :: float64
  sc_anomaly :: bool
  sc_method :: string
  sc_window :: nat
  sc_median :: float64
  sc_dispersion :: float64

text \<open>\<open>_median\<close>, which is called on non-empty lists only.\<close>

definition median :: "float64 list \<Rightarrow> float64" where
  "median values =
     (let ordered = sort values; n = length ordered; mid = n div 2
      in if n mod 2 = 1 then ordered ! mid
         else f64_div (f64_add (ordered ! (mid - 1)) (ordered ! mid)) (Finite 2))"

text \<open>Python's \<open>min\<close> keeps its first argument unless the second is smaller.\<close>

definition py_min :: "float64 \<Rightarrow> float64 \<Rightarrow> float64" where
  "py_min x y = (if float64_less y x then y else x)"

definition score_window :: "float64 list \<Rightarrow> float64 \<Rightarrow> py_error + ScoreResult" where
  "score_window readings threshold =
     (if readings = [] then Inl (ScoringError ''readings must not be empty'')
      else if MAX_WINDOW < length readings then Inl (ScoringError ''readings must contain at most 4096 values'')
      else if list_ex (\<lambda>value. \<not> isfinite value) readings then Inl (ScoringError ''readings must all be finite numbers'')
      else let window = length readings
      in if window < MIN_WINDOW then
        Inr \<lparr>sc_score = Finite 0, sc_anomaly = False, sc_method = ''insufficient_data'', sc_window = window,
             sc_median = median readings, sc_dispersion = Finite 0\<rparr>
      else let baseline = butlast readings; latest = last readings;
               med = median baseline;
               absolute_deviations = map (\<lambda>value. f64_abs (f64_sub value med)) baseline;
               mad = median absolute_deviations
      in if float64_eq mad (Finite 0) then
        let deviation = f64_abs (f64_sub latest med)
        in if float64_eq deviation (Finite 0) then
             Inr \<lparr>sc_score = Finite 0, sc_anomaly = False, sc_method = ''robust_zscore_flat'', sc_window = window,
                  sc_median = med, sc_dispersion = Finite 0\<rparr>
           else
             Inr \<lparr>sc_score = SATURATED_SCORE, sc_anomaly = True, sc_method = ''robust_zscore_flat'', sc_window = window,
                  sc_median = med, sc_dispersion = Finite 0\<rparr>
      else let sigma = f64_div mad MAD_TO_SIGMA
      in if float64_eq sigma (Finite 0) then Inl ZeroDivisionError
      else let z = f64_div (f64_abs (f64_sub latest med)) sigma;
               score = py_min z SATURATED_SCORE
      in Inr \<lparr>sc_score = score, sc_anomaly = float64_le threshold z, sc_method = ''robust_zscore'', sc_window = window,
              sc_median = med, sc_dispersion = sigma\<rparr>)"

section \<open>Order statistics\<close>

text \<open>In a sorted list, fewer than \<open>k\<close> elements below a value leave the one at \<open>k\<close> at or above it.\<close>

lemma sorted_nth_ge:
  assumes "sorted xs" "k < length xs" "length (filter (\<lambda>x. x < a) xs) \<le> k"
  shows "a \<le> xs ! k"
proof (rule ccontr)
  assume "\<not> a \<le> xs ! k"
  moreover have "x \<le> xs ! k" if "x \<in> set (take (Suc k) xs)" for x
    using that assms(1,2) by (auto simp: in_set_conv_nth sorted_nth_mono)
  ultimately have "\<forall>x \<in> set (take (Suc k) xs). x < a" by fastforce
  then have "filter (\<lambda>x. x < a) (take (Suc k) xs) = take (Suc k) xs" by simp
  then have "length (filter (\<lambda>x. x < a) (take (Suc k) xs)) = Suc k" using assms(2) by simp
  moreover have "length (filter (\<lambda>x. x < a) xs) \<ge> length (filter (\<lambda>x. x < a) (take (Suc k) xs))"
    by (metis append_take_drop_id filter_append length_append le_add1)
  ultimately show False using assms(3) by simp
qed

lemma sorted_nth_le:
  assumes "sorted xs" "k < length xs" "length (filter (\<lambda>x. b < x) xs) < length xs - k"
  shows "xs ! k \<le> b"
proof (rule ccontr)
  assume "\<not> xs ! k \<le> b"
  moreover have "xs ! k \<le> x" if "x \<in> set (drop k xs)" for x
    using that assms(1) by (auto simp: in_set_conv_nth sorted_nth_mono)
  ultimately have "\<forall>x \<in> set (drop k xs). b < x" by fastforce
  then have "filter (\<lambda>x. b < x) (drop k xs) = drop k xs" by simp
  then have "length (filter (\<lambda>x. b < x) (drop k xs)) = length xs - k" by simp
  moreover have "length (filter (\<lambda>x. b < x) xs) \<ge> length (filter (\<lambda>x. b < x) (drop k xs))"
    by (metis append_take_drop_id filter_append length_append le_add2)
  ultimately show False using assms(3) by simp
qed

lemma length_filter_mono: "(\<And>x. P x \<Longrightarrow> Q x) \<Longrightarrow> length (filter P xs) \<le> length (filter Q xs)"
  by (induction xs) (auto intro: le_SucI)

text \<open>A majority of a list lies in an interval; then so do the elements in the middle of its sorted order.\<close>

definition majority :: "('a \<Rightarrow> bool) \<Rightarrow> 'a list \<Rightarrow> bool" where
  "majority P xs \<longleftrightarrow> length xs < 2 * length (filter P xs)"

lemma length_filter_sort: "length (filter P (sort xs)) = length (filter P xs)"
  by (metis mset_filter mset_sort size_mset)

lemma majority_middle:
  assumes "majority (\<lambda>x. a \<le> x \<and> x \<le> b) xs" "length xs = 2 * m \<or> length xs = 2 * m + 1"
    and "k = m \<or> Suc k = m \<and> length xs = 2 * m"
  shows "a \<le> sort xs ! k" "sort xs ! k \<le> b"
proof -
  let ?in = "length (filter (\<lambda>x. a \<le> x \<and> x \<le> b) xs)"
  have split: "length (filter (\<lambda>x. x < a) xs) + ?in \<le> length xs" "length (filter (\<lambda>x. b < x) xs) + ?in \<le> length xs"
    by (induction xs) auto
  have "length xs < 2 * ?in" using assms(1) by (simp add: majority_def)
  with split assms(2,3) have "length (filter (\<lambda>x. x < a) xs) \<le> k" "length (filter (\<lambda>x. b < x) xs) < length xs - k" "k < length xs"
    by linarith+
  then show "a \<le> sort xs ! k" "sort xs ! k \<le> b"
    using sorted_nth_ge [of "sort xs" k a] sorted_nth_le [of "sort xs" k b] by (simp_all add: length_filter_sort)
qed

section \<open>The detector on moderate readings\<close>

text \<open>
  On readings of magnitude at most \<open>2 ^ 1021\<close> no sum or quotient overflows, and the computation is one on
  rational numbers, with a rounding after every operation.
\<close>

definition rmedian :: "rat list \<Rightarrow> rat" where
  "rmedian xs =
     (let s = sort xs; m = length xs div 2
      in if length xs mod 2 = 1 then s ! m else rnd64 (rnd64 (s ! (m - 1) + s ! m) / 2))"

definition deviations :: "rat list \<Rightarrow> rat list" where
  "deviations xs = map (\<lambda>v. \<bar>rnd64 (v - rmedian xs)\<bar>) xs"

definition rmad :: "rat list \<Rightarrow> rat" where
  "rmad xs = rmedian (deviations xs)"

definition mad_to_sigma :: rat where
  "mad_to_sigma = rnd64 (6745 / 10000)"

definition sigma :: "rat list \<Rightarrow> rat" where
  "sigma xs = rnd64 (rmad xs / mad_to_sigma)"

definition zscore :: "rat list \<Rightarrow> rat \<Rightarrow> rat" where
  "zscore xs x = rnd64 (\<bar>rnd64 (x - rmedian xs)\<bar> / sigma xs)"

lemma length_deviations [simp]: "length (deviations xs) = length xs"
  by (simp add: deviations_def)

lemma mad_to_sigma_range: "1/2 \<le> mad_to_sigma" "mad_to_sigma \<le> 1"
proof -
  have "representable (1/2)" by (rule representableI [of _ 1 "-1"]) (simp_all add: power_int_minus)
  then show "1/2 \<le> mad_to_sigma" unfolding mad_to_sigma_def by (rule fl.rnd_ge) simp
  show "mad_to_sigma \<le> 1" unfolding mad_to_sigma_def by (rule fl.rnd_le) simp_all
qed

lemma middle_cases:
  assumes "(xs :: 'a :: linorder list) \<noteq> []"
  obtains (odd) m where "length xs = 2 * m + 1" "length xs mod 2 = 1" "length xs div 2 = m" "m < length (sort xs)"
    | (even) m where "length xs = 2 * m" "length xs mod 2 = 0" "length xs div 2 = m" "0 < m" "Suc (m - 1) = m"
        "m < length (sort xs)" "m - 1 < length (sort xs)"
proof (cases "length xs mod 2 = 1")
  case True
  then have "length xs = 2 * (length xs div 2) + 1" by presburger
  then show thesis using True by (intro odd [of "length xs div 2"]) simp_all
next
  case False
  then have "length xs = 2 * (length xs div 2)" by presburger
  moreover from this assms have "0 < length xs div 2" by (cases "length xs div 2") auto
  ultimately show thesis using False by (intro even [of "length xs div 2"]) simp_all
qed

text \<open>The median of a list with a majority in an interval is in the interval.\<close>

lemma rmedian_majority:
  assumes "majority (\<lambda>x. a \<le> x \<and> x \<le> b) xs" "representable a" "representable b"
  shows "a \<le> rmedian xs" "rmedian xs \<le> b"
proof -
  have "xs \<noteq> []" using assms(1) by (auto simp: majority_def)
  then have "a \<le> rmedian xs \<and> rmedian xs \<le> b"
  proof (cases rule: middle_cases)
    case (odd m)
    then show ?thesis using majority_middle [OF assms(1), of m m] by (simp add: rmedian_def Let_def)
  next
    case (even m)
    let ?s = "sort xs ! (m - 1) + sort xs ! m"
    have "a \<le> sort xs ! (m - 1)" "sort xs ! (m - 1) \<le> b" "a \<le> sort xs ! m" "sort xs ! m \<le> b"
      using majority_middle [OF assms(1), of m "m - 1"] majority_middle [OF assms(1), of m m] even by simp_all
    then have "2 * a \<le> rnd64 ?s" "rnd64 ?s \<le> 2 * b"
      using representable_double [OF assms(2)] representable_double [OF assms(3)] by (intro fl.rnd_ge fl.rnd_le; simp)+
    then have "a \<le> rnd64 (rnd64 ?s / 2)" "rnd64 (rnd64 ?s / 2) \<le> b"
      using assms(2,3) by (intro fl.rnd_ge fl.rnd_le; simp)+
    then show ?thesis using even by (simp add: rmedian_def Let_def)
  qed
  then show "a \<le> rmedian xs" "rmedian xs \<le> b" by blast+
qed

lemma majority_all: "xs \<noteq> [] \<Longrightarrow> (\<And>x. x \<in> set xs \<Longrightarrow> P x) \<Longrightarrow> majority P xs"
  by (simp add: majority_def)

lemma rmedian_bound:
  assumes "xs \<noteq> []" "\<And>x. x \<in> set xs \<Longrightarrow> \<bar>x\<bar> \<le> 2 ^ n" shows "\<bar>rmedian xs\<bar> \<le> 2 ^ n"
proof -
  have "majority (\<lambda>x. - (2 ^ n) \<le> x \<and> x \<le> 2 ^ n) xs" using assms by (intro majority_all) (simp_all add: abs_le_iff minus_le_iff)
  from rmedian_majority [OF this] show ?thesis by simp
qed

lemma rmedian_nonneg:
  assumes "xs \<noteq> []" "\<And>x. x \<in> set xs \<Longrightarrow> 0 \<le> x" shows "0 \<le> rmedian xs"
  using assms(1)
proof (cases rule: middle_cases)
  case (odd m)
  then have "sort xs ! m \<in> set xs" by (metis nth_mem set_sort)
  then show ?thesis using odd assms(2) by (simp add: rmedian_def Let_def)
next
  case (even m)
  then have "sort xs ! m \<in> set xs" "sort xs ! (m - 1) \<in> set xs" by (metis nth_mem set_sort)+
  then show ?thesis using even assms(2) by (simp add: rmedian_def Let_def)
qed

lemma representable_rmedian:
  assumes "xs \<noteq> []" "\<And>x. x \<in> set xs \<Longrightarrow> representable x" shows "representable (rmedian xs)"
  using assms(1)
proof (cases rule: middle_cases)
  case (odd m)
  then have "sort xs ! m \<in> set xs" by (metis nth_mem set_sort)
  then show ?thesis using odd assms(2) by (simp add: rmedian_def Let_def)
next
  case (even m)
  then show ?thesis by (simp add: rmedian_def Let_def)
qed

lemma median_Finite:
  assumes "xs \<noteq> []" "\<And>x. x \<in> set xs \<Longrightarrow> \<bar>x\<bar> \<le> 2 ^ n" "Suc n < 1024"
  shows "median (map Finite xs) = Finite (rmedian xs)"
  using assms(1)
proof (cases rule: middle_cases)
  case (odd m)
  then show ?thesis by (simp add: median_def rmedian_def Let_def sort_Finite)
next
  case (even m)
  let ?a = "sort xs ! (m - 1)" and ?b = "sort xs ! m"
  have "?a \<in> set xs" "?b \<in> set xs" using even by (metis nth_mem set_sort)+
  then have "\<bar>?a\<bar> \<le> 2 ^ n" "\<bar>?b\<bar> \<le> 2 ^ n" using assms(2) by blast+
  then have s: "\<bar>?a + ?b\<bar> \<le> 2 ^ Suc n" by simp
  then have "\<bar>rnd64 (?a + ?b)\<bar> \<le> 2 ^ Suc n" by (rule rnd64_bound)
  then have "\<bar>rnd64 (?a + ?b) / 2\<bar> \<le> 2 ^ n" by simp
  then show ?thesis using even s assms(3)
    by (simp add: median_def rmedian_def Let_def sort_Finite fin64_small [where n = "Suc n"] fin64_small [where n = n])
qed

text \<open>The readings the computation is exact on.\<close>

definition moderate :: "rat \<Rightarrow> bool" where
  "moderate x \<longleftrightarrow> representable x \<and> \<bar>x\<bar> \<le> 2 ^ 1021"

lemma moderateD: "moderate x \<Longrightarrow> \<bar>x\<bar> \<le> 2 ^ 1021" "moderate x \<Longrightarrow> representable x"
  by (auto simp only: moderate_def)

lemma moderate_of_int:
  assumes "\<bar>k\<bar> \<le> 2 ^ 53" shows "moderate (of_int k)"
proof -
  have "(of_int \<bar>k\<bar> :: rat) \<le> of_int (2 ^ 53)" using assms by (simp only: of_int_le_iff)
  also have "\<dots> \<le> 2 ^ 1021" using power_increasing [of 53 1021 "2 :: rat"] by simp
  finally show ?thesis unfolding moderate_def using representable_of_int [OF assms] by (simp only: of_int_abs simp_thms)
qed

lemma deviation_Finite:
  assumes "\<bar>v\<bar> \<le> 2 ^ 1021" "\<bar>m\<bar> \<le> 2 ^ 1021"
  shows "f64_abs (f64_sub (Finite v) (Finite m)) = Finite \<bar>rnd64 (v - m)\<bar>" "\<bar>rnd64 (v - m)\<bar> \<le> 2 ^ 1022"
proof -
  have b: "\<bar>v - m\<bar> \<le> 2 ^ 1022" using assms by simp
  show "f64_abs (f64_sub (Finite v) (Finite m)) = Finite \<bar>rnd64 (v - m)\<bar>" by (simp add: fin64_small [OF b])
  show "\<bar>rnd64 (v - m)\<bar> \<le> 2 ^ 1022" using b by (rule rnd64_bound)
qed

lemma deviations_nonneg: "d \<in> set (deviations bs) \<Longrightarrow> 0 \<le> d"
  by (auto simp: deviations_def)

lemma deviations_representable: "d \<in> set (deviations bs) \<Longrightarrow> representable d"
  by (auto simp: deviations_def simp flip: rnd64_abs)

lemma deviations_Nil [simp]: "deviations bs = [] \<longleftrightarrow> bs = []"
  by (simp add: deviations_def)

lemma rmad_props:
  assumes "bs \<noteq> []" shows "0 \<le> rmad bs" "representable (rmad bs)" "rmad bs \<le> sigma bs"
proof -
  show "0 \<le> rmad bs" unfolding rmad_def using assms deviations_nonneg by (intro rmedian_nonneg) simp_all
  moreover show "representable (rmad bs)"
    unfolding rmad_def using assms deviations_representable by (intro representable_rmedian) simp_all
  moreover have "rmad bs * mad_to_sigma \<le> rmad bs * 1"
    using mad_to_sigma_range \<open>0 \<le> rmad bs\<close> by (intro mult_left_mono) simp_all
  then have "rmad bs \<le> rmad bs / mad_to_sigma" using mad_to_sigma_range by (simp add: le_divide_eq)
  ultimately show "rmad bs \<le> sigma bs" unfolding sigma_def by (intro fl.rnd_ge) simp_all
qed

lemma rmad_bounds:
  assumes "bs \<noteq> []" "\<And>v. v \<in> set bs \<Longrightarrow> \<bar>v\<bar> \<le> 2 ^ 1021"
  shows "median (map (\<lambda>v. f64_abs (f64_sub v (Finite (rmedian bs)))) (map Finite bs)) = Finite (rmad bs)"
    and "f64_div (Finite (rmad bs)) MAD_TO_SIGMA = Finite (sigma bs)"
proof -
  have m: "\<bar>rmedian bs\<bar> \<le> 2 ^ 1021" using assms by (rule rmedian_bound)
  have d: "\<bar>d\<bar> \<le> 2 ^ 1022" if "d \<in> set (deviations bs)" for d
    using that assms(2) deviation_Finite(2) [OF _ m] by (auto simp: deviations_def)
  have "map (\<lambda>v. f64_abs (f64_sub v (Finite (rmedian bs)))) (map Finite bs) = map Finite (deviations bs)"
    using assms(2) deviation_Finite(1) [OF _ m] by (simp add: deviations_def del: f64_sub_simps)
  moreover have "median (map Finite (deviations bs)) = Finite (rmad bs)"
    unfolding rmad_def using assms(1) d by (intro median_Finite [where n = 1022]) simp_all
  ultimately show "median (map (\<lambda>v. f64_abs (f64_sub v (Finite (rmedian bs)))) (map Finite bs)) = Finite (rmad bs)" by simp
  have "\<bar>rmad bs\<bar> \<le> 2 ^ 1022" unfolding rmad_def using assms(1) d by (intro rmedian_bound) simp_all
  then have "rmad bs \<le> 2 ^ 1022" "0 \<le> rmad bs" using rmad_props(1) [OF assms(1)] by simp_all
  moreover have "(2 ^ 1022 :: rat) \<le> 2 ^ 1023 * mad_to_sigma"
    using mult_left_mono [OF mad_to_sigma_range(1), of "2 ^ 1023"] by simp
  ultimately have "\<bar>rmad bs / mad_to_sigma\<bar> \<le> 2 ^ 1023" using mad_to_sigma_range by (simp add: divide_le_eq)
  from fin64_small [OF this] show "f64_div (Finite (rmad bs)) MAD_TO_SIGMA = Finite (sigma bs)"
    using mad_to_sigma_range unfolding MAD_TO_SIGMA_def sigma_def mad_to_sigma_def [symmetric] by auto
qed

text \<open>The capped score does not see whether its quotient overflowed.\<close>

lemma capped_quotient:
  assumes "0 \<le> x" "0 < s" "\<bar>t\<bar> < 2 ^ 1024"
  shows "py_min (f64_div (Finite x) (Finite s)) SATURATED_SCORE = Finite (min (rnd64 (x / s)) 1000)"
    and "float64_le (Finite t) (f64_div (Finite x) (Finite s)) \<longleftrightarrow> t \<le> rnd64 (x / s)"
proof -
  let ?z = "rnd64 (x / s)"
  have z: "0 \<le> ?z" using assms by simp
  have "py_min (f64_div (Finite x) (Finite s)) SATURATED_SCORE = Finite (min ?z 1000) \<and>
      (float64_le (Finite t) (f64_div (Finite x) (Finite s)) \<longleftrightarrow> t \<le> ?z)"
  proof (cases "?z < 2 ^ 1024")
    case True
    then have "f64_div (Finite x) (Finite s) = Finite ?z" using assms(2) z by (simp add: fin64_def)
    then show ?thesis by (simp add: py_min_def SATURATED_SCORE_def)
  next
    case False
    then have big: "2 ^ 1024 \<le> ?z" by simp
    moreover have "(1000 :: rat) \<le> 2 ^ 1024" using power_increasing [of 10 1024 "2 :: rat"] by simp
    ultimately have "1000 \<le> ?z" "t \<le> ?z" "0 < ?z" using assms(3) by (linarith, linarith, linarith)
    moreover have "f64_div (Finite x) (Finite s) = Infinity True" using assms(2) big \<open>0 < ?z\<close> by (simp add: fin64_def)
    ultimately show ?thesis by (simp add: py_min_def SATURATED_SCORE_def)
  qed
  then show "py_min (f64_div (Finite x) (Finite s)) SATURATED_SCORE = Finite (min ?z 1000)"
    "float64_le (Finite t) (f64_div (Finite x) (Finite s)) \<longleftrightarrow> t \<le> ?z" by blast+
qed

text \<open>What the detector returns for a window of moderate readings.\<close>

definition reference_result :: "rat list \<Rightarrow> rat \<Rightarrow> rat \<Rightarrow> ScoreResult" where
  "reference_result bs x t =
     (let flat = rmad bs = 0; moved = rnd64 (x - rmedian bs) \<noteq> 0
      in \<lparr>sc_score = Finite (if flat then if moved then 1000 else 0 else min (zscore bs x) 1000),
          sc_anomaly = (if flat then moved else t \<le> zscore bs x),
          sc_method = (if flat then ''robust_zscore_flat'' else ''robust_zscore''),
          sc_window = length bs + 1, sc_median = Finite (rmedian bs), sc_dispersion = Finite (if flat then 0 else sigma bs)\<rparr>)"

lemma score_window_reference:
  assumes "7 \<le> length bs" "length bs < 4096" "\<And>v. v \<in> set (bs @ [x]) \<Longrightarrow> \<bar>v\<bar> \<le> 2 ^ 1021" "\<bar>t\<bar> < 2 ^ 1024"
  shows "score_window (map Finite (bs @ [x])) (Finite t) = Inr (reference_result bs x t)"
proof -
  have bs: "bs \<noteq> []" using assms(1) by auto
  have b: "\<And>v. v \<in> set bs \<Longrightarrow> \<bar>v\<bar> \<le> 2 ^ 1021" "\<bar>x\<bar> \<le> 2 ^ 1021" using assms(3) by simp_all
  have med: "median (map Finite bs) = Finite (rmedian bs)" using bs b(1) by (intro median_Finite [where n = 1021]) simp_all
  have m: "\<bar>rmedian bs\<bar> \<le> 2 ^ 1021" using bs b(1) by (rule rmedian_bound)
  have d: "f64_abs (f64_sub (Finite x) (Finite (rmedian bs))) = Finite \<bar>rnd64 (x - rmedian bs)\<bar>"
    using b(2) m by (rule deviation_Finite(1))
  have s: "0 < sigma bs" if "rmad bs \<noteq> 0" using rmad_props [OF bs] that by linarith
  show ?thesis
  proof (cases "rmad bs = 0")
    case True
    show ?thesis unfolding score_window_def Let_def using assms(1,2)
      by (simp add: list_ex_iff butlast_append med d rmad_bounds(1) [OF bs b(1)] True reference_result_def MAX_WINDOW_def MIN_WINDOW_def
          SATURATED_SCORE_def del: f64_sub_simps map_map)
  next
    case False
    note q = capped_quotient [OF abs_ge_zero s [OF False] assms(4), of "rnd64 (x - rmedian bs)"]
    show ?thesis unfolding score_window_def Let_def using assms(1,2) s [OF False]
      by (simp add: list_ex_iff butlast_append med d rmad_bounds [OF bs b(1)] False reference_result_def zscore_def MAX_WINDOW_def
          MIN_WINDOW_def q del: f64_sub_simps map_map f64_div.simps)
  qed
qed

section \<open>What the detector promises\<close>

lemma reference_range:
  assumes "bs \<noteq> []"
  shows "\<exists>s d. sc_score (reference_result bs x t) = Finite s \<and> 0 \<le> s \<and> s \<le> 1000 \<and>
    sc_dispersion (reference_result bs x t) = Finite d \<and> 0 \<le> d"
proof -
  have "0 \<le> sigma bs" using rmad_props [OF assms] by linarith
  moreover from this have "0 \<le> zscore bs x" by (simp add: zscore_def)
  ultimately show ?thesis by (auto simp: reference_result_def Let_def min_def)
qed

text \<open>
  Every window of one to 4096 moderate readings is scored: the result has a finite score between 0
  and 1000, a finite median, a finite dispersion that is not negative, and an anomaly is only ever
  reported for a window of at least eight readings.
\<close>

lemma moderate_window:
  assumes "xs \<noteq> []" "length xs \<le> 4096" "\<And>x. x \<in> set xs \<Longrightarrow> moderate x" "\<bar>t\<bar> < 2 ^ 1024"
  shows "\<exists>r s m d. score_window (map Finite xs) (Finite t) = Inr r \<and> sc_score r = Finite s \<and> 0 \<le> s \<and> s \<le> 1000 \<and>
    sc_median r = Finite m \<and> \<bar>m\<bar> \<le> 2 ^ 1021 \<and> sc_dispersion r = Finite d \<and> 0 \<le> d \<and> sc_window r = length xs \<and>
    (sc_anomaly r \<longrightarrow> 8 \<le> length xs)"
proof (cases "length xs < 8")
  case True
  have "median (map Finite xs) = Finite (rmedian xs)"
    using assms(1) moderateD(1) [OF assms(3)] by (rule median_Finite [where n = 1021]) simp_all
  moreover have "\<bar>rmedian xs\<bar> \<le> 2 ^ 1021" using assms(1) moderateD(1) [OF assms(3)] by (rule rmedian_bound)
  ultimately show ?thesis using assms(1,2) True
    by (simp add: score_window_def list_ex_iff MAX_WINDOW_def MIN_WINDOW_def)
next
  case False
  obtain bs x where xs: "xs = bs @ [x]" using assms(1) by (metis rev_exhaust)
  have bs: "bs \<noteq> []" using False xs by auto
  have "score_window (map Finite xs) (Finite t) = Inr (reference_result bs x t)"
    unfolding xs using assms(2) False xs moderateD(1) [OF assms(3)] assms(4) by (intro score_window_reference) simp_all
  moreover have "\<bar>rmedian bs\<bar> \<le> 2 ^ 1021" using bs moderateD(1) [OF assms(3)] xs by (intro rmedian_bound) simp_all
  moreover obtain sc d where "sc_score (reference_result bs x t) = Finite sc" "0 \<le> sc" "sc \<le> 1000"
      "sc_dispersion (reference_result bs x t) = Finite d" "0 \<le> d"
    using reference_range [OF bs] by metis
  moreover have "sc_median (reference_result bs x t) = Finite (rmedian bs)" "sc_window (reference_result bs x t) = length xs"
    by (simp_all add: reference_result_def Let_def xs)
  moreover have "8 \<le> length xs" using False by simp
  ultimately show ?thesis by blast
qed

text \<open>Nothing depends on the order of the readings before the last.\<close>

lemma median_mset:
  assumes "mset xs = mset ys" shows "median xs = median ys"
proof -
  have "sort xs = sort ys" using assms by (intro properties_for_sort) simp_all
  then show ?thesis by (simp only: median_def)
qed

lemma score_window_order:
  assumes "mset bs = mset bs'" shows "score_window (bs @ [x]) t = score_window (bs' @ [x]) t"
proof -
  have "length (bs @ [x]) = length (bs' @ [x])" using assms by (auto dest: mset_eq_length)
  moreover have "list_ex P (bs @ [x]) = list_ex P (bs' @ [x])" for P using assms by (auto simp: list_ex_iff dest: mset_eq_setD)
  moreover have "median (bs @ [x]) = median (bs' @ [x])" using assms by (intro median_mset) simp
  moreover have "median bs = median bs'" using assms by (rule median_mset)
  moreover have "median (map f bs) = median (map f bs')" for f using assms by (intro median_mset) (simp add: mset_map)
  ultimately show ?thesis unfolding score_window_def Let_def by (simp only: butlast_snoc last_snoc append_is_Nil_conv list.distinct simp_thms if_False)
qed

text \<open>A reading further from the median never scores lower.\<close>

lemma zscore_mono:
  assumes "bs \<noteq> []" "\<bar>x - rmedian bs\<bar> \<le> \<bar>y - rmedian bs\<bar>" shows "zscore bs x \<le> zscore bs y"
proof -
  have "\<bar>rnd64 (x - rmedian bs)\<bar> \<le> \<bar>rnd64 (y - rmedian bs)\<bar>" using rnd64_mono [OF assms(2)] by (simp add: rnd64_abs)
  moreover have "0 \<le> sigma bs" using rmad_props [OF assms(1)] by linarith
  ultimately show ?thesis unfolding zscore_def by (intro rnd64_mono divide_right_mono)
qed

subsection \<open>Outliers in the history\<close>

lemma rmad_majority:
  assumes "majority (\<lambda>v. a \<le> v \<and> v \<le> b) bs" "representable a" "representable b"
  shows "rmad bs \<le> rnd64 (b - a)"
proof -
  have m: "a \<le> rmedian bs" "rmedian bs \<le> b" using rmedian_majority [OF assms] .
  have "\<bar>rnd64 (v - rmedian bs)\<bar> \<le> rnd64 (b - a)" if "a \<le> v" "v \<le> b" for v
    using that m rnd64_mono [of "\<bar>v - rmedian bs\<bar>" "b - a"] by (simp add: rnd64_abs)
  then have "length (filter (\<lambda>v. a \<le> v \<and> v \<le> b) bs) \<le> length (filter (\<lambda>d. 0 \<le> d \<and> d \<le> rnd64 (b - a)) (deviations bs))"
    unfolding deviations_def filter_map length_map by (intro length_filter_mono) simp
  then have "majority (\<lambda>d. 0 \<le> d \<and> d \<le> rnd64 (b - a)) (deviations bs)"
    using assms(1) by (simp add: majority_def)
  from rmedian_majority(2) [OF this] show ?thesis by (simp add: rmad_def)
qed

lemma sigma_majority:
  assumes "majority (\<lambda>v. a \<le> v \<and> v \<le> b) bs" "representable a" "representable b"
  shows "sigma bs \<le> 2 * rnd64 (b - a)"
proof -
  have bs: "bs \<noteq> []" using assms(1) by (auto simp: majority_def)
  have "rmad bs \<le> 2 * rnd64 (b - a) * mad_to_sigma"
    using rmad_majority [OF assms] rmad_props(1) [OF bs] mult_left_mono [OF mad_to_sigma_range(1), of "2 * rnd64 (b - a)"] by simp
  then have "rmad bs / mad_to_sigma \<le> 2 * rnd64 (b - a)" using mad_to_sigma_range by (simp add: divide_le_eq)
  then show ?thesis unfolding sigma_def by (intro fl.rnd_le) (simp_all add: representable_double)
qed

lemma zscore_far:
  assumes "majority (\<lambda>v. a \<le> v \<and> v \<le> b) bs" "representable a" "representable b" "representable x"
    and "b < x \<and> 16 * (b - a) \<le> x - b \<or> x < a \<and> 16 * (b - a) \<le> a - x" "rmad bs \<noteq> 0"
  shows "4 \<le> zscore bs x"
proof -
  let ?d = "rnd64 (b - a)"
  have bs: "bs \<noteq> []" using assms(1) by (auto simp: majority_def)
  have m: "a \<le> rmedian bs" "rmedian bs \<le> b" using rmedian_majority [OF assms(1-3)] .
  have pos: "0 < rmad bs" "0 < sigma bs" using rmad_props [OF bs] assms(6) by linarith+
  then have d: "0 < ?d" using rmad_majority [OF assms(1-3)] by linarith
  then have "a < b" using m by (metis diff_self linorder_neqE order.asym order.trans order_le_less rnd64_0)
  then have "?d \<le> 2 * (b - a)" using assms(2,3) by (intro rnd64_le_double representable_gap)
  then have "2 * (2 * (2 * ?d)) \<le> \<bar>x - rmedian bs\<bar>" using assms(5) m by auto
  then have "2 * (2 * (2 * ?d)) \<le> rnd64 \<bar>x - rmedian bs\<bar>" by (intro fl.rnd_ge representable_double) simp_all
  then have "8 * ?d \<le> \<bar>rnd64 (x - rmedian bs)\<bar>" by (simp add: rnd64_abs)
  moreover have "4 * sigma bs \<le> 8 * ?d" using sigma_majority [OF assms(1-3)] by simp
  ultimately have "4 \<le> \<bar>rnd64 (x - rmedian bs)\<bar> / sigma bs" using pos by (simp add: le_divide_eq)
  then show ?thesis unfolding zscore_def using representable_of_int [of 4] by (intro fl.rnd_ge) simp_all
qed

text \<open>
  C10. Outliers in the history cannot hide an anomaly. Whenever more than half of the readings before
  the last lie between \<open>a\<close> and \<open>b\<close>, a last reading that is outside by sixteen times the width of that
  interval is reported, at every threshold up to 4, whatever the other readings are.
\<close>

theorem outliers_cannot_mask:
  assumes "7 \<le> length bs" "length bs < 4096" "\<And>v. v \<in> set (a # b # x # bs) \<Longrightarrow> moderate v"
    and "majority (\<lambda>v. a \<le> v \<and> v \<le> b) bs"
    and "b < x \<and> 16 * (b - a) \<le> x - b \<or> x < a \<and> 16 * (b - a) \<le> a - x" "0 \<le> t" "t \<le> 4"
  shows "\<exists>r s. score_window (map Finite (bs @ [x])) (Finite t) = Inr r \<and> sc_anomaly r \<and> sc_score r = Finite s \<and> 4 \<le> s"
proof -
  have rep: "representable a" "representable b" "representable x" using moderateD(2) [OF assms(3)] by simp_all
  have bs: "bs \<noteq> []" using assms(1) by auto
  have "\<bar>t\<bar> < 2 ^ 1024" using assms(6,7) power_increasing [of 3 1024 "2 :: rat"] by simp
  then have "score_window (map Finite (bs @ [x])) (Finite t) = Inr (reference_result bs x t)"
    using assms(1,2) moderateD(1) [OF assms(3)] by (intro score_window_reference) auto
  moreover have "4 \<le> zscore bs x" if "rmad bs \<noteq> 0" using zscore_far [OF assms(4) rep assms(5) that] .
  moreover have "rnd64 (x - rmedian bs) \<noteq> 0"
  proof (rule rnd64_diff_nonzero [OF rep(3)])
    show "representable (rmedian bs)" using bs moderateD(2) [OF assms(3)] by (intro representable_rmedian) simp_all
    show "x \<noteq> rmedian bs" using rmedian_majority [OF assms(4) rep(1,2)] assms(5) by auto
  qed
  ultimately show ?thesis using assms(7) by (auto simp: reference_result_def Let_def min_def intro: order_trans)
qed

text \<open>The masking example of the tests: a spike of 10000 in the history does not hide a reading of 500.\<close>

lemma outliers_cannot_mask_witness:
  "\<exists>r s. score_window (map Finite ([10, 11, 10, 11, 10, 10000, 11] @ [500])) (Finite (7/2)) = Inr r \<and> sc_anomaly r \<and>
     sc_score r = Finite s \<and> 4 \<le> s"
proof -
  have "moderate v" if "v \<in> set [10, 11, 500, 10, 11, 10, 11, 10, 10000, 11]" for v
    using that moderate_of_int [of 10] moderate_of_int [of 11] moderate_of_int [of 500] moderate_of_int [of 10000] by auto
  from outliers_cannot_mask [of "[10, 11, 10, 11, 10, 10000, 11]" 10 11 500 "7/2", OF _ _ this] show ?thesis
    by (simp add: majority_def)
qed

section \<open>No division by zero\<close>

text \<open>Every finite value of a computation is representable, whatever overflowed before.\<close>

definition held :: "float64 \<Rightarrow> bool" where
  "held v \<longleftrightarrow> (case v of Finite x \<Rightarrow> representable x | _ \<Rightarrow> True)"

lemma held_fin64 [simp]: "held (fin64 x)"
  by (simp add: fin64_def held_def Let_def)

lemma held_add [simp]: "held (f64_add x y)"
  by (cases x; cases y) (simp_all add: held_def [of "Infinity _"] held_def [of NaN])

lemma held_div [simp]: "held (f64_div x y)"
  by (cases x; cases y) (simp_all add: held_def [of "Infinity _"] held_def [of NaN] held_def [of "Finite 0"])

lemma held_deviation [simp]: "held (f64_abs (f64_sub x y))"
proof -
  have "held (f64_abs v)" if "held v" for v
    using that by (cases v) (auto simp: held_def abs_if)
  then show ?thesis by (simp add: f64_sub_def)
qed

lemma held_median:
  assumes "xs \<noteq> []" "\<And>x. x \<in> set xs \<Longrightarrow> held x" shows "held (median xs)"
  using assms(1)
proof (cases rule: middle_cases)
  case (odd m)
  then have "sort xs ! m \<in> set xs" by (metis nth_mem set_sort)
  then show ?thesis using odd assms(2) by (simp add: median_def Let_def)
next
  case (even m)
  then show ?thesis by (simp add: median_def Let_def)
qed

lemma sigma_nonzero:
  assumes "held mad" "\<not> float64_eq mad (Finite 0)" shows "\<not> float64_eq (f64_div mad MAD_TO_SIGMA) (Finite 0)"
proof (cases mad)
  case (Finite d)
  have d: "representable \<bar>d\<bar>" "0 < \<bar>d\<bar>" using assms Finite by (auto simp: held_def abs_if)
  have "\<bar>d\<bar> * mad_to_sigma \<le> \<bar>d\<bar> * 1" using mad_to_sigma_range by (intro mult_left_mono) simp_all
  then have "\<bar>d\<bar> \<le> \<bar>d / mad_to_sigma\<bar>" using mad_to_sigma_range by (simp add: le_divide_eq)
  then have "\<bar>d\<bar> \<le> \<bar>rnd64 (d / mad_to_sigma)\<bar>" using fl.rnd_ge [OF d(1), of "\<bar>d / mad_to_sigma\<bar>"] by (simp only: rnd64_abs)
  then have "rnd64 (d / mad_to_sigma) \<noteq> 0" using d(2) by linarith
  then show ?thesis
    using mad_to_sigma_range unfolding Finite MAD_TO_SIGMA_def mad_to_sigma_def [symmetric] by (auto simp: fin64_def Let_def)
next
  case (Infinity p)
  then show ?thesis by (simp add: MAD_TO_SIGMA_def)
next
  case NaN
  then show ?thesis by (simp add: MAD_TO_SIGMA_def)
qed

lemma score_window_total:
  assumes "list_all isfinite rs" "rs \<noteq> []" "length rs \<le> MAX_WINDOW"
  shows "\<exists>r. score_window rs t = Inr r \<and> sc_window r = length rs"
proof (cases "length rs < MIN_WINDOW")
  case True
  then show ?thesis using assms by (simp add: score_window_def list_ex_iff list_all_iff not_less)
next
  case False
  let ?b = "butlast rs"
  let ?mad = "median (map (\<lambda>v. f64_abs (f64_sub v (median ?b))) ?b)"
  have "?b \<noteq> []" using False assms(2) by (cases rs rule: rev_cases) (auto simp: MIN_WINDOW_def)
  then have "held ?mad" by (intro held_median) auto
  then have "\<not> float64_eq ?mad (Finite 0) \<Longrightarrow> \<not> float64_eq (f64_div ?mad MAD_TO_SIGMA) (Finite 0)" by (rule sigma_nonzero)
  then show ?thesis using assms False unfolding score_window_def Let_def by (simp add: list_ex_iff list_all_iff not_less)
qed

section \<open>Windows whose sums overflow\<close>

text \<open>
  An even number of readings of at least \<open>2 ^ 1023\<close> in the history: the sum in the median overflows, every
  deviation is infinite, and the score is the quotient of two infinities.
\<close>

definition oversized :: "rat \<Rightarrow> bool" where
  "oversized x \<longleftrightarrow> 2 ^ 1023 \<le> x"

lemma median_oversized:
  assumes "xs \<noteq> []" "even (length xs)" "\<And>x. x \<in> set xs \<Longrightarrow> oversized x"
  shows "median (map Finite xs) = Infinity True"
  using assms(1)
proof (cases rule: middle_cases)
  case (odd m) with assms(2) show ?thesis by simp
next
  case (even m)
  let ?s = "sort xs ! (m - 1) + sort xs ! m"
  have "sort xs ! (m - 1) \<in> set xs" "sort xs ! m \<in> set xs" using even by (metis nth_mem set_sort)+
  then have "2 ^ 1023 \<le> sort xs ! (m - 1)" "2 ^ 1023 \<le> sort xs ! m" using assms(3) oversized_def by blast+
  then have "2 ^ 1023 + 2 ^ 1023 \<le> ?s" by (rule add_mono)
  then have "2 ^ 1024 \<le> ?s" by simp
  then have "2 ^ 1024 \<le> rnd64 ?s" by (intro fl.rnd_ge) (rule representable_power2)
  then have "fin64 ?s = Infinity True" unfolding fin64_def Let_def by auto
  then show ?thesis using even by (simp add: median_def sort_Finite Let_def)
qed

lemma median_infinite:
  assumes "xs \<noteq> []" "\<And>x. x \<in> set xs \<Longrightarrow> x = Infinity True" shows "median xs = Infinity True"
proof -
  have "sort xs = replicate (length xs) (Infinity True)"
    by (metis assms(2) length_sort replicate_length_same set_sort)
  moreover have "length xs div 2 < length xs" using assms(1) by simp
  moreover from this have "length xs div 2 - 1 < length xs" by linarith
  ultimately show ?thesis by (simp add: median_def Let_def)
qed

text \<open>
  Not every window of finite readings gets a finite score. When the history is an even number of
  readings of \<open>2 ^ 1023\<close> and more, the median and the dispersion are infinite and the score is NaN, which
  the cap does not catch; no anomaly is reported, whatever the last reading is.
\<close>

lemma overflow_score_nan:
  assumes "8 \<le> length bs" "length bs < 4096" "even (length bs)" "\<And>v. v \<in> set bs \<Longrightarrow> oversized v"
  shows "\<exists>r. score_window (map Finite (bs @ [x])) t = Inr r \<and> sc_score r = NaN \<and> \<not> sc_anomaly r \<and>
    sc_median r = Infinity True \<and> sc_dispersion r = Infinity True"
proof -
  have bs: "bs \<noteq> []" using assms(1) by auto
  have m: "median (map Finite bs) = Infinity True" using bs assms(3,4) by (rule median_oversized)
  have d: "median (map (\<lambda>v. f64_abs (f64_sub v (Infinity True))) (map Finite bs)) = Infinity True"
    using bs by (intro median_infinite) auto
  have "f64_div (Infinity True) MAD_TO_SIGMA = Infinity True"
    using mad_to_sigma_range by (simp add: MAD_TO_SIGMA_def)
  then show ?thesis unfolding score_window_def Let_def using assms(1,2)
    by (simp add: list_ex_iff butlast_append m d MAX_WINDOW_def MIN_WINDOW_def py_min_def SATURATED_SCORE_def del: map_map)
qed

end
