(* ===== verification/Scorer.thy ===== *)
theory Scorer
  imports Scoring Telemetry
begin

text \<open>
  The scorer service around the detector: \<open>services/scorer/app/config.py\<close>, \<open>metrics.py\<close> and \<open>main.py\<close>. The
  framework (FastAPI, Starlette, pydantic) is a library: its JSON decoder, its answers to requests that
  match no route or fail validation, and whether its encoder accepts non-finite numbers are fields of
  the application. An exception that leaves a handler is \<open>None\<close>.
\<close>

section \<open>Settings\<close>

record Settings =
  se_service_name :: string
  se_version :: string
  se_environment :: string
  se_log_level :: string
  se_port :: int
  se_workers :: int
  se_anomaly_threshold :: float64
  se_drain_delay_seconds :: float64
  se_expose_openapi :: bool

text \<open>
  What the module uses of Python: \<open>int\<close> and \<open>str.strip().lower()\<close> are defined for ASCII text and given by
  an argument for any other text; \<open>float\<close> and \<open>repr\<close> are arguments.
\<close>

record Python =
  getenv :: "string \<rightharpoonup> string"
  py_float :: "string \<Rightarrow> float64 option"
  py_repr :: "string \<Rightarrow> string"
  uni_int :: "string \<Rightarrow> int option"
  uni_strip_lower :: "string \<Rightarrow> string"

definition py_space :: "char \<Rightarrow> bool" where
  "py_space c \<longleftrightarrow> (let n = (of_char c :: nat) in 9 \<le> n \<and> n \<le> 13 \<or> 28 \<le> n \<and> n \<le> 32)"

definition py_strip :: "string \<Rightarrow> string" where
  "py_strip s = rev (dropWhile py_space (rev (dropWhile py_space s)))"

text \<open>Digits in which single underscores may separate two digits.\<close>

fun underscored :: "string \<Rightarrow> string option" where
  "underscored [] = None"
| "underscored [c] = (if digit_value c = None then None else Some [c])"
| "underscored (c # d # cs) =
     (if digit_value c = None then None
      else map_option (\<lambda>ds. c # ds) (underscored (if d = CHR ''_'' then cs else d # cs)))"

definition py_int :: "Python \<Rightarrow> string \<Rightarrow> int option" where
  "py_int P s =
     (if \<not> isASCII s then uni_int P s
      else let s = py_strip s;
               (neg, ds) = (case s of [] \<Rightarrow> (False, [])
                  | c # cs \<Rightarrow> if c = CHR ''-'' then (True, cs) else if c = CHR ''+'' then (False, cs) else (False, s))
           in case underscored ds of
                None \<Rightarrow> None
              | Some ds \<Rightarrow> map_option (\<lambda>n. if neg then - int n else int n) (parse_unsigned ds))"

definition strip_lower :: "Python \<Rightarrow> string \<Rightarrow> string" where
  "strip_lower P s = (if isASCII s then map ascii_lower (py_strip s) else uni_strip_lower P s)"

definition getenv_or :: "Python \<Rightarrow> string \<Rightarrow> string \<Rightarrow> string" where
  "getenv_or P key d = (case getenv P key of Some v \<Rightarrow> v | None \<Rightarrow> d)"

text \<open>The loaders; \<open>Inl\<close> is the message of a \<open>ConfigError\<close>.\<close>

definition env_int :: "Python \<Rightarrow> string \<Rightarrow> int \<Rightarrow> int \<Rightarrow> int option \<Rightarrow> string + int" where
  "env_int P key d minimum maximum =
     (let raw = getenv_or P key []
      in if raw = [] then Inr d
         else case py_int P raw of
           None \<Rightarrow> Inl (''config '' @ key @ '': '' @ py_repr P raw @ '' is not an integer'')
         | Some v \<Rightarrow>
             if v < minimum then Inl (''config '' @ key @ '': must be at least '' @ Itoa minimum)
             else if (case maximum of Some m \<Rightarrow> m < v | None \<Rightarrow> False)
             then Inl (''config '' @ key @ '': must be at most '' @ Itoa (the maximum))
             else Inr v)"

definition env_float :: "Python \<Rightarrow> string \<Rightarrow> float64 \<Rightarrow> float64 \<Rightarrow> string \<Rightarrow> string + float64" where
  "env_float P key d minimum shown =
     (let raw = getenv_or P key []
      in if raw = [] then Inr d
         else case py_float P raw of
           None \<Rightarrow> Inl (''config '' @ key @ '': '' @ py_repr P raw @ '' is not a number'')
         | Some v \<Rightarrow>
             if float64_less v minimum then Inl (''config '' @ key @ '': must be at least '' @ shown) else Inr v)"

definition env_bool :: "Python \<Rightarrow> string \<Rightarrow> bool \<Rightarrow> string + bool" where
  "env_bool P key d =
     (let raw = strip_lower P (getenv_or P key [])
      in if raw = [] then Inr d
         else if raw \<in> {''1'', ''true'', ''yes'', ''on''} then Inr True
         else if raw \<in> {''0'', ''false'', ''no'', ''off''} then Inr False
         else Inl (''config '' @ key @ '': '' @ py_repr P raw @ '' is not a boolean''))"

text \<open>The first loader that raises ends the module's import.\<close>

definition load_settings :: "Python \<Rightarrow> string + Settings" where
  "load_settings P =
     (case env_int P ''PORT'' 8080 1 (Some 65535) of Inl e \<Rightarrow> Inl e | Inr port \<Rightarrow>
      case env_int P ''WORKERS'' 1 1 (Some 32) of Inl e \<Rightarrow> Inl e | Inr workers \<Rightarrow>
      case env_float P ''ANOMALY_THRESHOLD'' (Finite (7/2)) (Finite (rnd64 (1/10))) ''0.1'' of Inl e \<Rightarrow> Inl e | Inr threshold \<Rightarrow>
      case env_float P ''DRAIN_DELAY_SECONDS'' (Finite 5) (Finite 0) ''0.0'' of Inl e \<Rightarrow> Inl e | Inr delay \<Rightarrow>
      case env_bool P ''EXPOSE_OPENAPI'' False of Inl e \<Rightarrow> Inl e | Inr openapi \<Rightarrow>
      Inr \<lparr>se_service_name = getenv_or P ''SERVICE_NAME'' ''scorer'', se_version = getenv_or P ''SERVICE_VERSION'' ''dev'',
           se_environment = getenv_or P ''ENVIRONMENT'' ''local'', se_log_level = getenv_or P ''LOG_LEVEL'' ''info'',
           se_port = port, se_workers = workers, se_anomaly_threshold = threshold, se_drain_delay_seconds = delay,
           se_expose_openapi = openapi\<rparr>)"

text \<open>
  Settings that load are in range, up to NaN, which no comparison rejects: a threshold that is NaN is
  accepted, and then no reading of a varying window is ever an anomaly.
\<close>

lemma rnd64_tenth: "0 < rnd64 (1/10)"
proof -
  have "representable (1/16)" by (rule representableI [of _ 1 "-4"]) (simp_all add: power_int_minus)
  then have "1/16 \<le> rnd64 (1/10)" by (rule fl.rnd_ge) simp
  then show ?thesis by linarith
qed

lemma load_settings_range:
  assumes "load_settings P = Inr st"
  shows "1 \<le> se_port st" "se_port st \<le> 65535" "1 \<le> se_workers st" "se_workers st \<le> 32"
    "float64_less (Finite 0) (se_anomaly_threshold st) \<or> se_anomaly_threshold st = NaN"
    "float64_le (Finite 0) (se_drain_delay_seconds st) \<or> se_drain_delay_seconds st = NaN"
proof -
  have i: "env_int P k d 1 (Some m) = Inr v \<Longrightarrow> 1 \<le> d \<Longrightarrow> d \<le> m \<Longrightarrow> 1 \<le> v \<and> v \<le> m" for k d m v
    by (auto simp: env_int_def Let_def split: if_splits option.splits)
  have f: "env_float P k d lo sh = Inr v \<Longrightarrow> \<not> float64_less v lo \<or> v = d" for k d lo sh v
    by (auto simp: env_float_def Let_def split: if_splits option.splits)
  note l = assms [unfolded load_settings_def]
  show "1 \<le> se_port st" "se_port st \<le> 65535" using l i [of "''PORT''" 8080 65535] by (auto split: sum.splits)
  show "1 \<le> se_workers st" "se_workers st \<le> 32" using l i [of "''WORKERS''" 1 32] by (auto split: sum.splits)
  have "\<not> float64_less (se_anomaly_threshold st) (Finite (rnd64 (1/10))) \<or> se_anomaly_threshold st = Finite (7/2)"
    using l f [of "''ANOMALY_THRESHOLD''"] by (auto split: sum.splits)
  then show "float64_less (Finite 0) (se_anomaly_threshold st) \<or> se_anomaly_threshold st = NaN"
    using rnd64_tenth by (cases "se_anomaly_threshold st") auto
  have "\<not> float64_less (se_drain_delay_seconds st) (Finite 0) \<or> se_drain_delay_seconds st = Finite 5"
    using l f [of "''DRAIN_DELAY_SECONDS''"] by (auto split: sum.splits)
  then show "float64_le (Finite 0) (se_drain_delay_seconds st) \<or> se_drain_delay_seconds st = NaN"
    by (cases "se_drain_delay_seconds st") auto
qed

section \<open>Metrics\<close>

definition LATENCY_BUCKETS :: "rat list" where
  "LATENCY_BUCKETS = [5/1000, 1/100, 25/1000, 5/100, 1/10, 25/100, 5/10, 1, 25/10, 5, 10]"

definition build_metrics :: "instrument list" where
  "build_metrics =
     [\<lparr>inst_name = ''http_requests_total'', inst_kind = Counter, inst_labels = [''method'', ''route'', ''status'', ''status_class'']\<rparr>,
      \<lparr>inst_name = ''http_request_duration_seconds'', inst_kind = Histogram LATENCY_BUCKETS, inst_labels = [''method'', ''route'']\<rparr>,
      \<lparr>inst_name = ''http_requests_in_flight'', inst_kind = Gauge, inst_labels = []\<rparr>,
      \<lparr>inst_name = ''scorer_windows_scored_total'', inst_kind = Counter, inst_labels = [''outcome'']\<rparr>,
      \<lparr>inst_name = ''scorer_window_size'', inst_kind = Histogram [8, 32, 128, 512, 1024, 2048, 4096], inst_labels = []\<rparr>,
      \<lparr>inst_name = ''service_build_info'', inst_kind = Gauge, inst_labels = [''service'', ''version'', ''environment'']\<rparr>]"

datatype scorer_event =
    InFlight int
  | Requests string string string string
  | Latency string string rat
  | Scored string
  | WindowSize nat

fun scorer_update_of :: "scorer_event \<Rightarrow> string \<times> string list" where
  "scorer_update_of (InFlight d) = (''http_requests_in_flight'', [])"
| "scorer_update_of (Requests m r s c) = (''http_requests_total'', [m, r, s, c])"
| "scorer_update_of (Latency m r v) = (''http_request_duration_seconds'', [m, r])"
| "scorer_update_of (Scored o') = (''scorer_windows_scored_total'', [o'])"
| "scorer_update_of (WindowSize n) = (''scorer_window_size'', [])"

text \<open>
  The scorer's instruments fit those of the Go services, as the recording rules over all three assume:
  an instrument that both register is the same one, buckets and labels included. And every update that
  the scorer makes passes as many label values as its instrument has.
\<close>

theorem scorer_metrics_fit:
  "\<forall>i \<in> set build_metrics. find_instrument (inst_name i) \<in> {None, Some i}"
  "distinct (map inst_name build_metrics)"
  "case scorer_update_of e of (n, vs) \<Rightarrow>
     (case find (\<lambda>i. inst_name i = n) build_metrics of None \<Rightarrow> False | Some i \<Rightarrow> length vs = length (inst_labels i))"
  by (simp_all add: build_metrics_def find_instrument_def NewMetrics_def LATENCY_BUCKETS_def latencyBuckets_def)
    (cases e; simp)

section \<open>The application\<close>

record ProbeState =
  ps_started :: bool
  ps_draining :: bool

definition new_ProbeState :: ProbeState where
  "new_ProbeState = \<lparr>ps_started = False, ps_draining = False\<rparr>"

text \<open>What the life cycle does to the probes: the start of \<open>lifespan\<close>, the signal handler, and its end.\<close>

datatype lifecycle = Startup | Sigterm | Shutdown

fun lifespan :: "ProbeState \<Rightarrow> lifecycle \<Rightarrow> ProbeState" where
  "lifespan ps Startup = ps\<lparr>ps_started := True\<rparr>"
| "lifespan ps Sigterm = ps\<lparr>ps_draining := True\<rparr>"
| "lifespan ps Shutdown = ps\<lparr>ps_draining := True\<rparr>"

record PyRequest =
  pr_method :: string
  pr_path :: string
  pr_headers :: Header
  pr_body :: string

text \<open>The bodies of the answers; \<open>FrameworkBody\<close> is one that the framework writes.\<close>

datatype scorer_body =
    ScoreDict ScoreResult string
  | ProblemDict Problem
  | StatusDict "(string \<times> string) list"
  | Exposition
  | FrameworkBody string

record PyResponse =
  py_status :: int
  py_body :: scorer_body
  py_request_id :: "string option"

definition json_response :: "int \<Rightarrow> scorer_body \<Rightarrow> PyResponse" where
  "json_response status body = \<lparr>py_status = status, py_body = body, py_request_id = None\<rparr>"

record 'w ScorerApp =
  sa_settings :: Settings
  sa_decode :: "string \<Rightarrow> (string \<times> float64 list) option"
  sa_allow_nan :: bool
  sa_invalid :: PyResponse
  sa_unmatched :: "PyRequest \<Rightarrow> string \<times> PyResponse"
  sa_emit :: "scorer_event \<Rightarrow> 'w \<Rightarrow> 'w"
  sa_perf_counter :: "'w \<Rightarrow> rat \<times> 'w"

text \<open>
  The constraints of the model \<open>ScoreRequest\<close> on a decoded body. A string's length is its number of code
  points, the bytes of UTF-8 that do not continue a sequence.
\<close>

definition py_len :: "string \<Rightarrow> nat" where
  "py_len s = length (filter (\<lambda>c. \<not> (128 \<le> (of_char c :: nat) \<and> (of_char c :: nat) < 192)) s)"

definition ScoreRequest_ok :: "string \<Rightarrow> float64 list \<Rightarrow> bool" where
  "ScoreRequest_ok device_id readings \<longleftrightarrow>
     1 \<le> py_len device_id \<and> py_len device_id \<le> 64 \<and> 1 \<le> length readings \<and> length readings \<le> MAX_WINDOW \<and>
     list_all isfinite readings"

definition py_problem :: "PyRequest \<Rightarrow> int \<Rightarrow> string \<Rightarrow> string \<Rightarrow> PyResponse" where
  "py_problem rq status code detail = json_response status (ProblemDict
     \<lparr>Type = ''about:blank'', Title = (if status = 400 then ''Bad Request'' else ''Error''), Status = status, Detail = detail,
      Code = code, RequestID = Header_Get (pr_headers rq) ''x-request-id''\<rparr>)"

text \<open>The encoder of the framework raises on a non-finite number unless told otherwise.\<close>

definition encodable :: "ScoreResult \<Rightarrow> bool" where
  "encodable r \<longleftrightarrow> isfinite (sc_score r) \<and> isfinite (sc_median r) \<and> isfinite (sc_dispersion r)"

definition score_endpoint :: "'w ScorerApp \<Rightarrow> PyRequest \<Rightarrow> 'w \<Rightarrow> PyResponse option \<times> 'w" where
  "score_endpoint app rq w =
     (case sa_decode app (pr_body rq) of
        None \<Rightarrow> (Some (sa_invalid app), w)
      | Some (device_id, readings) \<Rightarrow>
          if \<not> ScoreRequest_ok device_id readings then (Some (sa_invalid app), w)
          else
            let w = sa_emit app (WindowSize (length readings)) w
            in case score_window readings (se_anomaly_threshold (sa_settings app)) of
                 Inl (ScoringError msg) \<Rightarrow>
                   (Some (py_problem rq 400 ''invalid_request'' msg), sa_emit app (Scored ''invalid'') w)
               | Inl ZeroDivisionError \<Rightarrow> (None, w)
               | Inr result \<Rightarrow>
                   (if sa_allow_nan app \<or> encodable result then Some (json_response 200 (ScoreDict result device_id)) else None,
                    sa_emit app (Scored (if sc_anomaly result then ''anomaly'' else ''normal'')) w))"

definition healthz :: "'w ScorerApp \<Rightarrow> PyResponse" where
  "healthz app = json_response 200 (StatusDict
     [(''status'', ''ok''), (''service'', se_service_name (sa_settings app)), (''version'', se_version (sa_settings app))])"

definition startupz :: "ProbeState \<Rightarrow> PyResponse" where
  "startupz ps = (if \<not> ps_started ps then json_response 503 (StatusDict [(''status'', ''starting'')])
     else json_response 200 (StatusDict [(''status'', ''ok'')]))"

definition readyz :: "'w ScorerApp \<Rightarrow> ProbeState \<Rightarrow> PyResponse" where
  "readyz app ps =
     (if \<not> ps_started ps then json_response 503 (StatusDict [(''status'', ''starting'')])
      else if ps_draining ps then json_response 503 (StatusDict [(''status'', ''draining'')])
      else json_response 200 (StatusDict
        [(''status'', ''ok''), (''service'', se_service_name (sa_settings app)), (''version'', se_version (sa_settings app))]))"

text \<open>The two routers: the label of the matched route and the outcome of its endpoint.\<close>

definition scorer_routes :: "'w ScorerApp \<Rightarrow> ProbeState \<Rightarrow> PyRequest \<Rightarrow> 'w \<Rightarrow> string \<times> PyResponse option \<times> 'w" where
  "scorer_routes app ps rq w =
     (if pr_method rq = ''POST'' \<and> pr_path rq = ''/v1/score'' then (''/v1/score'', score_endpoint app rq w)
      else if pr_method rq = ''GET'' \<and> pr_path rq = ''/healthz'' then (''/healthz'', Some (healthz app), w)
      else if pr_method rq = ''GET'' \<and> pr_path rq = ''/startupz'' then (''/startupz'', Some (startupz ps), w)
      else if pr_method rq = ''GET'' \<and> pr_path rq = ''/readyz'' then (''/readyz'', Some (readyz app ps), w)
      else if pr_method rq = ''GET'' \<and> pr_path rq = ''/metrics'' then (''/metrics'', Some (json_response 200 Exposition), w)
      else let (label, resp) = sa_unmatched app rq in (label, Some resp, w))"

definition observability_middleware :: "'w ScorerApp \<Rightarrow> ProbeState \<Rightarrow> PyRequest \<Rightarrow> 'w \<Rightarrow> PyResponse option \<times> 'w" where
  "observability_middleware app ps rq w =
     (let request_id = Header_Get (pr_headers rq) ''x-request-id'';
          (start, w) = sa_perf_counter app w;
          w = sa_emit app (InFlight 1) w;
          (route_label, response, w) = scorer_routes app ps rq w;
          w = sa_emit app (InFlight (-1)) w
      in case response of
           None \<Rightarrow> (None, w)
         | Some resp \<Rightarrow>
             let status = py_status resp;
                 w = sa_emit app (Requests (pr_method rq) route_label (Itoa status) (Itoa (status div 100) @ ''xx'')) w;
                 (t, w) = sa_perf_counter app w;
                 w = sa_emit app (Latency (pr_method rq) route_label (rnd64 (t - start))) w
             in (Some (if request_id \<noteq> [] then resp\<lparr>py_request_id := Some request_id\<rparr> else resp), w))"

section \<open>What the service answers\<close>

text \<open>
  The answer to a scoring request, on every path. The detector's own checks are never reached, since the
  model of the request has made them, and it never divides by zero.
\<close>

lemma score_endpoint_cases:
  "fst (score_endpoint app rq w) =
     (case sa_decode app (pr_body rq) of
        None \<Rightarrow> Some (sa_invalid app)
      | Some (dev, rs) \<Rightarrow>
          if \<not> ScoreRequest_ok dev rs then Some (sa_invalid app)
          else case score_window rs (se_anomaly_threshold (sa_settings app)) of
             Inr r \<Rightarrow> if sa_allow_nan app \<or> encodable r then Some (json_response 200 (ScoreDict r dev)) else None
           | Inl e \<Rightarrow> None)"
proof -
  have "score_window rs t \<noteq> Inl e" if "ScoreRequest_ok dev rs" for dev rs t e
    using that score_window_total [of rs t] by (cases rs) (auto simp: ScoreRequest_ok_def)
  then show ?thesis
    by (auto simp: score_endpoint_def Let_def split: option.split sum.split py_error.split prod.split)
qed

text \<open>The middleware passes the answer of the endpoint on, with the correlation id.\<close>

lemma score_request_status:
  assumes "pr_method rq = ''POST''" "pr_path rq = ''/v1/score''"
  shows "map_option py_status (fst (observability_middleware app ps rq w)) = map_option py_status (fst (score_endpoint app rq
      (sa_emit app (InFlight 1) (snd (sa_perf_counter app w)))))"
    and "map_option py_body (fst (observability_middleware app ps rq w)) = map_option py_body (fst (score_endpoint app rq
      (sa_emit app (InFlight 1) (snd (sa_perf_counter app w)))))"
  using assms by (auto simp: observability_middleware_def scorer_routes_def Let_def split_beta split: option.split)

section \<open>Probes\<close>

interpretation scorer_life: progressing lifespan "\<lambda>p q. (ps_started p \<longrightarrow> ps_started q) \<and> (ps_draining p \<longrightarrow> ps_draining q)"
proof
  fix p and e :: lifecycle
  show "(ps_started p \<longrightarrow> ps_started (lifespan p e)) \<and> (ps_draining p \<longrightarrow> ps_draining (lifespan p e))" by (cases e) simp_all
qed auto

text \<open>
  The probes over the life of a process: alive throughout, started once it has started, and ready
  exactly between its start and the first signal; from then on it is never ready again.
\<close>

lemma scorer_probes:
  "py_status (healthz app) = 200"
  "py_status (startupz (foldl lifespan new_ProbeState (es @ Startup # es'))) = 200"
  "e \<in> {Sigterm, Shutdown} \<Longrightarrow> py_status (readyz app (foldl lifespan ps (es @ e # es'))) = 503"
  "py_status (readyz app ps) = 200 \<longleftrightarrow> ps_started ps \<and> \<not> ps_draining ps"
proof -
  show "py_status (healthz app) = 200" by (simp add: healthz_def json_response_def)
  have "ps_started (foldl lifespan (foldl lifespan new_ProbeState (es @ [Startup])) es')"
    using scorer_life.rel_run [of "foldl lifespan new_ProbeState (es @ [Startup])" es'] by simp
  then show "py_status (startupz (foldl lifespan new_ProbeState (es @ Startup # es'))) = 200"
    by (simp add: startupz_def json_response_def)
  show "py_status (readyz app ps) = 200 \<longleftrightarrow> ps_started ps \<and> \<not> ps_draining ps"
    by (simp add: readyz_def json_response_def)
  show "py_status (readyz app (foldl lifespan ps (es @ e # es'))) = 503" if "e \<in> {Sigterm, Shutdown}"
  proof -
    have "ps_draining (foldl lifespan (foldl lifespan ps (es @ [e])) es')"
      using scorer_life.rel_run [of "foldl lifespan ps (es @ [e])" es'] that by auto
    then show ?thesis by (simp add: readyz_def json_response_def)
  qed
qed

end
