(* ===== verification/Outage.thy ===== *)
theory Outage
  imports Upstream
begin

text \<open>
  An upstream that is down: the client's calls, breaker and retry loop together, against a network on
  which every attempt fails. The breaker opens after as many calls as its minimum, and from then on every
  turn of a call's retry loop is refused. The clock is only assumed to stay within the breaker's window and its timeout.
\<close>

section \<open>A breaker that only sees failures\<close>

definition clock_within :: "('w \<Rightarrow> time \<times> 'w) \<Rightarrow> time \<Rightarrow> duration \<Rightarrow> bool" where
  "clock_within now t0 d \<longleftrightarrow> (\<forall>w. t0 \<le> fst (now w) \<and> fst (now w) < t0 + d)"

definition short_for :: "'w BreakerConfig \<Rightarrow> duration \<Rightarrow> bool" where
  "short_for c d \<longleftrightarrow> d \<le> Window c \<and> d \<le> OpenTimeout c"

definition failing :: "'w BreakerConfig \<Rightarrow> time \<Rightarrow> int \<Rightarrow> 'w Breaker \<Rightarrow> bool" where
  "failing c t0 j b \<longleftrightarrow> cfg b = c \<and> t0 \<le> windowStart b \<and>
     (state b = StateOpen \<and> t0 \<le> openedAt b \<or>
      state b = StateClosed \<and> successes b = 0 \<and> j \<le> failures b \<and> failures b < MinimumRequests c)"

lemma failing_mono: "failing c t0 j b \<Longrightarrow> i \<le> j \<Longrightarrow> failing c t0 i b"
  by (auto simp: failing_def)

lemma failing_minimum: "failing c t0 j b \<Longrightarrow> MinimumRequests c \<le> j \<Longrightarrow> state b = StateOpen"
  by (auto simp: failing_def)

lemma time_Sub_reaches: "0 < d \<Longrightarrow> d \<le> time_Sub t u \<Longrightarrow> d \<le> t - u"
  by (auto simp: time_Sub_def minDuration_def split: if_splits)

lemma not_yet:
  assumes "clock_within (the (Now c)) t0 d" "d \<le> e" "0 < e" "t0 \<le> u"
  shows "\<not> e \<le> time_Sub (fst (the (Now c) w)) u"
proof
  assume "e \<le> time_Sub (fst (the (Now c) w)) u"
  then have "e \<le> fst (the (Now c) w) - u" using assms(3) by (intro time_Sub_reaches)
  moreover have "fst (the (Now c) w) < t0 + d" using assms(1) by (simp add: clock_within_def)
  ultimately show False using assms(2,4) by linarith
qed

lemma roll_kept:
  assumes "clock_within (the (Now (cfg b))) t0 d" "short_for (cfg b) d" "config_ok (cfg b)" "t0 \<le> windowStart b"
  shows "fst (rollWindowLocked (b, w)) = b"
  using not_yet [OF assms(1) _ _ assms(4), of "Window (cfg b)"] assms(2,3)
  by (simp add: rollWindowLocked_def short_for_def config_ok_def split_beta Let_def)

lemma open_kept:
  assumes "clock_within (the (Now (cfg b))) t0 d" "short_for (cfg b) d" "config_ok (cfg b)" "t0 \<le> openedAt b"
  shows "fst (maybeHalfOpenLocked (b, w)) = b"
  using not_yet [OF assms(1) _ _ assms(4), of "OpenTimeout (cfg b)"] assms(2,3)
  by (simp add: maybeHalfOpenLocked_def short_for_def config_ok_def split_beta Let_def)

lemma openLocked_failing:
  assumes "clock_within (the (Now c)) t0 d" "cfg b = c"
  shows "failing c t0 j (fst (openLocked (b, w)))"
  using assms by (simp add: openLocked_def failing_def clock_within_def breaker_fst Let_def split_beta)

lemma only_failures_trip:
  assumes "config_ok c" "MinimumRequests c \<le> n" shows "trips c n n"
proof -
  have "1 \<le> n" using assms by (simp add: config_ok_def)
  then have "float64_of_int n \<noteq> 0" using float64_of_int_pos [of n] by simp
  then show ?thesis using assms by (simp add: trips_def config_ok_def)
qed

lemma failing_record:
  assumes "failing c t0 j b" "clock_within (the (Now c)) t0 d" "short_for c d" "config_ok c"
  shows "failing c t0 (j + 1) (fst (Breaker_record False (b, w)))"
proof (cases "state b")
  case StateClosed
  obtain b' w' where r: "rollWindowLocked (b, w) = (b', w')" by (rule prod.exhaust)
  have b: "cfg b = c" "t0 \<le> windowStart b" "successes b = 0" "j \<le> failures b" "failures b < MinimumRequests c"
    using assms(1) StateClosed by (auto simp: failing_def)
  have "b' = b" using roll_kept [of b t0 d w] assms(2-4) b r by simp
  let ?b = "b\<lparr>failures := failures b + 1\<rparr>"
  show ?thesis
  proof (cases "trips c (failures b + 1) (failures b + 1)")
    case True
    have "failing c t0 (j + 1) (fst (openLocked (?b, w')))" using assms(2) b(1) by (intro openLocked_failing) simp_all
    then show ?thesis using True b \<open>b' = b\<close> by (simp add: record_closed [OF StateClosed r])
  next
    case False
    then have "failures b + 1 < MinimumRequests c" using only_failures_trip [OF assms(4), of "failures b + 1"] by linarith
    then show ?thesis using False b \<open>b' = b\<close> StateClosed by (simp add: record_closed [OF StateClosed r] failing_def)
  qed
qed (use assms(1) in \<open>auto simp: failing_def Breaker_record_def\<close>)

lemma failing_guarded:
  assumes "failing c t0 j b" "clock_within (the (Now c)) t0 d" "short_for c d" "config_ok c"
    and "\<And>w. \<exists>e. fst (f k w) = Inl e" "\<And>w. ctx_Err ctx w = None"
  shows "failing c t0 (j + 1) (fst (fst (snd (guarded ctx f k ((b, w), res)))))"
proof (cases "state b")
  case StateClosed
  obtain b1 w1 where r: "rollWindowLocked (b, w) = (b1, w1)" by (rule prod.exhaust)
  have "b1 = b" using roll_kept [of b t0 d w] assms(1-4) r StateClosed by (auto simp: failing_def)
  obtain e w2 where f: "f k w1 = (Inl e, w2)" using assms(5) [of w1] by (metis prod.collapse)
  have "guarded ctx f k ((b, w), res) = (Some e, (Breaker_record False (b, w2), res))"
    using StateClosed r f \<open>b1 = b\<close> by (simp add: guarded_def Breaker_Do_def allow_closed on_world_def assms(6))
  then show ?thesis using failing_record [OF assms(1-4)] by simp
next
  case StateOpen
  obtain b1 w1 where m: "maybeHalfOpenLocked (b, w) = (b1, w1)" by (rule prod.exhaust)
  have "b1 = b" using open_kept [of b t0 d w] assms(1-4) m StateOpen by (auto simp: failing_def)
  then have "guarded ctx f k ((b, w), res) = (Some ErrBreakerOpen, ((b, w1), res))"
    using StateOpen m by (simp add: guarded_def Breaker_Do_def allow_def)
  then show ?thesis using assms(1) StateOpen by (auto simp: failing_def)
next
  case StateHalfOpen
  then show ?thesis using assms(1) by (simp add: failing_def)
qed

section \<open>A call on a network that is down\<close>

text \<open>
  While every attempt in a state with \<open>P\<close> gives the same retryable error, that error is what the loop
  returns; and two loops whose attempts agree in such states do the same.
\<close>

context retry_effects
begin

lemma P_loop_error:
  assumes "\<And>k w. P w \<Longrightarrow> fst (fn k w) = Some e" "errors_As_Permanent e = None" "\<And>w. ctx_Err ctx w = None"
    and "P w" "l \<noteq> Some e \<Longrightarrow> k \<le> MaxAttempts c"
  shows "fst (Retry_loop tn ctx c fn k l w) = Some e"
  using assms(4,5)
proof (induction "nat (MaxAttempts c + 1 - k)" arbitrary: k l w rule: less_induct)
  case less
  show ?case
  proof (cases "k \<le> MaxAttempts c")
    case True
    obtain out v where r: "Retry_round tn ctx c fn k l w = (out, v)" by (rule prod.exhaust)
    have v: "P v" using P_round [OF less.prems(1), of k l] r by simp
    obtain w1 where "fn k w = (Some e, w1)" using assms(1) [OF less.prems(1), of k] by (metis prod.collapse)
    then have "out \<in> {Inl (Some e), Inr e}"
      using r assms(2,3) backoff_result [of tn ctx c k e w1] by (auto simp: Retry_round_def split: if_splits)
    then show ?thesis using less.hyps [of "k + 1" v "Some e"] v True r
      by (subst Retry_loop.simps) auto
  qed (use less.prems in \<open>auto simp: Retry_loop.simps\<close>)
qed

lemma P_loop_cong:
  assumes "\<And>k w. P w \<Longrightarrow> fn' k w = fn k w" "P w"
  shows "Retry_loop tn ctx c fn' k l w = Retry_loop tn ctx c fn k l w"
  using assms(2)
proof (induction "nat (MaxAttempts c + 1 - k)" arbitrary: k l w rule: less_induct)
  case less
  have "Retry_round tn ctx c fn' k l w = Retry_round tn ctx c fn k l w"
    unfolding Retry_round_def assms(1) [OF less.prems] by (rule refl)
  then show ?case using less.hyps [of "k + 1"] P_round [OF less.prems, of k l]
    by (subst (1 2) Retry_loop.simps) (auto split: prod.split sum.split)
qed

end

text \<open>The effects of the retry loop other than its attempts do not touch the breaker.\<close>

lemma lift_breaker [simp]: "fst (fst (snd (lift f x))) = fst (fst x)"
  by (cases x; cases "fst x") (simp add: lift_def split_beta Let_def)

lemma withDefaults_effects:
  "Rand (RetryConfig_withDefaults rf wait c) = Some (case Rand c of None \<Rightarrow> rf | Some f \<Rightarrow> f)"
  "Sleep (RetryConfig_withDefaults rf wait c) = Some (case Sleep c of None \<Rightarrow> sleepCtx wait | Some f \<Rightarrow> f)"
  by (auto simp: RetryConfig_withDefaults_def Let_def split: option.split)

lemma do_config_Rand_breaker [simp]: "fst (fst (snd (the (Rand (do_config net u ctx)) x))) = fst (fst x)"
  by (cases "Rand (up_retry u)") (simp_all add: withDefaults_effects lift_retry_def)

lemma do_config_Sleep_breaker [simp]: "fst (fst (snd (the (Sleep (do_config net u ctx)) c d x))) = fst (fst x)"
  by (cases "Sleep (up_retry u)") (simp_all add: withDefaults_effects lift_retry_def sleepCtx_def split_beta Let_def)

lemma do_config_OnRetry_shape:
  assumes "OnRetry (do_config net u ctx) = Some f"
  obtains g where "f = (\<lambda>k d e ((b, w), res). ((b, g k d e w), res))"
proof -
  have "OnRetry (do_config net u ctx) = OnRetry (lift_retry ctx (up_retry u))"
    by (simp add: RetryConfig_withDefaults_def Let_def)
  with assms show ?thesis using that by (cases "OnRetry (up_retry u)") (auto simp: lift_retry_def)
qed

lemma do_config_OnRetry_keeps:
  assumes "OnRetry (do_config net u ctx) = Some f"
  shows "fst (fst (f k d e x)) = fst (fst x)" "snd (f k d e x) = snd x"
  using assms by (auto elim!: do_config_OnRetry_shape simp: split_beta)

lemma deadline_breaker [simp]:
  "fst (fst (snd (deadline_within (lift f) ctx d x))) = fst (fst x)"
  by (simp add: deadline_within_def split_beta split: option.split)

lemma do_retry_failing:
  assumes "failing c t0 j b" "clock_within (the (Now c)) t0 d" "short_for c d" "config_ok c"
    and "\<And>k w. \<exists>e. fst (f k w) = Inl e" "\<And>w. ctx_Err ctx w = None"
  shows "failing c t0 (j + 1) (fst (fst (snd (do_retry net u ctx f ((b, w), res)))))"
proof -
  let ?tn = "lift (env_now (net_env net))" and ?c = "do_config net u ctx" and ?fn = "guarded ctx f"
  let ?P = "\<lambda>x. failing c t0 (j + 1) (fst (fst x))"
  have g: "failing c t0 (i + 1) (fst (fst (snd (?fn k x))))" if "failing c t0 i (fst (fst x))" for i k x
    using failing_guarded [of c t0 i "fst (fst x)" d f k ctx "snd (fst x)" "snd x"] that assms(2-6) by simp
  have eff: "retry_effects ?tn (lift_ctx ctx) ?c ?fn ?P (\<lambda>_ _. True)"
  proof
    show "?P (snd (?fn k x))" if "?P x" for x k using g [OF that] by (rule failing_mono) simp
  qed (simp_all add: do_config_OnRetry_keeps)
  obtain err v where v: "?fn 1 ((b, w), res) = (err, v)" by (rule prod.exhaust)
  have Pv: "?P v" using g [of j "((b, w), res)" 1] assms(1) v by simp
  have "1 \<le> MaxAttempts ?c" by (auto simp: RetryConfig_withDefaults_def Let_def)
  moreover have "ctx_Err (lift_ctx ctx) x = None" for x by (cases x) (simp add: lift_ctx_def assms(6) split_beta)
  moreover have "?P (snd (Retry_round ?tn (lift_ctx ctx) ?c ?fn 1 None ((b, w), res)))"
    using Pv retry_effects.P_backoff [OF eff] calculation(2)
    by (auto simp: Retry_round_def v split: option.split)
  ultimately show ?thesis
    unfolding do_retry_def Retry_def using retry_effects.P_loop [OF eff]
    by (subst Retry_loop.simps) (auto split: prod.split sum.split)
qed

lemma Upstream_do_failing:
  assumes "failing c t0 j b" "clock_within (the (Now c)) t0 d" "short_for c d" "config_ok c"
    and "\<And>k w. \<exists>e. fst (attempt (net_bad_url net) u rid m p bd hs k w) = Inl e" "\<And>w. ctx_Err ctx w = None"
  shows "failing c t0 (j + 1) (fst (snd (Upstream_do net u ctx rid m p bd hs (b, w))))"
proof -
  let ?f = "attempt (net_bad_url net) u rid m p bd hs"
  obtain start w1 where n: "env_now (net_env net) w = (start, w1)" by (rule prod.exhaust)
  obtain err s1 result where d: "do_retry net u ctx ?f ((b, w1), None) = (err, (s1, result))" by (metis prod.exhaust)
  have "failing c t0 (j + 1) (fst s1)" using do_retry_failing [where f = ?f, OF assms, where w = w1 and res = None and net = net and u = u] d by simp
  moreover have "fst (snd (Upstream_do net u ctx rid m p bd hs (b, w))) = fst s1"
    by (cases s1) (auto simp: Upstream_do_def n d Let_def split_beta split: option.split)
  ultimately show ?thesis by simp
qed

text \<open>
  An open breaker before its timeout answers a call without an attempt: the result, the breaker and the
  world are the same whatever client the attempts would go through, and the breaker stays open.
\<close>

definition shut :: "'w BreakerConfig \<Rightarrow> time \<Rightarrow> 'w Breaker \<Rightarrow> bool" where
  "shut c t0 b \<longleftrightarrow> cfg b = c \<and> state b = StateOpen \<and> t0 \<le> openedAt b"

lemma failing_shut: "failing c t0 j b \<Longrightarrow> state b = StateOpen \<Longrightarrow> shut c t0 b"
  by (auto simp: failing_def shut_def)

lemma guarded_shut:
  assumes "shut c t0 b" "clock_within (the (Now c)) t0 d" "short_for c d" "config_ok c"
  shows "guarded ctx f k ((b, w), res) = (Some ErrBreakerOpen, ((b, snd (maybeHalfOpenLocked (b, w))), res))"
proof -
  obtain b1 w1 where m: "maybeHalfOpenLocked (b, w) = (b1, w1)" by (rule prod.exhaust)
  have "b1 = b" using open_kept [of b t0 d w] assms m by (auto simp: shut_def)
  then show ?thesis using assms(1) m by (simp add: shut_def guarded_def Breaker_Do_def allow_def)
qed

lemma do_retry_shut:
  assumes "shut c t0 b" "clock_within (the (Now c)) t0 d" "short_for c d" "config_ok c" "\<And>w. ctx_Err ctx w = None"
  shows "fst (do_retry net u ctx f ((b, w), res)) = Some ErrBreakerOpen"
    "shut c t0 (fst (fst (snd (do_retry net u ctx f ((b, w), res)))))"
    "do_retry net u ctx f' ((b, w), res) = do_retry net u ctx f ((b, w), res)"
proof -
  let ?P = "\<lambda>x :: 'a call. shut c t0 (fst (fst x))"
  have g: "guarded ctx f k x = (Some ErrBreakerOpen, ((fst (fst x), snd (maybeHalfOpenLocked (fst x))), snd x))" if "?P x" for f k x
    using guarded_shut [OF _ assms(2-4), of "fst (fst x)" ctx f k "snd (fst x)" "snd x"] that by simp
  have eff: "retry_effects (lift (env_now (net_env net))) (lift_ctx ctx) (do_config net u ctx) (guarded ctx f) ?P (\<lambda>_ _. True)" for f
    by unfold_locales (simp_all add: g do_config_OnRetry_keeps)
  have n: "1 \<le> MaxAttempts (do_config net u ctx)" by (auto simp: RetryConfig_withDefaults_def Let_def)
  have live: "ctx_Err (lift_ctx ctx) x = None" for x by (cases x) (simp add: lift_ctx_def assms(5) split_beta)
  show "fst (do_retry net u ctx f ((b, w), res)) = Some ErrBreakerOpen"
    unfolding do_retry_def Retry_def
    by (rule retry_effects.P_loop_error [OF eff]) (use assms(1) n g live in \<open>auto simp: ErrBreakerOpen_def\<close>)
  show "shut c t0 (fst (fst (snd (do_retry net u ctx f ((b, w), res)))))"
    unfolding do_retry_def Retry_def using retry_effects.P_loop [OF eff] assms(1) by simp
  show "do_retry net u ctx f' ((b, w), res) = do_retry net u ctx f ((b, w), res)"
    unfolding do_retry_def Retry_def by (rule retry_effects.P_loop_cong [OF eff]) (use assms(1) g in auto)
qed

lemma do_retry_client: "do_retry net (u\<lparr>up_client := cl\<rparr>) ctx f = do_retry net u ctx f"
  by (simp add: do_retry_def)

lemma Upstream_do_shut:
  assumes "shut c t0 (fst s)" "clock_within (the (Now c)) t0 d" "short_for c d" "config_ok c" "\<And>w. ctx_Err ctx w = None"
  shows "fst (Upstream_do net u ctx rid m p bd hs s)
      = Inl (Wrapf [] ErrUpstreamUnavailable ('': '' @ up_name u @ '' breaker open''))"
    "shut c t0 (fst (snd (Upstream_do net u ctx rid m p bd hs s)))"
    "Upstream_do net (u\<lparr>up_client := cl\<rparr>) ctx rid m p bd hs s = Upstream_do net u ctx rid m p bd hs s"
proof -
  obtain b w where s: "s = (b, w)" by (rule prod.exhaust)
  let ?f = "attempt (net_bad_url net) u rid m p bd hs" and ?f' = "attempt (net_bad_url net) (u\<lparr>up_client := cl\<rparr>) rid m p bd hs"
  obtain start w1 where n: "env_now (net_env net) w = (start, w1)" by (rule prod.exhaust)
  obtain err b2 w2 result where d: "do_retry net u ctx ?f ((b, w1), None) = (err, ((b2, w2), result))" by (metis prod.exhaust)
  note sh = do_retry_shut [where c = c and b = b and ctx = ctx and net = net and u = u and w = w1 and res = None, OF _ assms(2-5)]
  have e: "err = Some ErrBreakerOpen" using sh(1) [of ?f] assms(1) d by (simp add: s)
  have "shut c t0 b2" using sh(2) [of ?f] assms(1) d by (simp add: s)
  then show "shut c t0 (fst (snd (Upstream_do net u ctx rid m p bd hs s)))"
    "fst (Upstream_do net u ctx rid m p bd hs s) = Inl (Wrapf [] ErrUpstreamUnavailable ('': '' @ up_name u @ '' breaker open''))"
    by (auto simp: s Upstream_do_def n d e Let_def split_beta ErrBreakerOpen_def)
  have "do_retry net (u\<lparr>up_client := cl\<rparr>) ctx ?f' ((b, w1), None) = do_retry net u ctx ?f ((b, w1), None)"
    unfolding do_retry_client using assms(1) by (intro sh(3)) (simp add: s)
  then show "Upstream_do net (u\<lparr>up_client := cl\<rparr>) ctx rid m p bd hs s = Upstream_do net u ctx rid m p bd hs s"
    using d by (simp add: s Upstream_do_def n e Let_def split_beta)
qed

section \<open>An outage opens the breaker\<close>

text \<open>A sequence of calls, each with its correlation id, method, path, body and headers.\<close>

type_synonym up_call = "string \<times> string \<times> string \<times> string option \<times> (string \<times> string) list"

definition do_calls :: "'w Net \<Rightarrow> 'w Upstream \<Rightarrow> 'w Context \<Rightarrow> up_call list \<Rightarrow> 'w bstate \<Rightarrow> 'w bstate" where
  "do_calls net u ctx calls s =
     foldl (\<lambda>s (rid, m, p, bd, hs). snd (Upstream_do net u ctx rid m p bd hs s)) s calls"

definition call_fails :: "'w Net \<Rightarrow> 'w Upstream \<Rightarrow> up_call \<Rightarrow> bool" where
  "call_fails net u = (\<lambda>(rid, m, p, bd, hs). \<forall>k w. \<exists>e. fst (attempt (net_bad_url net) u rid m p bd hs k w) = Inl e)"

lemma do_calls_failing:
  assumes "failing c t0 j (fst s)" "clock_within (the (Now c)) t0 d" "short_for c d" "config_ok c"
    and "\<And>w. ctx_Err ctx w = None" "list_all (call_fails net u) calls"
  shows "failing c t0 (j + int (length calls)) (fst (do_calls net u ctx calls s))"
  using assms(1,6)
proof (induction calls arbitrary: j s)
  case (Cons q calls)
  obtain rid m p bd hs where q: "q = (rid, m, p, bd, hs)" by (metis prod.exhaust)
  obtain b w where s: "s = (b, w)" by (rule prod.exhaust)
  have "failing c t0 (j + 1) (fst (snd (Upstream_do net u ctx rid m p bd hs (b, w))))"
    by (rule Upstream_do_failing [OF _ assms(2-4) _ assms(5)]) (use Cons.prems in \<open>simp_all add: q s call_fails_def\<close>)
  from Cons.IH [OF this] Cons.prems show ?case by (simp add: do_calls_def q s add.assoc)
qed (simp add: do_calls_def)

lemma failing_fresh:
  "breaker_inv b \<Longrightarrow> state b = StateClosed \<Longrightarrow> successes b = 0 \<Longrightarrow> failures b < MinimumRequests (cfg b) \<Longrightarrow> t0 \<le> windowStart b \<Longrightarrow>
   failing (cfg b) t0 0 b"
  by (simp add: failing_def breaker_inv_def)

lemma do_calls_shut:
  assumes "shut c t0 (fst s)" "clock_within (the (Now c)) t0 d" "short_for c d" "config_ok c" "\<And>w. ctx_Err ctx w = None"
  shows "shut c t0 (fst (do_calls net u ctx calls s))"
  using assms(1)
proof (induction calls arbitrary: s)
  case (Cons q calls)
  then show ?case using Upstream_do_shut(2) [OF _ assms(2-5)] by (cases q) (simp add: do_calls_def split_beta)
qed (simp add: do_calls_def)

text \<open>
  C11. An outage opens the breaker and ends the traffic. The breaker is closed and has counted no
  success in its window. When every attempt of a sequence of calls fails and the clock stays within one
  window and within the open timeout, the breaker is open after as many calls as its minimum. Every
  later call, to whatever network, is refused because the breaker is open, and makes no attempt: its
  result, the breaker and the world after it are the same whatever client the attempts would go through.
\<close>

theorem outage_opens_breaker:
  assumes "breaker_inv b" "state b = StateClosed" "successes b = 0" "failures b < MinimumRequests (cfg b)" "t0 \<le> windowStart b"
    and "clock_within (br_Now b) t0 d" "d \<le> Window (cfg b)" "d \<le> OpenTimeout (cfg b)" "\<And>w. ctx_Err ctx w = None"
    and "list_all (call_fails net u) calls" "MinimumRequests (cfg b) \<le> int (length calls)"
    and "s = do_calls net' u' ctx later (do_calls net u ctx calls (b, w))"
  shows "state (fst s) = StateOpen \<and>
    fst (Upstream_do net' u' ctx rid m p bd hs s) = Inl (Wrapf [] ErrUpstreamUnavailable ('': '' @ up_name u' @ '' breaker open'')) \<and>
    Upstream_do net' (u'\<lparr>up_client := cl\<rparr>) ctx rid m p bd hs s = Upstream_do net' u' ctx rid m p bd hs s"
proof -
  let ?s = "do_calls net u ctx calls (b, w)"
  have c: "config_ok (cfg b)" "short_for (cfg b) d" using assms(1,7,8) by (simp_all add: breaker_inv_def short_for_def)
  have f: "failing (cfg b) t0 (int (length calls)) (fst ?s)"
    using do_calls_failing [OF _ assms(6) c(2,1) assms(9,10), of 0 "(b, w)"] failing_fresh [OF assms(1-5)] by simp
  then have "shut (cfg b) t0 (fst ?s)" using failing_minimum [OF f assms(11)] by (rule failing_shut)
  then have "shut (cfg b) t0 (fst s)" unfolding assms(12) by (rule do_calls_shut [OF _ assms(6) c(2,1) assms(9)])
  then show ?thesis using Upstream_do_shut [OF _ assms(6) c(2,1) assms(9)] by (simp add: shut_def)
qed

lemma wit_503_fails: "list_all (call_fails wit_net (fst (wit_upstream 503))) calls"
  using wit_503_down by (fastforce simp: list_all_iff call_fails_def)

text \<open>A scorer that answers 503 to everything, and twenty calls at the same instant.\<close>

definition still_env :: "(time \<times> event list) Env" where
  "still_env = \<lparr>env_now = (\<lambda>w. (0, w)), env_rand16 = (\<lambda>w. (None, w)), env_emit = (\<lambda>_ w. w)\<rparr>"

definition wit_breaker_cfg :: "(time \<times> event list) BreakerConfig" where
  "wit_breaker_cfg = \<lparr>MinimumRequests = 20, FailureRatio = 1/2, OpenTimeout = 15 * Second, HalfOpenMaxCalls = 3,
     HalfOpenSuccesses = 2, Window = 30 * Second, Now = Some (env_now still_env), OnStateChange = None\<rparr>"

text \<open>After these, a call to a scorer that would answer 200 is refused, as is the call after it.\<close>

definition wit_down :: "(time \<times> event list) bstate" where
  "wit_down = do_calls wit_net (fst (wit_upstream 503)) \<lparr>ctx_Err = (\<lambda>_. None), ctx_Deadline = None\<rparr>
     (replicate 20 ([], ''GET'', ''/v1/score'', None, [])) (NewBreaker (env_now still_env) ''scorer'' wit_breaker_cfg (0, []))"

lemma outage_opens_breaker_witness:
  "let ctx = \<lparr>ctx_Err = (\<lambda>_. None), ctx_Deadline = None\<rparr>; q = ([], ''GET'', ''/v1/score'', None, []);
       s = do_calls wit_net (fst (wit_upstream 200)) ctx [q] wit_down
   in state (fst s) = StateOpen \<and>
     fst (Upstream_do wit_net (fst (wit_upstream 200)) ctx [] ''GET'' ''/v1/score'' None [] s)
       = Inl (Wrapf [] ErrUpstreamUnavailable ('': '' @ up_name (fst (wit_upstream 200)) @ '' breaker open''))"
proof -
  obtain b w where b: "NewBreaker (env_now still_env) ''scorer'' wit_breaker_cfg (0, []) = (b, w)" by (rule prod.exhaust)
  have f: "cfg b = wit_breaker_cfg" "state b = StateClosed" "successes b = 0" "failures b = 0" "windowStart b = 0"
    using b by (auto simp: NewBreaker_def BreakerConfig_withDefaults_def wit_breaker_cfg_def still_env_def)
  have "breaker_inv b" using NewBreaker_inv [of "env_now still_env" "''scorer''" wit_breaker_cfg "(0, [])"] b by simp
  moreover have "clock_within (br_Now b) 0 1" by (simp add: f clock_within_def wit_breaker_cfg_def still_env_def)
  ultimately show ?thesis unfolding Let_def wit_down_def b
    using outage_opens_breaker [where b = b and ?t0.0 = 0 and d = 1 and ctx = "\<lparr>ctx_Err = (\<lambda>_. None), ctx_Deadline = None\<rparr>"
        and net = wit_net and u = "fst (wit_upstream 503)" and calls = "replicate 20 ([], ''GET'', ''/v1/score'', None, [])" and w = w,
        OF _ _ _ _ _ _ _ _ _ wit_503_fails _ refl]
    by (simp add: f wit_breaker_cfg_def)
qed

end
