(* ===== verification/Chains.thy ===== *)
theory Chains
  imports Services Outage
begin

text \<open>
  What a request gets through the chains of middleware that the commands put around their routers: a
  handler that answers every copy of a request in the same way is still heard through the whole chain,
  as long as the deadline does not pass, the client is known and its bucket admits it.
\<close>

section \<open>The header of the correlation id\<close>

text \<open>Calls that do not set it, and what is then in the response.\<close>

definition sets_id :: "'v wop \<Rightarrow> bool" where
  "sets_id op = (case op of HeaderSet k v \<Rightarrow> CanonicalHeaderKey k = CanonicalHeaderKey RequestIDHeader | _ \<Rightarrow> False)"

definition quiet :: "'v wop list \<Rightarrow> bool" where
  "quiet os \<longleftrightarrow> list_all (\<lambda>op. \<not> sets_id op) os"

lemma quiet_simps [simp]:
  "quiet []" "quiet (SendHeader st # os) = quiet os" "quiet (SendBody b # os) = quiet os" "quiet (os @ os') \<longleftrightarrow> quiet os \<and> quiet os'"
  by (simp_all add: quiet_def sets_id_def)

lemma quiet_HeaderSet:
  assumes "CanonicalHeaderKey k \<noteq> CanonicalHeaderKey RequestIDHeader"
  shows "quiet (HeaderSet k v # os) = quiet os"
  using assms by (simp add: quiet_def sets_id_def)

lemma quiet_headers [simp]:
  "quiet (HeaderSet ''Content-Type'' v # os) = quiet os" "quiet (map (\<lambda>(k, v). HeaderSet k v) security_headers)"
proof -
  show "quiet (HeaderSet ''Content-Type'' v # os) = quiet os" by (rule quiet_HeaderSet) code_simp
  have "list_all (\<lambda>(k, v). CanonicalHeaderKey k \<noteq> CanonicalHeaderKey RequestIDHeader) security_headers" by code_simp
  then show "quiet (map (\<lambda>(k, v). HeaderSet k v) security_headers)" by (auto simp: quiet_def sets_id_def list_all_iff)
qed

lemma quiet_writers [simp]: "quiet (WriteProblem r st c d)" "quiet (WriteJSON st v)"
  by (simp_all add: WriteProblem_def WriteJSON_def)

lemma quiet_rec_op: "quiet [op] \<Longrightarrow> quiet (snd (rec_op sz rc op))"
  by (cases op) (auto simp: rec_WriteHeader_def rec_Write_def Let_def)

lemma quiet_through: "quiet os \<Longrightarrow> quiet (snd (through sz rc os))"
proof (induction os arbitrary: rc)
  case (Cons op os)
  then show ?case using quiet_rec_op [of op sz rc] by (simp add: quiet_def split_beta Let_def)
qed simp

lemma id_in_reply:
  assumes "quiet os"
  shows "Header_Get (reply_header (reply_of (HeaderSet RequestIDHeader i # os))) RequestIDHeader = i"
proof -
  let ?good = "\<lambda>s. Header_Get (live s) RequestIDHeader = i \<and> (case sent s of Some (st, h) \<Rightarrow> Header_Get h RequestIDHeader = i | None \<Rightarrow> True)"
  have "?good (foldl server_op s os)" if "?good s" for s
    using assms that
  proof (induction os arbitrary: s)
    case (Cons op os)
    then have "?good (server_op s op)"
      by (cases op) (auto simp: quiet_def sets_id_def Header_Get_Set Let_def split: option.splits)
    with Cons show ?case by (simp add: quiet_def)
  qed simp
  from this [of "server_op new_reply (HeaderSet RequestIDHeader i)"] show ?thesis
    by (auto simp: reply_of_def reply_header_def new_reply_def Header_Get_Set split: option.splits)
qed

text \<open>The correlation id in the response that a run sends.\<close>

definition id_header :: "'v run \<Rightarrow> string" where
  "id_header x = Header_Get (reply_header (reply_of (ops x))) RequestIDHeader"

section \<open>Handlers that answer a request in one way\<close>

text \<open>
  \<open>serves r0 obs v st bs h\<close>: whatever copy of the request \<open>r0\<close> the handler gets, with a live context and in
  whatever state whose part \<open>obs\<close> is \<open>v\<close>, it returns, and its answer has the status \<open>st\<close> and the bodies
  that \<open>bs\<close> gives for the correlation id of the copy; the header of that id is left alone.
\<close>

definition live_ctx :: "'x RequestContext \<Rightarrow> bool" where
  "live_ctx ctx \<longleftrightarrow> (\<forall>s. ctx_Err (std ctx) s = None)"

definition copy_of :: "'x Request \<Rightarrow> 'x Request \<Rightarrow> bool" where
  "copy_of r0 r \<longleftrightarrow> Method r = Method r0 \<and> Path r = Path r0 \<and> RawQuery r = RawQuery r0 \<and> ReqHeader r = ReqHeader r0 \<and>
     Body r = Body r0 \<and> live_ctx (Ctx r)"

definition serves ::
  "'x Request \<Rightarrow> ('x \<Rightarrow> 'o) \<Rightarrow> 'o \<Rightarrow> int \<Rightarrow> (string \<Rightarrow> 'v payload list) \<Rightarrow> ('v, 'x) Handler \<Rightarrow> bool" where
  "serves r0 obs v st bs h \<longleftrightarrow> (\<forall>r s. copy_of r0 r \<and> obs s = v \<longrightarrow>
     ending (fst (h r s)) = Returned \<and> run_status (fst (h r s)) = st \<and> run_bodies (fst (h r s)) = bs (RequestIDFrom (Ctx r)) \<and>
     quiet (ops (fst (h r s))))"

lemma servesI:
  assumes "\<And>r s. copy_of r0 r \<Longrightarrow> obs s = v \<Longrightarrow>
    ending (fst (h r s)) = Returned \<and> run_status (fst (h r s)) = st \<and> run_bodies (fst (h r s)) = bs (RequestIDFrom (Ctx r)) \<and>
    quiet (ops (fst (h r s)))"
  shows "serves r0 obs v st bs h"
  using assms by (simp add: serves_def)

lemma servesD:
  assumes "serves r0 obs v st bs h" "copy_of r0 r" "obs s = v"
  shows "ending (fst (h r s)) = Returned" "run_status (fst (h r s)) = st" "run_bodies (fst (h r s)) = bs (RequestIDFrom (Ctx r))"
    "quiet (ops (fst (h r s)))"
  using assms by (simp_all add: serves_def)

lemma copy_of_ctx [simp]:
  "copy_of r0 (WithContext ((Ctx r)\<lparr>ctxRequestID := i\<rparr>) r) = copy_of r0 r"
  "copy_of r0 (WithContext ((Ctx r)\<lparr>ctxLogger := l\<rparr>) r) = copy_of r0 r"
  "copy_of r0 (WithContext (withClient c (Ctx r)) r) = copy_of r0 r"
  by (simp_all add: copy_of_def live_ctx_def withClient_def WithContext_def)

lemma RequestIDFrom_ctx [simp]:
  "RequestIDFrom (Ctx (WithContext ((Ctx r)\<lparr>ctxRequestID := Some i\<rparr>) r)) = i"
  "RequestIDFrom (Ctx (WithContext ((Ctx r)\<lparr>ctxLogger := l\<rparr>) r)) = RequestIDFrom (Ctx r)"
  "RequestIDFrom (Ctx (WithContext (withClient c (Ctx r)) r)) = RequestIDFrom (Ctx r)"
  "RequestIDFrom (Ctx (WithContext ((Ctx r)\<lparr>std := c'\<rparr>) r)) = RequestIDFrom (Ctx r)"
  by (simp_all add: RequestIDFrom_def withClient_def WithContext_def)

lemma copy_of_body: "copy_of r0 r \<Longrightarrow> copy_of (r0\<lparr>Body := f (Body r0)\<rparr>) (r\<lparr>Body := f (Body r)\<rparr>)"
  by (simp add: copy_of_def)

text \<open>What a run answers is what the calls that are visible answer, whatever headers are set.\<close>

lemma run_bodies_updates [simp]:
  "run_bodies (x\<lparr>patternAfter := p\<rparr>) = run_bodies x"
  "run_bodies (x\<lparr>ops := HeaderSet k v # os, patternAfter := p\<rparr>) = run_bodies (x\<lparr>ops := os\<rparr>)"
  "run_bodies (x\<lparr>ops := HeaderSet k v # os\<rparr>) = run_bodies (x\<lparr>ops := os\<rparr>)"
  "run_bodies (x\<lparr>ops := snd (through sz new_recorder os)\<rparr>) = run_bodies (x\<lparr>ops := os\<rparr>)"
  "run_bodies (x\<lparr>ops := snd (through sz new_recorder os), patternAfter := p\<rparr>) = run_bodies (x\<lparr>ops := os\<rparr>)"
  "run_bodies (x\<lparr>ops := ops x\<rparr>) = run_bodies x"
  by (simp_all add: run_bodies_def reply_HeaderSet reply_of_through)

lemma run_headers [simp]:
  "run_status (x\<lparr>ops := map (\<lambda>(k, v). HeaderSet k v) hs @ os\<rparr>) = run_status (x\<lparr>ops := os\<rparr>)"
  "run_bodies (x\<lparr>ops := map (\<lambda>(k, v). HeaderSet k v) hs @ os\<rparr>) = run_bodies (x\<lparr>ops := os\<rparr>)"
  by (induction hs) auto

text \<open>
  \<open>leaves r0 obs v post v' h\<close>: on the same requests, the handler leaves a state whose part \<open>post\<close> is \<open>v'\<close>.
\<close>

definition leaves ::
  "'x Request \<Rightarrow> ('x \<Rightarrow> 'o) \<Rightarrow> 'o \<Rightarrow> ('x \<Rightarrow> 'p) \<Rightarrow> 'p \<Rightarrow> ('v, 'x) Handler \<Rightarrow> bool" where
  "leaves r0 obs v post v' h \<longleftrightarrow> (\<forall>r s. copy_of r0 r \<and> obs s = v \<longrightarrow> post (snd (h r s)) = v')"

section \<open>The middleware that passes an answer on\<close>

lemma serves_Recovery: "serves r0 obs v st bs h \<Longrightarrow> serves r0 obs v st bs (Recovery env stack h)"
  by (auto simp: serves_def Recovery_def split_beta Let_def)

lemma serves_SecurityHeaders: "serves r0 obs v st bs h \<Longrightarrow> serves r0 obs v st bs (SecurityHeaders h)"
  by (auto simp: serves_def SecurityHeaders_def before_def split_beta Let_def)

lemma serves_MaxBodyBytes:
  "serves (r0\<lparr>Body := MaxBytesReader n (Body r0)\<rparr>) obs v st bs h \<Longrightarrow> serves r0 obs v st bs (MaxBodyBytes n h)"
  by (auto simp: serves_def MaxBodyBytes_def dest: copy_of_body [where f = "MaxBytesReader n"])

lemma leaves_SecurityHeaders: "leaves r0 obs v post v' h \<Longrightarrow> leaves r0 obs v post v' (SecurityHeaders h)"
  by (auto simp: leaves_def SecurityHeaders_def split_beta Let_def)

lemma leaves_MaxBodyBytes:
  "leaves (r0\<lparr>Body := MaxBytesReader n (Body r0)\<rparr>) obs v post v' h \<Longrightarrow> leaves r0 obs v post v' (MaxBodyBytes n h)"
  by (auto simp: leaves_def MaxBodyBytes_def dest: copy_of_body [where f = "MaxBytesReader n"])

text \<open>A race in which the deadline does not pass is the handler's own answer.\<close>

lemma race_without_deadline:
  assumes "Deadline \<notin> set sch"
  shows "race_run sz r sch os = snd (through sz new_recorder os)"
proof -
  let ?good = "\<lambda>s. race_inv sz r os s \<and> \<not> timedOut (recorder s) \<and> (waiter s = Gone \<longrightarrow> todo s = [] \<and> forwarding s = [])"
  have h: "timedOut (recorder (handler_step sz s)) = timedOut (recorder s)" for s
    using rec_op_open [of "recorder s" sz "hd (todo s)"]
    by (cases "forwarding s"; cases "todo s") (auto simp: rec_op_timedOut split_beta Let_def)
  have "?good (foldl (race_step sz r) s sch)" if "?good s" for s
    using that assms
  proof (induction sch arbitrary: s)
    case (Cons c cs)
    have "race_inv sz r os (race_step sz r s c)" using Cons.prems(1) race_inv_step by blast
    moreover have "waiter (handler_step sz s) = waiter s"
      by (cases "forwarding s"; cases "todo s") (auto simp: split_beta Let_def)
    ultimately have "?good (race_step sz r s c)"
      using Cons.prems by (cases c) (auto simp: h race_inv_def simp del: handler_step.simps split: waiter.splits list.splits)
    with Cons show ?case by simp
  qed simp
  moreover have "?good (race_start os)" using race_inv_start [of sz r os] by (simp add: race_start_def new_recorder_def)
  ultimately have "?good (foldl (race_step sz r) (race_start os) sch)" by blast
  then show ?thesis unfolding race_run_def race_end_def race_inv_def
    by (cases "waiter (foldl (race_step sz r) (race_start os) sch)") auto
qed

text \<open>
  The deadline does not pass: for as long as one timeout the clock does not move past it, and the race
  between the handler and its deadline is not decided by the deadline.
\<close>

definition unhurried :: "'x Env \<Rightarrow> ('x \<Rightarrow> choice list \<times> 'x) \<Rightarrow> duration \<Rightarrow> bool" where
  "unhurried env sched timeout \<longleftrightarrow> (\<exists>t0. clock_within (env_now env) t0 timeout) \<and> (\<forall>s. Deadline \<notin> set (fst (sched s)))"

lemma live_WithTimeout:
  assumes "unhurried env sched timeout" "live_ctx ctx"
  shows "live_ctx (ctx\<lparr>std := WithTimeout env (fst (env_now env s) + timeout) (std ctx)\<rparr>)"
proof -
  obtain t0 where "clock_within (env_now env) t0 timeout" using assms(1) by (auto simp: unhurried_def)
  then have "\<not> fst (env_now env s) + timeout \<le> fst (env_now env s')" for s'
    unfolding clock_within_def by (smt (verit))
  with assms(2) show ?thesis by (simp add: live_ctx_def WithTimeout_def)
qed


context effects_apart
begin

lemma serves_Logging: "serves r0 obs v st bs h \<Longrightarrow> serves r0 obs v st bs (Logging env sz lg h)"
  by (auto simp: serves_def Logging_def now_apart quiet_through split_beta Let_def)

lemma serves_Metrics: "serves r0 obs v st bs h \<Longrightarrow> serves r0 obs v st bs (Metrics env sz h)"
  by (auto simp: serves_def Metrics_def now_apart emit_apart quiet_through split_beta Let_def)

lemma serves_Timeout:
  assumes "serves r0 obs v st bs h" "unhurried env sched d"
  shows "serves r0 obs v st bs (Timeout env sz sched d h)"
proof (rule servesI)
  fix r s
  assume r: "copy_of r0 r" "obs s = v"
  let ?r = "WithContext ((Ctx r)\<lparr>std := WithTimeout env (fst (env_now env s) + d) (std (Ctx r))\<rparr>) r"
  have "copy_of r0 ?r" using r(1) live_WithTimeout [OF assms(2)] by (simp add: copy_of_def WithContext_def)
  moreover have "obs (snd (env_now env s)) = v" using r(2) by (simp add: now_apart)
  moreover have "Deadline \<notin> set (fst (sched t))" for t using assms(2) by (simp add: unhurried_def)
  ultimately show "ending (fst (Timeout env sz sched d h r s)) = Returned \<and> run_status (fst (Timeout env sz sched d h r s)) = st \<and>
      run_bodies (fst (Timeout env sz sched d h r s)) = bs (RequestIDFrom (Ctx r)) \<and> quiet (ops (fst (Timeout env sz sched d h r s)))"
    using servesD [OF assms(1), of ?r "snd (env_now env s)"]
    by (simp add: Timeout_def split_beta Let_def race_without_deadline quiet_through run_status_def run_bodies_def reply_of_through)
qed

text \<open>The outermost middleware fixes the correlation id: the client's, when it is valid.\<close>

lemma RequestID_serves:
  assumes "serves r0 obs v st bs h" "copy_of r0 r" "obs s = v"
  obtains rid where "validRequestID (Header_Get (ReqHeader r) RequestIDHeader) \<Longrightarrow> rid = Header_Get (ReqHeader r) RequestIDHeader"
    "ending (fst (RequestIDMiddleware env h r s)) = Returned" "run_status (fst (RequestIDMiddleware env h r s)) = st"
    "run_bodies (fst (RequestIDMiddleware env h r s)) = bs rid"
    "id_header (fst (RequestIDMiddleware env h r s)) = rid"
proof -
  let ?i = "Header_Get (ReqHeader r) RequestIDHeader"
  obtain i s1 where n: "(if validRequestID ?i then (?i, s) else newRequestID env s) = (i, s1)" by (rule prod.exhaust)
  let ?r = "WithContext ((Ctx r)\<lparr>ctxRequestID := Some i\<rparr>) r"
  have o: "copy_of r0 ?r" "obs s1 = v" using assms(2,3) n newRequestID_apart [of s] by (auto split: if_splits)
  have "RequestIDMiddleware env h r s = ((before [HeaderSet RequestIDHeader i] (fst (h ?r s1)))\<lparr>patternAfter := Pattern r\<rparr>, snd (h ?r s1))"
    unfolding RequestIDMiddleware_def n Let_def by (simp add: split_beta)
  then show ?thesis
    by (intro that [of i]) (use servesD [OF assms(1) o] n in \<open>auto simp: before_def id_header_def id_in_reply split: if_splits\<close>)
qed

lemmas serves_stack = serves_Logging serves_Recovery serves_SecurityHeaders serves_Metrics serves_MaxBodyBytes serves_Timeout

end

text \<open>What a handler leaves is also what the chain around it leaves, where neither part is the log's or the clock's.\<close>

locale effects_beside = effects_apart env obs for env :: "'x Env" and obs :: "'x \<Rightarrow> 'o" +
  fixes post :: "'x \<Rightarrow> 'p"
  assumes post_now: "post (snd (env_now env s)) = post s"
    and post_rand: "post (snd (env_rand16 env s)) = post s"
    and post_emit: "post (env_emit env e s) = post s"
begin

lemma leaves_Logging: "leaves r0 obs v post v' h \<Longrightarrow> leaves r0 obs v post v' (Logging env sz lg h)"
  by (auto simp: leaves_def Logging_def now_apart post_now post_emit split_beta Let_def)

lemma leaves_Recovery: "leaves r0 obs v post v' h \<Longrightarrow> leaves r0 obs v post v' (Recovery env stack h)"
  by (auto simp: leaves_def Recovery_def post_emit split_beta Let_def split: ending.split)

lemma leaves_Metrics: "leaves r0 obs v post v' h \<Longrightarrow> leaves r0 obs v post v' (Metrics env sz h)"
  by (auto simp: leaves_def Metrics_def now_apart emit_apart post_now post_emit split_beta Let_def split: ending.split)

lemma leaves_RequestID: "leaves r0 obs v post v' h \<Longrightarrow> leaves r0 obs v post v' (RequestIDMiddleware env h)"
  by (auto simp: leaves_def RequestIDMiddleware_def newRequestID_apart split_beta Let_def)

lemma leaves_Timeout:
  assumes "leaves r0 obs v post v' h" "unhurried env sched d" "\<And>s. post (snd (sched s)) = post s"
  shows "leaves r0 obs v post v' (Timeout env sz sched d h)"
proof -
  have "copy_of r0 (WithContext ((Ctx r)\<lparr>std := WithTimeout env (fst (env_now env s) + d) (std (Ctx r))\<rparr>) r)" if "copy_of r0 r" for r s
    using that live_WithTimeout [OF assms(2)] by (simp add: copy_of_def WithContext_def)
  with assms(1) show ?thesis by (auto simp: leaves_def Timeout_def now_apart assms(3) split_beta Let_def)
qed

lemmas leaves_stack = leaves_RequestID leaves_Logging leaves_Recovery leaves_SecurityHeaders leaves_Metrics leaves_MaxBodyBytes leaves_Timeout

end

section \<open>The chain of the catalog\<close>

theorem catalog_public_serves:
  assumes "effects_apart env obs" "unhurried env sched timeout"
    and "serves (r\<lparr>Body := MaxBytesReader (256 * 2 ^ 10) (Body r)\<rparr>) obs v st bs inner"
    and "live_ctx (Ctx r)" "obs s = v"
  obtains rid where "validRequestID (Header_Get (ReqHeader r) RequestIDHeader) \<Longrightarrow> rid = Header_Get (ReqHeader r) RequestIDHeader"
    "ending (fst (catalog_public env sz logger stack sched timeout inner r s)) = Returned"
    "run_status (fst (catalog_public env sz logger stack sched timeout inner r s)) = st"
    "run_bodies (fst (catalog_public env sz logger stack sched timeout inner r s)) = bs rid"
    "id_header (fst (catalog_public env sz logger stack sched timeout inner r s)) = rid"
proof -
  note stack = effects_apart.serves_stack [OF assms(1)]
  have r: "copy_of r r" using assms(4) by (simp add: copy_of_def)
  show ?thesis
    by (rule effects_apart.RequestID_serves [OF assms(1) _ r assms(5),
          where h = "Logging env sz logger (Recovery env (stack_trace stack) (SecurityHeaders (Metrics env sz
            (MaxBodyBytes (256 * 2 ^ 10) (Timeout env sz sched timeout inner)))))" and st = st and bs = bs])
      (use assms(2,3) that in \<open>auto simp: catalog_public_def Chain_def intro!: stack\<close>)
qed

lemma catalog_public_leaves:
  assumes "effects_beside env obs post" "unhurried env sched timeout" "\<And>s. post (snd (sched s)) = post s"
    and "leaves (r\<lparr>Body := MaxBytesReader (256 * 2 ^ 10) (Body r)\<rparr>) obs v post v' inner"
  shows "leaves r obs v post v' (catalog_public env sz logger stack sched timeout inner)"
  unfolding catalog_public_def Chain_def using assms(2-4) by (simp add: effects_beside.leaves_stack [OF assms(1)])

section \<open>The chain of the gateway\<close>

text \<open>
  The part of the gateway's state that its routes depend on: the breakers, and what \<open>k\<close> shows of the
  world; the edge depends on the buckets too.
\<close>

definition behind :: "('w \<Rightarrow> 'k) \<Rightarrow> 'w gateway \<Rightarrow> 'w Breaker \<times> 'w Breaker \<times> 'k" where
  "behind k s = (gw_catalog s, gw_scorer s, k (gw_base s))"

definition at_edge :: "('w \<Rightarrow> 'k) \<Rightarrow> 'w gateway \<Rightarrow> 'w fl_RateLimiter \<times> 'w Breaker \<times> 'w Breaker \<times> 'k" where
  "at_edge k s = (gw_limiter s, behind k s)"

lemma gw_env_apart:
  assumes "effects_apart env k"
  shows "effects_apart (gw_env env) (behind k)" "effects_apart (gw_env env) (at_edge k)"
  using assms by (auto simp: effects_apart_def gw_env_def behind_def at_edge_def split_beta Let_def)

lemma gw_env_unhurried: "unhurried env sched d \<Longrightarrow> unhurried (gw_env env) (lift_sched sched) d"
  unfolding unhurried_def clock_within_def by (auto simp: gw_env_def lift_sched_def split_beta Let_def)

text \<open>A bucket that admits the next request of a client, whatever the clock shows.\<close>

definition admits :: "'w fl_RateLimiter \<Rightarrow> string \<Rightarrow> bool" where
  "admits rl c \<longleftrightarrow> (\<forall>w. fst (fst (fl_Allow c (rl, w))))"

lemma fresh_admits:
  assumes "fl_buckets rl c = None" "float64_le (Finite 1) (fl_burst rl)"
  shows "admits rl c"
proof -
  have "\<not> 0 < Seconds (time_Sub t t)" for t using Seconds_time_Sub_pos [of t t] by auto
  then show ?thesis using assms by (simp add: admits_def fl_Allow_eq Let_def fl_take_token_def fl_refill_def fl_fresh_def)
qed

lemma admitted:
  assumes "copy_of r0 r" "at_edge k s = (rl, v)" "known_as sha keys c r0" "admits rl c" "\<And>w. k (snd (fl_now rl w)) = k w"
  obtains s1 where "behind k s1 = v"
    "fst (Authenticate sha (Some keys) (RateLimiter_Middleware get_limiter put_limiter RateLimitKey h) r s) =
       (fst (h (WithContext (withClient c (Ctx r)) r) s1))\<lparr>patternAfter := Pattern r\<rparr>"
    "snd (Authenticate sha (Some keys) (RateLimiter_Middleware get_limiter put_limiter RateLimitKey h) r s) =
       snd (h (WithContext (withClient c (Ctx r)) r) s1)"
proof -
  let ?next = "RateLimiter_Middleware get_limiter put_limiter RateLimitKey h" and ?r = "WithContext (withClient c (Ctx r)) r"
  have "ReqHeader r = ReqHeader r0" using assms(1) by (simp add: copy_of_def)
  then have "presentedKey r = presentedKey r0" by (simp add: presentedKey_def)
  then have c: "known_as sha keys c r" using assms(3) by (simp add: known_as_def)
  have A: "Authenticate sha (Some keys) ?next r s = ((fst (?next ?r s))\<lparr>patternAfter := Pattern r\<rparr>, snd (?next ?r s))"
    using c by (auto simp: known_as_def Authenticate_def split_beta Let_def split: if_splits)
  have key: "RateLimitKey ?r = c" using c
    by (auto simp: RateLimitKey_def ClientFrom_def withClient_def WithContext_def known_as_def AnonymousClient_def split: if_splits)
  obtain ok after rl' w' where a: "fl_Allow c (rl, gw_base s) = ((ok, after), (rl', w'))" by (metis prod.exhaust)
  then have "ok" "k w' = k (gw_base s)"
    using assms(4,5) unfolding admits_def fl_Allow_eq Let_def by (metis fst_conv, metis snd_conv)
  moreover have "gw_limiter s = rl" "behind k s = v" using assms(2) by (simp_all add: at_edge_def)
  ultimately have N: "?next ?r s = h ?r (s\<lparr>gw_limiter := rl', gw_base := w'\<rparr>)" "behind k (s\<lparr>gw_limiter := rl', gw_base := w'\<rparr>) = v"
    using a key by (auto simp: RateLimiter_Middleware_def zoom_def get_limiter_def put_limiter_def behind_def)
  show ?thesis by (rule that [OF N(2)]) (simp_all add: A N(1))
qed

lemma serves_admitted:
  assumes "serves r0 (behind k) v st bs h" "known_as sha keys c r0" "admits rl c" "\<And>w. k (snd (fl_now rl w)) = k w"
  shows "serves r0 (at_edge k) (rl, v) st bs (Authenticate sha (Some keys) (RateLimiter_Middleware get_limiter put_limiter RateLimitKey h))"
proof (rule servesI)
  fix r s
  let ?x = "fst (Authenticate sha (Some keys) (RateLimiter_Middleware get_limiter put_limiter RateLimitKey h) r s)"
  let ?r = "WithContext (withClient c (Ctx r)) r"
  assume r: "copy_of r0 r" and s: "at_edge k s = (rl, v)"
  obtain s1 where N: "behind k s1 = v" "?x = (fst (h ?r s1))\<lparr>patternAfter := Pattern r\<rparr>" by (rule admitted [OF r s assms(2-4)])
  show "ending ?x = Returned \<and> run_status ?x = st \<and> run_bodies ?x = bs (RequestIDFrom (Ctx r)) \<and> quiet (ops ?x)"
    unfolding N(2) using servesD [OF assms(1), of ?r] r N(1) by simp
qed

text \<open>The edge lets a request of client \<open>c\<close> through: it is known, within its budget, and not late.\<close>

definition edge_open ::
  "'w Env \<Rightarrow> ('w \<Rightarrow> 'k) \<Rightarrow> (string \<Rightarrow> string) \<Rightarrow> APIKeyStore \<Rightarrow> ('w \<Rightarrow> choice list \<times> 'w) \<Rightarrow> duration \<Rightarrow> string \<Rightarrow> 'w gateway Request \<Rightarrow> 'w gateway \<Rightarrow> bool" where
  "edge_open env k sha keys sched timeout c r s \<longleftrightarrow> effects_apart env k \<and> unhurried env sched timeout \<and> live_ctx (Ctx r) \<and>
     known_as sha keys c r \<and> admits (gw_limiter s) c \<and> fl_now (gw_limiter s) = env_now env"

theorem gateway_public_serves:
  assumes "edge_open env k sha keys sched timeout c r s"
    and "serves (r\<lparr>Body := MaxBytesReader (2 ^ 20) (Body r)\<rparr>) (behind k) (behind k s) st bs inner"
  obtains rid where "validRequestID (Header_Get (ReqHeader r) RequestIDHeader) \<Longrightarrow> rid = Header_Get (ReqHeader r) RequestIDHeader"
    "ending (fst (gateway_public env sz logger stack sha keys sched timeout inner r s)) = Returned"
    "run_status (fst (gateway_public env sz logger stack sha keys sched timeout inner r s)) = st"
    "run_bodies (fst (gateway_public env sz logger stack sha keys sched timeout inner r s)) = bs rid"
    "id_header (fst (gateway_public env sz logger stack sha keys sched timeout inner r s)) = rid"
proof -
  from assms(1) have e: "effects_apart env k" "unhurried env sched timeout" "live_ctx (Ctx r)" "known_as sha keys c r"
    "admits (gw_limiter s) c" "fl_now (gw_limiter s) = env_now env" by (simp_all add: edge_open_def)
  have now: "k (snd (fl_now (gw_limiter s) w)) = k w" for w unfolding e(6) by (rule effects_apart.now_apart [OF e(1)])
  note apart = gw_env_apart [OF e(1)]
  let ?r = "r\<lparr>Body := MaxBytesReader (2 ^ 20) (Body r)\<rparr>"
  have "known_as sha keys c ?r" using e(4) by (simp add: known_as_def)
  from serves_admitted [OF effects_apart.serves_Timeout [OF apart(1) assms(2) gw_env_unhurried [OF e(2)]] this e(5) now]
  have A: "serves ?r (at_edge k) (at_edge k s) st bs (Authenticate sha (Some keys) (RateLimiter_Middleware get_limiter put_limiter
      RateLimitKey (Timeout (gw_env env) sz (lift_sched sched) timeout inner)))" by (simp add: at_edge_def)
  have r: "copy_of r r" using e(3) by (simp add: copy_of_def)
  show ?thesis
    by (rule effects_apart.RequestID_serves [OF apart(2) _ r refl,
          where h = "Logging (gw_env env) sz logger (Recovery (gw_env env) (stack_trace stack) (SecurityHeaders (Metrics (gw_env env) sz
            (MaxBodyBytes (2 ^ 20) (Authenticate sha (Some keys) (RateLimiter_Middleware get_limiter put_limiter
              RateLimitKey (Timeout (gw_env env) sz (lift_sched sched) timeout inner)))))))" and st = st and bs = bs])
      (use A that in \<open>auto simp: gateway_public_def Chain_def intro!: effects_apart.serves_stack [OF apart(2)]\<close>)
qed

text \<open>What a request leaves behind the edge.\<close>

lemma leaves_admitted:
  assumes "leaves r0 (behind k) v post v' h" "known_as sha keys c r0" "admits rl c" "\<And>w. k (snd (fl_now rl w)) = k w"
  shows "leaves r0 (at_edge k) (rl, v) post v' (Authenticate sha (Some keys) (RateLimiter_Middleware get_limiter put_limiter RateLimitKey h))"
  unfolding leaves_def
proof (intro allI impI, elim conjE)
  fix r s
  assume r: "copy_of r0 r" and s: "at_edge k s = (rl, v)"
  obtain s1 where "snd (Authenticate sha (Some keys) (RateLimiter_Middleware get_limiter put_limiter RateLimitKey h) r s) =
      snd (h (WithContext (withClient c (Ctx r)) r) s1)" "behind k s1 = v"
    by (rule admitted [OF r s assms(2-4), where h = h]) blast
  with assms(1) r show "post (snd (Authenticate sha (Some keys) (RateLimiter_Middleware get_limiter put_limiter RateLimitKey h) r s)) = v'"
    by (simp add: leaves_def)
qed

interpretation breakers: effects_beside "gw_env env" "\<lambda>s. (gw_catalog s, gw_scorer s, gw_limiter s)" "\<lambda>s. (gw_catalog s, gw_scorer s)" for env
  by unfold_locales (auto simp: gw_env_def split_beta Let_def)

lemma gw_env_beside: "effects_apart env k \<Longrightarrow> effects_beside (gw_env env) (behind k) (\<lambda>s. p (behind k s))"
  "effects_apart env k \<Longrightarrow> effects_beside (gw_env env) (at_edge k) (\<lambda>s. p (behind k s))"
  using gw_env_apart [of env k] by (auto simp: effects_beside_def effects_beside_axioms_def effects_apart_def)

lemma gateway_public_leaves:
  assumes "edge_open env k sha keys sched timeout c r s" "\<And>w. k (snd (sched w)) = k w"
    and "leaves (r\<lparr>Body := MaxBytesReader (2 ^ 20) (Body r)\<rparr>) (behind k) (behind k s) (\<lambda>s. p (behind k s)) v' inner"
  shows "p (behind k (snd (gateway_public env sz logger stack sha keys sched timeout inner r s))) = v'"
proof -
  let ?post = "\<lambda>s. p (behind k s)" and ?r = "r\<lparr>Body := MaxBytesReader (2 ^ 20) (Body r)\<rparr>"
  from assms(1) have e: "effects_apart env k" "unhurried env sched timeout" "live_ctx (Ctx r)" "known_as sha keys c r"
    "admits (gw_limiter s) c" "fl_now (gw_limiter s) = env_now env" by (simp_all add: edge_open_def)
  have now: "k (snd (fl_now (gw_limiter s) w)) = k w" for w unfolding e(6) by (rule effects_apart.now_apart [OF e(1)])
  have c: "known_as sha keys c ?r" using e(4) by (simp add: known_as_def)
  have "?post (snd (lift_sched sched s)) = ?post s" for s by (simp add: lift_sched_def behind_def assms(2) split_beta Let_def)
  then have "leaves ?r (behind k) (behind k s) ?post v' (Timeout (gw_env env) sz (lift_sched sched) timeout inner)"
    by (intro effects_beside.leaves_Timeout [OF gw_env_beside(1) [OF e(1)]] assms(3) gw_env_unhurried e(2))
  from leaves_admitted [OF this c e(5) now]
  have "leaves ?r (at_edge k) (at_edge k s) ?post v' (Authenticate sha (Some keys) (RateLimiter_Middleware get_limiter put_limiter
      RateLimitKey (Timeout (gw_env env) sz (lift_sched sched) timeout inner)))" by (simp add: at_edge_def)
  then have "leaves r (at_edge k) (at_edge k s) ?post v' (gateway_public env sz logger stack sha keys sched timeout inner)"
    unfolding gateway_public_def Chain_def by (simp add: effects_beside.leaves_stack [OF gw_env_beside(2) [OF e(1)]])
  moreover have "copy_of r r" using e(3) by (simp add: copy_of_def)
  ultimately show ?thesis by (simp add: leaves_def)
qed

end
