(* ===== verification/Platform.thy ===== *)
theory Platform
  imports Commands Scorer Chains
begin

text \<open>
  The services wired together. The transport of a client of the gateway is the service behind it: the
  catalog's mux and handlers, and the scorer's application, each run on the request that the client
  sends. \<open>enc\<close> is the JSON encoder of a service's answers. What a lookup and a scoring request give over
  these transports, and what the gateway's scoring route does with them.
\<close>

section \<open>The catalog behind the gateway\<close>

definition catalog_request :: "string \<Rightarrow> UpRequest \<Rightarrow> 'w Request" where
  "catalog_request base rq =
     (case Cut CHR ''?'' (drop (length base) (up_url rq)) of (path, query, _) \<Rightarrow>
        \<lparr>Method = up_method rq, Path = path, RawQuery = query, ReqHeader = up_header rq,
         Body = \<lparr>content = (case up_body rq of Some b \<Rightarrow> b | None \<Rightarrow> []), maxBytes = None\<rparr>, Pattern = [], PathValues = Map.empty,
         Ctx = \<lparr>std = \<lparr>ctx_Err = (\<lambda>_. None), ctx_Deadline = None\<rparr>, ctxRequestID = None, ctxLogger = None, ctxClientID = None, ctxSpan = None\<rparr>\<rparr>)"

text \<open>
  A service behind the network: its handler, run on the request. A run that does not return breaks the
  connection.
\<close>

definition service_transport ::
  "('v payload \<Rightarrow> string) \<Rightarrow> ('v, 'w) Handler \<Rightarrow> string \<Rightarrow> UpRequest \<Rightarrow> 'w \<Rightarrow> (go_error + HttpResponse) \<times> 'w" where
  "service_transport enc h base rq w =
     (let (x, w) = h (catalog_request base rq) w
      in (if ending x = Returned
          then Inr \<lparr>StatusCode = run_status x, resp_bytes = concat (map enc (run_bodies x)), resp_fault = None\<rparr>
          else Inl (ErrText ''EOF''), w))"

text \<open>What the catalog answers to a lookup with the correlation id \<open>rid\<close>, as a status and a body.\<close>

definition lookup_answer :: "string \<Rightarrow> go_error + Device \<Rightarrow> int \<times> catalog_json payload" where
  "lookup_answer rid res = (case res of
     Inr d \<Rightarrow> (200, JSON (DeviceJSON d))
   | Inl e \<Rightarrow> (404, ProblemBody \<lparr>Type = ''about:blank'', Title = ''Not Found'', Status = 404,
       Detail = ''No device is registered with that id.'', Code = ''device_not_found'', RequestID = rid\<rparr>))"

lemma StatusText_404: "StatusText 404 = ''Not Found''"
  by (simp add: StatusText_def status_texts_def)

lemma problem_404:
  "problem r 404 ''device_not_found'' ''No device is registered with that id.'' =
    \<lparr>Type = ''about:blank'', Title = ''Not Found'', Status = 404, Detail = ''No device is registered with that id.'',
     Code = ''device_not_found'', RequestID = RequestIDFrom (Ctx r)\<rparr>"
  by (simp add: problem_def StatusText_404)

lemma catalog_serves:
  assumes "idPattern i" "repo_Get (h_repo h) i (h_get h w) = (res, st)" "case res of Inr _ \<Rightarrow> True | Inl e \<Rightarrow> errors_Is e ErrNotFound"
    and "Method r = ''GET''" "Path r = ''/v1/devices/'' @ i"
  shows "serves r (h_get h) (h_get h w) (fst (lookup_answer rid res)) (\<lambda>rid. [snd (lookup_answer rid res)]) (ServeMux url (Catalog_Routes h))"
proof (rule servesI)
  fix q v
  assume q: "copy_of r q" "h_get h v = h_get h w"
  let ?q = "q\<lparr>Pattern := ''GET /v1/devices/{id}'', PathValues := [''id'' \<mapsto> i]\<rparr>"
  have n: "ToLower (h_uni h) (TrimSpace i) = i" "i \<noteq> []" using assms(1) by (auto simp: idPattern_normal)
  have m: "ServeMux url (Catalog_Routes h) q v = Catalog_Get h ?q v"
    by (rule mux_get_device [OF assms(1)]) (use q(1) assms(4,5) in \<open>simp_all add: copy_of_def\<close>)
  have "fst (Catalog_Get h ?q v) = (case res of Inr d \<Rightarrow> respond ?q (WriteJSON 200 (DeviceJSON d))
      | Inl e \<Rightarrow> respond ?q (WriteProblem ?q 404 ''device_not_found'' ''No device is registered with that id.''))"
    using assms(2,3) q(2) by (cases res) (simp_all add: Catalog_Get_def on_repo_def PathValue_def n writeRepoError_def Let_def)
  then show "ending (fst (ServeMux url (Catalog_Routes h) q v)) = Returned \<and>
      run_status (fst (ServeMux url (Catalog_Routes h) q v)) = fst (lookup_answer rid res) \<and>
      run_bodies (fst (ServeMux url (Catalog_Routes h) q v)) = [snd (lookup_answer (RequestIDFrom (Ctx q)) res)] \<and>
      quiet (ops (fst (ServeMux url (Catalog_Routes h) q v)))"
    unfolding m by (cases res) (simp_all add: lookup_answer_def problem_404, simp_all add: respond_def)
qed

text \<open>
  The catalog as the gateway sees it: its public chain, around its mux and its handlers. Its clock and its
  log are apart from its store, and it answers before its own deadline.
\<close>

definition catalog_service ::
  "('s, 'w) CatalogHandler \<Rightarrow> (catalog_json payload \<Rightarrow> int) \<Rightarrow> attrs \<Rightarrow> string \<Rightarrow> ('w \<Rightarrow> choice list \<times> 'w) \<Rightarrow> duration \<Rightarrow>
   (string \<Rightarrow> string \<Rightarrow> string) \<Rightarrow> (catalog_json, 'w) Handler" where
  "catalog_service h sz logger stack sched timeout url =
     catalog_public (h_env h) sz logger stack sched timeout (ServeMux url (Catalog_Routes h))"

definition catalog_up :: "('s, 'w) CatalogHandler \<Rightarrow> ('w \<Rightarrow> choice list \<times> 'w) \<Rightarrow> duration \<Rightarrow> bool" where
  "catalog_up h sched timeout \<longleftrightarrow> effects_apart (h_env h) (h_get h) \<and> unhurried (h_env h) sched timeout"

lemma catalog_lookup:
  fixes h :: "('s, 'w) CatalogHandler"
  assumes "catalog_up h sched timeout"
    and "idPattern i" "repo_Get (h_repo h) i (h_get h w) = (res, st)" "case res of Inr _ \<Rightarrow> True | Inl e \<Rightarrow> errors_Is e ErrNotFound"
    and "up_method rq = ''GET''" "up_url rq = base @ ''/v1/devices/'' @ i"
  obtains rid where "validRequestID (Header_Get (up_header rq) RequestIDHeader) \<Longrightarrow> rid = Header_Get (up_header rq) RequestIDHeader"
    "fst (service_transport enc (catalog_service h sz logger stack sched timeout url) base rq w) =
       Inr \<lparr>StatusCode = fst (lookup_answer rid res), resp_bytes = enc (snd (lookup_answer rid res)), resp_fault = None\<rparr>"
proof -
  let ?r = "catalog_request base rq :: 'w Request"
  let ?inner = "ServeMux url (Catalog_Routes h) :: (catalog_json, 'w) Handler"
  have "CHR ''?'' \<notin> set i" using idPattern_chars [OF assms(2)] id_rest_range by fastforce
  then have "Cut CHR ''?'' (''/v1/devices/'' @ i) = (''/v1/devices/'' @ i, [], False)" by (intro Cut_no_sep) simp
  then have r: "Method ?r = ''GET''" "Path ?r = ''/v1/devices/'' @ i" "ReqHeader ?r = up_header rq" "live_ctx (Ctx ?r)"
    by (simp_all add: catalog_request_def assms(5,6) live_ctx_def)
  have st: "fst (lookup_answer rid res) = fst (lookup_answer rid' res)" for rid rid' by (simp add: lookup_answer_def split: sum.split)
  have inner: "serves (?r\<lparr>Body := MaxBytesReader (256 * 2 ^ 10) (Body ?r)\<rparr>) (h_get h) (h_get h w) (fst (lookup_answer [] res))
      (\<lambda>rid. [snd (lookup_answer rid res)]) ?inner"
    by (rule catalog_serves [OF assms(2-4)]) (simp_all add: r)
  from assms(1) have up: "effects_apart (h_env h) (h_get h)" "unhurried (h_env h) sched timeout" by (simp_all add: catalog_up_def)
  show ?thesis
    by (rule catalog_public_serves [OF up inner r(4) refl, of sz logger stack])
      (rule that, use r(3) in \<open>auto simp: service_transport_def catalog_service_def split_beta Let_def intro: st\<close>)
qed

section \<open>The scorer behind the gateway\<close>

definition scorer_request :: "string \<Rightarrow> UpRequest \<Rightarrow> PyRequest" where
  "scorer_request base rq =
     (case Cut CHR ''?'' (drop (length base) (up_url rq)) of (path, query, _) \<Rightarrow>
        \<lparr>pr_method = up_method rq, pr_path = path, pr_headers = up_header rq,
         pr_body = (case up_body rq of Some b \<Rightarrow> b | None \<Rightarrow> [])\<rparr>)"

text \<open>\<open>crash\<close> is what the framework answers when the application raises.\<close>

definition scorer_transport ::
  "(scorer_body \<Rightarrow> string) \<Rightarrow> HttpResponse \<Rightarrow> 'w ScorerApp \<Rightarrow> ProbeState \<Rightarrow> string \<Rightarrow> UpRequest \<Rightarrow> 'w \<Rightarrow> (go_error + HttpResponse) \<times> 'w" where
  "scorer_transport enc crash app ps base rq w =
     (let (resp, w) = observability_middleware app ps (scorer_request base rq) w
      in (Inr (case resp of
            Some p \<Rightarrow> \<lparr>StatusCode = py_status p, resp_bytes = enc (py_body p), resp_fault = None\<rparr>
          | None \<Rightarrow> crash), w))"

lemma scorer_call:
  assumes "up_method rq = ''POST''" "up_url rq = base @ ''/v1/score''" "up_body rq = Some body"
    and "sa_decode app body = Some (dev, rs)" "ScoreRequest_ok dev rs"
    and "score_window rs (se_anomaly_threshold (sa_settings app)) = Inr res"
  shows "fst (scorer_transport enc crash app ps base rq w) =
    Inr (if sa_allow_nan app \<or> encodable res
         then \<lparr>StatusCode = 200, resp_bytes = enc (ScoreDict res dev), resp_fault = None\<rparr> else crash)"
proof -
  let ?q = "scorer_request base rq" and ?m = "fst (observability_middleware app ps (scorer_request base rq) w)"
  have "Cut CHR ''?'' ''/v1/score'' = (''/v1/score'', [], False)" by (intro Cut_no_sep) simp
  then have q: "pr_method ?q = ''POST''" "pr_path ?q = ''/v1/score''" "pr_body ?q = body"
    by (simp_all add: scorer_request_def assms(1-3))
  have "fst (score_endpoint app ?q v) =
      (if sa_allow_nan app \<or> encodable res then Some (json_response 200 (ScoreDict res dev)) else None)" for v
    unfolding score_endpoint_cases q using assms(4-6) by simp
  with score_request_status [OF q(1,2), of app ps w] have
    "map_option py_status ?m = (if sa_allow_nan app \<or> encodable res then Some 200 else None)"
    "map_option py_body ?m = (if sa_allow_nan app \<or> encodable res then Some (ScoreDict res dev) else None)"
    by (simp_all add: json_response_def)
  then show ?thesis by (cases ?m) (auto simp: scorer_transport_def split_beta Let_def split: if_splits)
qed

lemma idPattern_py_len: "idPattern i \<Longrightarrow> 1 \<le> py_len i \<and> py_len i \<le> 64"
proof -
  assume i: "idPattern i"
  have "\<not> (128 \<le> (of_char c :: nat) \<and> (of_char c :: nat) < 192)" if "c \<in> set i" for c
    using id_rest_range [OF idPattern_chars [OF i that]] by auto
  then have "py_len i = length i" unfolding py_len_def by (subst filter_True) auto
  then show ?thesis using idPattern_length [OF i] by simp
qed

section \<open>Where a result comes from\<close>

text \<open>A response that a call returns is one that an attempt has returned.\<close>

lemma lift_result [simp]: "snd (snd (lift f x)) = snd x"
  by (cases x; cases "fst x") (simp add: lift_def split_beta Let_def)

lemma do_config_Rand_result [simp]: "snd (snd (the (Rand (do_config net u ctx)) x)) = snd x"
  by (cases "Rand (up_retry u)") (simp_all add: withDefaults_effects lift_retry_def)

lemma do_config_Sleep_result [simp]: "snd (snd (the (Sleep (do_config net u ctx)) c d x)) = snd x"
  by (cases "Sleep (up_retry u)") (simp_all add: withDefaults_effects lift_retry_def sleepCtx_def split_beta Let_def)

lemma deadline_result [simp]: "snd (snd (deadline_within (lift f) ctx d x)) = snd x"
  by (simp add: deadline_within_def split_beta split: option.split)

lemma Upstream_do_attempted:
  assumes "\<And>k w r. fst (attempt (net_bad_url net) u rid m p bd hs k w) = Inr r \<Longrightarrow> R r"
    and "fst (Upstream_do net u ctx rid m p bd hs (b, w)) = Inr (Some r)"
  shows "R r"
proof -
  let ?f = "attempt (net_bad_url net) u rid m p bd hs" and ?P = "\<lambda>x :: 'a call. pred_option R (snd x)"
  have g: "?P (snd (guarded ctx ?f k x))" if "?P x" for k x
    using that assms(1) [of k] by (cases x) (auto simp: guarded_def split_beta Let_def split: option.split sum.split prod.split)
  have eff: "retry_effects (lift (env_now (net_env net))) (lift_ctx ctx) (do_config net u ctx) (guarded ctx ?f) ?P (\<lambda>_ _. True)"
    by unfold_locales (simp_all add: g do_config_OnRetry_keeps)
  obtain start w1 where n: "env_now (net_env net) w = (start, w1)" by (rule prod.exhaust)
  obtain err s1 result where d: "do_retry net u ctx ?f ((b, w1), None) = (err, (s1, result))" by (metis prod.exhaust)
  have "?P (snd (do_retry net u ctx ?f ((b, w1), None)))"
    unfolding do_retry_def Retry_def by (rule retry_effects.P_loop [OF eff]) simp
  moreover have "result = Some r"
    using assms(2) d by (cases s1) (auto simp: Upstream_do_def n Let_def split_beta split: option.splits if_splits)
  ultimately show ?thesis by (simp add: d)
qed


section \<open>The scoring route over an upstream\<close>

lemma catalog_Get_scorer [simp]: "gw_scorer (snd (catalog_Get g r p s)) = gw_scorer s"
  by (simp add: catalog_Get_def on_catalog_def split_beta Let_def)

lemma emit_scorer [simp]: "gw_scorer (emit g e s) = gw_scorer s"
  by (simp add: emit_def)

lemma fetchDevice_scorer [simp]: "gw_scorer (snd (fetchDevice g r i s)) = gw_scorer s"
  using catalog_Get_scorer [of g r "''/v1/devices/'' @ i" s]
  by (auto simp: fetchDevice_def split: prod.split sum.split option.split simp del: catalog_Get_scorer)

lemma fetchDevice_inv:
  assumes "gw_inv s" "fetchDevice g r i s = (res, s')"
  shows "res \<noteq> None" "gw_inv s'"
proof -
  obtain x s1 where c: "catalog_Get g r (''/v1/devices/'' @ i) s = (x, s1)" by (rule prod.exhaust)
  have "call_result (up_name (Catalog (gh_up g))) x \<and> gw_inv s1" by (rule catalog_Get_result [OF assms(1) c])
  then show "res \<noteq> None" "gw_inv s'"
    using assms(2) unfolding fetchDevice_def c by (auto simp: call_result_def split: sum.splits option.splits if_splits)
qed

lemma attempt_response:
  assumes "fst (attempt bad u rid m p bd hs k w) = Inr a"
  obtains rq resp w' where "up_url rq = up_baseURL u @ p" "up_client u rq w = (Inr resp, w')" "rsp_Status a = StatusCode resp"
proof -
  let ?rq = "\<lparr>up_method = m, up_url = up_baseURL u @ p, up_header = request_header rid bd hs k, up_body = bodyReader bd\<rparr>"
  obtain x w' where c: "up_client u ?rq w = (x, w')" by (rule prod.exhaust)
  then show ?thesis using that [of ?rq _ w'] assms by (auto simp: attempt_def c split: option.splits sum.splits if_splits)
qed

text \<open>The catalog knows a device when it never answers 404 to the request for it.\<close>

definition knows :: "('f, 'w) GatewayHandler \<Rightarrow> string \<Rightarrow> bool" where
  "knows g i \<longleftrightarrow> (\<forall>rq w resp. up_url rq = up_baseURL (Catalog (gh_up g)) @ ''/v1/devices/'' @ i \<longrightarrow>
     fst (up_client (Catalog (gh_up g)) rq w) = Inr resp \<longrightarrow> StatusCode resp \<noteq> 404)"

lemma knows_fetch:
  assumes "knows g i" "gw_inv s" "fetchDevice g r i s = (Some (Inl e), s')"
  shows "\<not> errors_Is e errDeviceNotFound"
proof -
  let ?u = "Catalog (gh_up g)" and ?p = "''/v1/devices/'' @ i"
  obtain x s1 where c: "catalog_Get g r ?p s = (x, s1)" by (rule prod.exhaust)
  have inv: "call_result (up_name ?u) x" using catalog_Get_result [OF assms(2) c] by blast
  have "rsp_Status resp \<noteq> 404" if "x = Inr (Some resp)" for resp
  proof (rule Upstream_do_attempted [where R = "\<lambda>resp. rsp_Status resp \<noteq> 404"])
    show "rsp_Status a \<noteq> 404" if "fst (attempt (net_bad_url (gh_net g)) ?u (RequestIDFrom (Ctx r)) ''GET'' ?p None (forwardHeaders r) k w) = Inr a" for k w a
      using attempt_response [OF that] assms(1) unfolding knows_def by (metis fst_conv)
    show "fst (Upstream_do (gh_net g) ?u (base_ctx s (std (Ctx r))) (RequestIDFrom (Ctx r)) ''GET'' ?p None (forwardHeaders r)
        (gw_catalog s, gw_base s)) = Inr (Some resp)"
      using c that by (auto simp: catalog_Get_def Upstream_Get_def on_catalog_def split_beta Let_def)
  qed
  then show ?thesis using assms(3) inv call_result_not_missing [of "up_name ?u"]
    unfolding fetchDevice_def c by (auto simp: errDeviceNotFound_def split: sum.splits option.splits if_splits)
qed

text \<open>The scoring route, as far as the call of the scorer.\<close>

lemma ScoreReading_degrading:
  assumes "scorable g r req" "degradeOnCatalogFailure g" "gw_inv s" "knows g (sr_DeviceID req)"
  obtains dev deg reason s1 where "ScoreReading g r s = score_with g r req dev deg reason s1" "gw_inv s1" "gw_scorer s1 = gw_scorer s"
proof -
  obtain x s1 where f: "fetchDevice g r (sr_DeviceID req) s = (x, s1)" by (rule prod.exhaust)
  have s1: "x \<noteq> None" "gw_inv s1" "gw_scorer s1 = gw_scorer s"
    using fetchDevice_inv [OF assms(3) f] fetchDevice_scorer [of g r "sr_DeviceID req" s] f by simp_all
  have e: "ScoreReading g r s = (case x of None \<Rightarrow> (panics r [] nil_panic, s1) | Some (Inr device) \<Rightarrow> score_with g r req device False [] s1
      | Some (Inl err) \<Rightarrow> score_with g r req [] True ''device metadata unavailable''
          (emit g (Log LevelWarn ''serving degraded score without device enrichment'' (LoggerFrom (Ctx r) @ [(''error'', AError err)])) s1))"
    using assms(1,2) knows_fetch [OF assms(4,3), of r _ s1] f
    by (auto simp: ScoreReading_def scorable_def split: option.split sum.split)
  show ?thesis using that s1 by (cases x; cases "the x") (auto simp: e)
qed

lemma ScoreReading_enriched:
  assumes "scorable g r req" "fetchDevice g r (sr_DeviceID req) s = (Some (Inr device), s1)"
  shows "ScoreReading g r s = score_with g r req device False [] s1"
  using assms by (simp add: ScoreReading_def scorable_def)


section \<open>A scorer that answers, and one that does not\<close>

lemma scorer_Post_do:
  assumes "Upstream_do (gh_net g) (Scorer (gh_up g)) (base_ctx s (std (Ctx r))) (RequestIDFrom (Ctx r)) ''POST'' p (Some body)
      (forwardHeaders r) (gw_scorer s, gw_base s) = (res, (b, w))"
  shows "scorer_Post g r p body s = (res, s\<lparr>gw_scorer := b, gw_base := w\<rparr>)"
  using assms by (simp add: scorer_Post_def Upstream_Post_def on_scorer_def)

lemma score_with_up:
  assumes "up_client (Scorer (gh_up g)) = scorer_transport enc crash app ps (up_baseURL (Scorer (gh_up g)))"
    and "\<And>m p. net_bad_url (gh_net g) m p = None" "state (gw_scorer s) = StateClosed" "\<And>s. ctx_Err (std (Ctx r)) s = None"
    and "gh_marshal g i rs = Inr body" "sa_decode app body = Some (i, rs)" "ScoreRequest_ok i rs"
    and "score_window rs (se_anomaly_threshold (sa_settings app)) = Inr res" "encodable res"
    and "length (enc (ScoreDict res i)) < 4 * 2 ^ 20" "gh_score g (enc (ScoreDict res i)) = Inr (score, anomaly)"
    and "device = [] \<or> gh_valid g device"
  shows "fst (score_with g r \<lparr>sr_DeviceID = i, sr_Readings = rs\<rparr> device degraded reason s) =
    respond r (WriteJSON 200 (ScoreJSON \<lparr>resp_DeviceID = i, resp_Score = score, resp_Anomaly = anomaly,
      resp_Device = device, resp_Degraded = degraded, resp_Reason = reason\<rparr>))"
proof -
  let ?u = "Scorer (gh_up g)" and ?ans = "\<lparr>rsp_Status = 200, rsp_Body = enc (ScoreDict res i)\<rparr>"
  have "fst (attempt (net_bad_url (gh_net g)) ?u (RequestIDFrom (Ctx r)) ''POST'' ''/v1/score'' (Some body) (forwardHeaders r) 1 w) = Inr ?ans" for w
  proof -
    let ?rq = "\<lparr>up_method = ''POST'', up_url = up_baseURL ?u @ ''/v1/score'',
      up_header = request_header (RequestIDFrom (Ctx r)) (Some body) (forwardHeaders r) 1, up_body = bodyReader (Some body)\<rparr>"
    have "fst (up_client ?u ?rq w) = Inr \<lparr>StatusCode = 200, resp_bytes = enc (ScoreDict res i), resp_fault = None\<rparr>"
      unfolding assms(1) by (subst scorer_call) (use assms(6-9) in \<open>auto simp: bodyReader_def\<close>)
    then show ?thesis unfolding attempt_def assms(2) using assms(10) by (auto simp: ReadLimited_def split: prod.split)
  qed
  then have "fst (Upstream_do (gh_net g) ?u (base_ctx s (std (Ctx r))) (RequestIDFrom (Ctx r)) ''POST'' ''/v1/score'' (Some body)
      (forwardHeaders r) (gw_scorer s, gw_base s)) = Inr (Some ?ans)"
    by (intro Upstream_do_steady) (simp_all add: assms(3,4) base_ctx_def)
  then obtain b w where "scorer_Post g r ''/v1/score'' body s = (Inr (Some ?ans), s\<lparr>gw_scorer := b, gw_base := w\<rparr>)"
    using scorer_Post_do [of g s r "''/v1/score''" body] by (metis prod.collapse)
  then show ?thesis using assms(5,11,12) by (auto simp: score_with_def write_score_def)
qed

text \<open>With a call of the scorer that fails, there is no score.\<close>

lemma score_with_fails:
  assumes "gh_marshal g (sr_DeviceID req) (sr_Readings req) = Inr body" "scorer_Post g r ''/v1/score'' body s = (Inl e, s')"
  shows "run_status (fst (score_with g r req device degraded reason s)) = 503" "gw_scorer (snd (score_with g r req device degraded reason s)) = gw_scorer s'"
  using assms by (simp_all add: score_with_def)

lemma poisoned_score:
  assumes "failing c t0 j (gw_scorer s)" "clock_within (the (Now c)) t0 d" "short_for c d" "config_ok c" "gw_inv s"
    and "\<And>k w. \<exists>e. fst (attempt (net_bad_url (gh_net g)) (Scorer (gh_up g)) (RequestIDFrom (Ctx r)) ''POST'' ''/v1/score'' (Some body)
        (forwardHeaders r) k w) = Inl e"
    and "\<And>s. ctx_Err (std (Ctx r)) s = None" "gh_marshal g (sr_DeviceID req) (sr_Readings req) = Inr body"
  shows "run_status (fst (score_with g r req device degraded reason s)) = 503"
    and "failing c t0 (j + 1) (gw_scorer (snd (score_with g r req device degraded reason s)))"
proof -
  let ?u = "Scorer (gh_up g)" and ?ctx = "base_ctx s (std (Ctx r))"
  obtain res b w where o: "Upstream_do (gh_net g) ?u ?ctx (RequestIDFrom (Ctx r)) ''POST'' ''/v1/score'' (Some body)
      (forwardHeaders r) (gw_scorer s, gw_base s) = (res, (b, w))" by (metis prod.exhaust)
  note p = scorer_Post_do [OF o]
  have "call_result (up_name ?u) res" using scorer_Post_result [OF assms(5) p] by blast
  moreover have "res \<noteq> Inr (Some a)" for a
  proof
    assume "res = Inr (Some a)"
    with o have r: "fst (Upstream_do (gh_net g) ?u ?ctx (RequestIDFrom (Ctx r)) ''POST'' ''/v1/score'' (Some body)
        (forwardHeaders r) (gw_scorer s, gw_base s)) = Inr (Some a)" by simp
    show False
    proof (rule Upstream_do_attempted [OF _ r])
      fix k w a'
      assume "fst (attempt (net_bad_url (gh_net g)) ?u (RequestIDFrom (Ctx r)) ''POST'' ''/v1/score'' (Some body) (forwardHeaders r) k w) = Inr a'"
      then show False using assms(6) [of k w] by (elim exE) simp
    qed
  qed
  ultimately obtain e where e: "res = Inl e" by (auto simp: call_result_def split: sum.splits option.splits)
  have "ctx_Err ?ctx w = None" for w using assms(7) by (simp add: base_ctx_def)
  from Upstream_do_failing [OF assms(1-4,6) this, of "gw_base s"] o have "failing c t0 (j + 1) b" by simp
  then show "run_status (fst (score_with g r req device degraded reason s)) = 503"
    "failing c t0 (j + 1) (gw_scorer (snd (score_with g r req device degraded reason s)))"
    using score_with_fails [OF assms(8) p [unfolded e]] by simp_all
qed

text \<open>While the breaker of the scorer is open, no request is answered with a score, whoever sends it.\<close>

lemma open_scorer_no_score:
  assumes "failing c t0 j (gw_scorer s)" "state (gw_scorer s) = StateOpen" "clock_within (the (Now c)) t0 d" "short_for c d" "config_ok c"
    and "gw_inv s" "\<And>s. ctx_Err (std (Ctx r)) s = None"
  shows "run_status (fst (ScoreReading g r s)) \<in> {400, 404, 500, 503}"
proof -
  have sw: "run_status (fst (score_with g r req device degraded reason s1)) \<in> {500, 503}" if "gw_scorer s1 = gw_scorer s" for req device degraded reason s1
  proof (cases "gh_marshal g (sr_DeviceID req) (sr_Readings req)")
    case (Inr body)
    let ?do = "Upstream_do (gh_net g) (Scorer (gh_up g)) (base_ctx s1 (std (Ctx r))) (RequestIDFrom (Ctx r)) ''POST'' ''/v1/score'' (Some body)
        (forwardHeaders r) (gw_scorer s1, gw_base s1)"
    have "fst ?do = Inl (Wrapf [] ErrUpstreamUnavailable ('': '' @ up_name (Scorer (gh_up g)) @ '' breaker open''))"
      by (rule Upstream_do_shut(1) [OF _ assms(3-5)])
        (use failing_shut [OF assms(1,2)] assms(7) that in \<open>simp_all add: base_ctx_def\<close>)
    then obtain e b w where "?do = (Inl e, (b, w))" by (metis prod.collapse)
    then show ?thesis using score_with_fails(1) [OF Inr scorer_Post_do] by blast
  qed (simp add: score_with_def)
  show ?thesis
  proof (cases "\<exists>req. scorable g r req")
    case True
    then obtain req where req: "scorable g r req" by blast
    obtain x s1 where f: "fetchDevice g r (sr_DeviceID req) s = (x, s1)" by (rule prod.exhaust)
    have s1: "x \<noteq> None" "gw_scorer s1 = gw_scorer s"
      using fetchDevice_inv(1) [OF assms(6) f] fetchDevice_scorer [of g r "sr_DeviceID req" s] f by simp_all
    then show ?thesis using req sw [of s1] sw [of "emit g e s1" for e]
      by (cases x; cases "the x") (auto simp: ScoreReading_def scorable_def f)
  next
    case False
    then show ?thesis by (auto simp: ScoreReading_def scorable_def not_less split: sum.split)
  qed
qed


section \<open>Windows that the scorer cannot answer\<close>

text \<open>
  A request that passes every check of both services, for a device the catalog knows, and whose score is
  not a number: the JSON functions carry the readings from the gateway's request to the scorer's.
\<close>

definition poison :: "(float64, 'w) GatewayHandler \<Rightarrow> 'w ScorerApp \<Rightarrow> 'w gateway Request \<Rightarrow> bool" where
  "poison g app r \<longleftrightarrow> (\<exists>i bs x body. gh_decode g (Body r) = Inr \<lparr>sr_DeviceID = i, sr_Readings = map Finite (bs @ [x])\<rparr> \<and>
     8 \<le> length bs \<and> length bs < 4096 \<and> even (length bs) \<and> list_all oversized bs \<and>
     gh_marshal g i (map Finite (bs @ [x])) = Inr body \<and> sa_decode app body = Some (i, map Finite (bs @ [x])) \<and>
     1 \<le> py_len i \<and> py_len i \<le> 64 \<and> knows g i \<and> (\<forall>s. ctx_Err (std (Ctx r)) s = None))"

text \<open>Requests to the scoring route, one after the other: the answers and the state they leave.\<close>

fun score_all :: "('f, 'w) GatewayHandler \<Rightarrow> 'w gateway Request list \<Rightarrow> 'w gateway \<Rightarrow> 'f gateway_json run list \<times> 'w gateway" where
  "score_all g [] s = ([], s)"
| "score_all g (r # rs) s = (let (x, s) = ScoreReading g r s; (xs, s) = score_all g rs s in (x # xs, s))"

lemma py_len_le: "py_len i \<le> length i"
  by (simp add: py_len_def)

lemma poison_step:
  assumes "failing c t0 j (gw_scorer s)" "clock_within (the (Now c)) t0 d" "short_for c d" "config_ok c" "gw_inv s"
    and "up_client (Scorer (gh_up g)) = scorer_transport enc crash app ps (up_baseURL (Scorer (gh_up g)))"
    and "500 \<le> StatusCode crash" "\<not> sa_allow_nan app" "degradeOnCatalogFailure g" "poison g app r"
  shows "run_status (fst (ScoreReading g r s)) = 503" "failing c t0 (j + 1) (gw_scorer (snd (ScoreReading g r s)))"
proof -
  let ?u = "Scorer (gh_up g)"
  obtain i bs x body where p: "gh_decode g (Body r) = Inr \<lparr>sr_DeviceID = i, sr_Readings = map Finite (bs @ [x])\<rparr>"
    "8 \<le> length bs" "length bs < 4096" "even (length bs)" "list_all oversized bs" "gh_marshal g i (map Finite (bs @ [x])) = Inr body"
    "sa_decode app body = Some (i, map Finite (bs @ [x]))" "1 \<le> py_len i" "py_len i \<le> 64" "knows g i" "\<And>s. ctx_Err (std (Ctx r)) s = None"
    using assms(10) unfolding poison_def by blast
  let ?rs = "map Finite (bs @ [x])" and ?t = "se_anomaly_threshold (sa_settings app)"
  have "i \<noteq> []" using p(8) py_len_le [of i] by auto
  then have sc: "scorable g r \<lparr>sr_DeviceID = i, sr_Readings = ?rs\<rparr>" using p(1-3) by (simp add: scorable_def decodeJSON_def maxReadings_def)
  have ok: "ScoreRequest_ok i ?rs" using p(3,8,9) by (simp add: ScoreRequest_ok_def list_all_iff MAX_WINDOW_def)
  obtain res where res: "score_window ?rs ?t = Inr res" "sc_score res = NaN"
    using overflow_score_nan [OF p(2-4), of x ?t] p(5) unfolding list_all_iff by blast
  then have "\<not> encodable res" by (simp add: encodable_def)
  then have "fst (up_client ?u \<lparr>up_method = ''POST'', up_url = up_baseURL ?u @ ''/v1/score'',
      up_header = request_header rid (Some body) hs k, up_body = bodyReader (Some body)\<rparr> w) = Inr crash" for rid hs k w
    unfolding assms(6) using assms(8) p(7) ok res(1) by (subst scorer_call) (auto simp: bodyReader_def)
  then have fails: "\<exists>e. fst (attempt (net_bad_url (gh_net g)) ?u rid ''POST'' ''/v1/score'' (Some body) hs k w) = Inl e" for rid hs k w
    using assms(7) unfolding attempt_def by (auto split: option.split prod.split sum.split) (metis fst_conv old.sum.inject(2))+
  obtain dev deg reason s1 where e: "ScoreReading g r s = score_with g r \<lparr>sr_DeviceID = i, sr_Readings = ?rs\<rparr> dev deg reason s1"
    and s1: "gw_inv s1" "gw_scorer s1 = gw_scorer s"
    by (rule ScoreReading_degrading [OF sc assms(9,5)]) (use p(10) in auto)
  show "run_status (fst (ScoreReading g r s)) = 503" "failing c t0 (j + 1) (gw_scorer (snd (ScoreReading g r s)))"
    unfolding e by (rule poisoned_score [OF _ assms(2-4) s1(1) fails p(11)]; use assms(1) s1(2) p(6) in simp)+
qed


lemma poison_run:
  assumes "failing c t0 j (gw_scorer s)" "clock_within (the (Now c)) t0 d" "short_for c d" "config_ok c" "gw_inv s"
    and "up_client (Scorer (gh_up g)) = scorer_transport enc crash app ps (up_baseURL (Scorer (gh_up g)))"
    and "500 \<le> StatusCode crash" "\<not> sa_allow_nan app" "degradeOnCatalogFailure g" "list_all (poison g app) rs"
    and "score_all g rs s = (xs, s')"
  shows "list_all (\<lambda>x. run_status x = 503) xs \<and> failing c t0 (j + int (length rs)) (gw_scorer s') \<and> gw_inv s'"
  using assms(1,5,10,11)
proof (induction rs arbitrary: j s xs s')
  case (Cons r rs)
  obtain x s1 where 1: "ScoreReading g r s = (x, s1)" by (rule prod.exhaust)
  obtain xs' s2 where 2: "score_all g rs s1 = (xs', s2)" by (rule prod.exhaust)
  have p: "poison g app r" "list_all (poison g app) rs" and e: "xs = x # xs'" "s' = s2" using Cons.prems(3,4) 1 2 by simp_all
  have "run_status x = 503" "failing c t0 (j + 1) (gw_scorer s1)"
    using poison_step [OF Cons.prems(1) assms(2-4) Cons.prems(2) assms(6-9) p(1)] 1 by simp_all
  moreover have "gw_inv s1" using ScoreReading_settled [OF Cons.prems(2) 1] by blast
  ultimately show ?case using Cons.IH [OF _ _ p(2) 2, of "j + 1"] by (simp add: e add.assoc)
qed simp

section \<open>A lookup and a score\<close>

text \<open>The catalog is behind its client, and the client's breaker is closed.\<close>

definition catalog_reached ::
  "('f, 'w) GatewayHandler \<Rightarrow> 'w gateway \<Rightarrow> (catalog_json payload \<Rightarrow> string) \<Rightarrow> (catalog_json, 'w) Handler \<Rightarrow> bool" where
  "catalog_reached g s enc service \<longleftrightarrow>
     up_client (Catalog (gh_up g)) = service_transport enc service (up_baseURL (Catalog (gh_up g))) \<and>
     (\<forall>m p. net_bad_url (gh_net g) m p = None) \<and>
     state (gw_catalog s) = StateClosed \<and> Now (cfg (gw_catalog s)) = Some (env_now (net_env (gh_net g)))"

lemma lookup_up:
  assumes "catalog_reached g s enc (catalog_service h sz logger stack sched timeout url)" "catalog_up h sched timeout"
    and "\<And>w. h_get h (snd (env_now (net_env (gh_net g)) w)) = h_get h w" "live_ctx (Ctx r)"
    and "idPattern i" "repo_Get (h_repo h) i (h_get h (gw_base s)) = (res, st)"
    and "case res of Inr _ \<Rightarrow> True | Inl e \<Rightarrow> errors_Is e ErrNotFound" "\<And>rid. length (enc (snd (lookup_answer rid res))) < 4 * 2 ^ 20"
  obtains rid s1 where "catalog_Get g r (''/v1/devices/'' @ i) s =
    (Inr (Some \<lparr>rsp_Status = fst (lookup_answer rid res), rsp_Body = enc (snd (lookup_answer rid res))\<rparr>), s1)"
proof -
  let ?u = "Catalog (gh_up g)" and ?net = "gh_net g" and ?hs = "forwardHeaders r"
  let ?ans = "\<lambda>rid. \<lparr>rsp_Status = fst (lookup_answer rid res), rsp_Body = enc (snd (lookup_answer rid res))\<rparr>"
  let ?Q = "\<lambda>w. h_get h w = h_get h (gw_base s)" and ?R = "\<lambda>a. \<exists>rid. a = ?ans rid"
  from assms(1) have c: "up_client ?u = service_transport enc (catalog_service h sz logger stack sched timeout url) (up_baseURL ?u)"
    "\<And>m p. net_bad_url ?net m p = None" "state (gw_catalog s) = StateClosed" "Now (cfg (gw_catalog s)) = Some (env_now (net_env ?net))"
    by (simp_all add: catalog_reached_def)
  have st: "fst (lookup_answer rid res) = 200 \<or> fst (lookup_answer rid res) = 404" for rid by (simp add: lookup_answer_def split: sum.split)
  have att: "\<exists>a. ?R a \<and> fst (attempt (net_bad_url ?net) ?u (RequestIDFrom (Ctx r)) ''GET'' (''/v1/devices/'' @ i) None ?hs 1 w) = Inr a" if "?Q w" for w
  proof -
    let ?rq = "\<lparr>up_method = ''GET'', up_url = up_baseURL ?u @ ''/v1/devices/'' @ i,
      up_header = request_header (RequestIDFrom (Ctx r)) None ?hs 1, up_body = bodyReader None\<rparr>"
    have "repo_Get (h_repo h) i (h_get h w) = (res, st)" using assms(6) that by simp
    then obtain rid where "fst (up_client ?u ?rq w) =
        Inr \<lparr>StatusCode = fst (lookup_answer rid res), resp_bytes = enc (snd (lookup_answer rid res)), resp_fault = None\<rparr>"
      unfolding c(1) by (rule catalog_lookup [OF assms(2,5) _ assms(7), of w st ?rq "up_baseURL ?u" enc sz logger stack url]) simp_all
    then obtain w' where "up_client ?u ?rq w =
        (Inr \<lparr>StatusCode = fst (lookup_answer rid res), resp_bytes = enc (snd (lookup_answer rid res)), resp_fault = None\<rparr>, w')"
      by (metis prod.collapse)
    then show ?thesis unfolding attempt_def c(2) using st [of rid] assms(8) [of rid] by (auto simp: ReadLimited_def)
  qed
  show ?thesis
  proof (rule Upstream_do_up [where Q = ?Q and R = ?R and net = ?net and u = ?u and m = "''GET''" and p = "''/v1/devices/'' @ i"
        and b = None and hs = ?hs and rid = "RequestIDFrom (Ctx r)" and ctx = "base_ctx s (std (Ctx r))" and ?b0.0 = "gw_catalog s" and w = "gw_base s"])
    fix a
    assume "?R a" "fst (Upstream_do ?net ?u (base_ctx s (std (Ctx r))) (RequestIDFrom (Ctx r)) ''GET'' (''/v1/devices/'' @ i) None ?hs
      (gw_catalog s, gw_base s)) = Inr (Some a)"
    then show thesis using that by (auto simp: catalog_Get_def Upstream_Get_def on_catalog_def split_beta Let_def)
  qed (use assms(3,4) att c(3,4) in \<open>simp_all add: base_ctx_def live_ctx_def\<close>)
qed

lemma fetch_up:
  assumes "catalog_reached g s enc (catalog_service h sz logger stack sched timeout url)" "catalog_up h sched timeout"
    and "\<And>w. h_get h (snd (env_now (net_env (gh_net g)) w)) = h_get h w" "live_ctx (Ctx r)"
    and "idPattern i" "repo_Get (h_repo h) i (h_get h (gw_base s)) = (Inr d, st)" "length (enc (JSON (DeviceJSON d))) < 4 * 2 ^ 20"
  shows "\<exists>s1. fetchDevice g r i s = (Some (Inr (enc (JSON (DeviceJSON d)))), s1)"
proof -
  obtain rid s1 where "catalog_Get g r (''/v1/devices/'' @ i) s =
      (Inr (Some \<lparr>rsp_Status = fst (lookup_answer rid (Inr d)), rsp_Body = enc (snd (lookup_answer rid (Inr d)))\<rparr>), s1)"
    by (rule lookup_up [OF assms(1-6)]) (use assms(7) in \<open>simp_all add: lookup_answer_def\<close>)
  then show ?thesis unfolding fetchDevice_def by (simp add: lookup_answer_def)
qed

lemma moderate_scored:
  assumes "xs \<noteq> []" "length xs \<le> 4096" "\<And>x. x \<in> set xs \<Longrightarrow> moderate x" "\<bar>t\<bar> < 2 ^ 1024"
  obtains res where "score_window (map Finite xs) (Finite t) = Inr res" "encodable res"
    "\<exists>score. sc_score res = Finite score \<and> 0 \<le> score \<and> score \<le> 1000"
proof -
  obtain r s m d where "score_window (map Finite xs) (Finite t) = Inr r" "sc_score r = Finite s" "0 \<le> s" "s \<le> 1000"
    "sc_median r = Finite m" "sc_dispersion r = Finite d"
    using moderate_window [OF assms] by blast
  then show ?thesis using that by (simp add: encodable_def)
qed

section \<open>The routes of the gateway\<close>

lemma clean_gateway_path:
  assumes "idPattern i"
  shows "cleanPath (''/api/v1/devices/'' @ i) = ''/api/v1/devices/'' @ i"
    "path_segs (''/api/v1/devices/'' @ i) = [''api'', ''v1'', ''devices'', i]"
proof -
  have ns: "CHR ''/'' \<notin> set i" using idPattern_chars [OF assms] id_rest_not_slash by blast
  have sp: "Split CHR ''/'' (''/api/v1/devices/'' @ i) = [[], ''api'', ''v1'', ''devices'', i]" by (simp add: Split_no_sep [OF ns])
  have i: "i \<noteq> []" "i \<noteq> ''.''" "i \<noteq> ''..''" using assms by (auto simp: idPattern_def id_first_def)
  have "last i \<noteq> CHR ''/''" using last_in_set [OF i(1)] ns by metis
  with i show "cleanPath (''/api/v1/devices/'' @ i) = ''/api/v1/devices/'' @ i"
    "path_segs (''/api/v1/devices/'' @ i) = [''api'', ''v1'', ''devices'', i]"
    unfolding cleanPath_def path_segs_def sp by simp_all
qed

lemma mux_gateway_device:
  assumes "idPattern i" "Method r = ''GET''" "Path r = ''/api/v1/devices/'' @ i"
  shows "ServeMux url (Gateway_Routes g) r s =
    GetDevice g (r\<lparr>Pattern := ''GET /api/v1/devices/{id}'', PathValues := [''id'' \<mapsto> i]\<rparr>) s"
proof -
  have "i \<noteq> []" using assms(1) by (auto simp: idPattern_normal)
  then show ?thesis
    unfolding ServeMux_def find_route_def Gateway_Routes_def assms(2,3) clean_gateway_path [OF assms(1)] Let_def
    by (simp add: method_ok_def split_beta)
qed

lemma mux_gateway_score:
  assumes "Method r = ''POST''" "Path r = ''/api/v1/readings/score''"
  shows "ServeMux url (Gateway_Routes g) r s =
    ScoreReading g (r\<lparr>Pattern := ''POST /api/v1/readings/score'', PathValues := Map.empty\<rparr>) s"
proof -
  have "cleanPath ''/api/v1/readings/score'' = ''/api/v1/readings/score''"
    "path_segs ''/api/v1/readings/score'' = [''api'', ''v1'', ''readings'', ''score'']" by code_simp+
  then show ?thesis unfolding ServeMux_def find_route_def Gateway_Routes_def assms Let_def by (simp add: method_ok_def split_beta)
qed

text \<open>A lookup and a score through the routes, whatever copy of the request reaches them.\<close>

definition lookup_bodies :: "(catalog_json payload \<Rightarrow> string) \<Rightarrow> go_error + Device \<Rightarrow> string \<Rightarrow> 'v payload list" where
  "lookup_bodies enc res rid = (case res of
     Inr d \<Rightarrow> [Raw (enc (JSON (DeviceJSON d)))]
   | Inl e \<Rightarrow> [ProblemBody \<lparr>Type = ''about:blank'', Title = ''Not Found'', Status = 404,
       Detail = ''No device is registered with that id.'', Code = ''device_not_found'', RequestID = rid\<rparr>])"

lemma behind_reached:
  "behind k s' = behind k s \<Longrightarrow> catalog_reached g s enc service \<Longrightarrow> catalog_reached g s' enc service"
  by (simp add: catalog_reached_def behind_def)

lemma device_serves:
  assumes "catalog_reached g s enc (catalog_service h sz logger stack sched timeout url)" "catalog_up h sched timeout"
    and "\<And>w. h_get h (snd (env_now (net_env (gh_net g)) w)) = h_get h w"
    and "Method r = ''GET''" "Path r = ''/api/v1/devices/'' @ i" "idPattern i"
    and "repo_Get (h_repo h) i (h_get h (gw_base s)) = (res, st)" "case res of Inr _ \<Rightarrow> True | Inl e \<Rightarrow> errors_Is e ErrNotFound"
    and "\<And>rid p. snd (lookup_answer rid res) = ProblemBody p \<Longrightarrow> gh_problem g (enc (ProblemBody p)) = Inr p"
    and "\<And>rid. length (enc (snd (lookup_answer rid res))) < 4 * 2 ^ 20"
  shows "serves r (behind (h_get h)) (behind (h_get h) s) (fst (lookup_answer [] res)) (lookup_bodies enc res) (ServeMux url' (Gateway_Routes g))"
proof (rule servesI)
  fix q v
  assume q: "copy_of r q" "behind (h_get h) v = behind (h_get h) s"
  let ?q = "q\<lparr>Pattern := ''GET /api/v1/devices/{id}'', PathValues := [''id'' \<mapsto> i]\<rparr>"
  let ?x = "fst (ServeMux url' (Gateway_Routes g) q v)"
  have "live_ctx (Ctx ?q)" "h_get h (gw_base v) = h_get h (gw_base s)" using q by (simp_all add: copy_of_def behind_def)
  then obtain rid v1 where c: "catalog_Get g ?q (''/v1/devices/'' @ i) v =
      (Inr (Some \<lparr>rsp_Status = fst (lookup_answer rid res), rsp_Body = enc (snd (lookup_answer rid res))\<rparr>), v1)"
    using lookup_up [OF behind_reached [OF q(2) assms(1)] assms(2,3) _ assms(6) _ assms(8,10), of ?q st] assms(7) by metis
  have i: "i \<noteq> []" "PathValue ?q ''id'' = i" using assms(6) by (auto simp: idPattern_normal PathValue_def)
  have "ServeMux url' (Gateway_Routes g) q v = GetDevice g ?q v"
    by (rule mux_gateway_device [OF assms(6)]) (use q(1) assms(4,5) in \<open>simp_all add: copy_of_def\<close>)
  then have x: "ServeMux url' (Gateway_Routes g) q v =
      proxy_result g ?q (Inr (Some \<lparr>rsp_Status = fst (lookup_answer rid res), rsp_Body = enc (snd (lookup_answer rid res))\<rparr>), v1)"
    unfolding GetDevice_def i(2) Let_def proxy_def c using i(1) by simp
  show "ending ?x = Returned \<and> run_status ?x = fst (lookup_answer [] res) \<and> run_bodies ?x = lookup_bodies enc res (RequestIDFrom (Ctx q)) \<and> quiet (ops ?x)"
  proof (cases res)
    case (Inr d)
    then show ?thesis unfolding x
      by (simp add: proxy_result_def lookup_answer_def lookup_bodies_def run_status_def run_bodies_def respond_def reply_of_def new_reply_def
          reply_status_def bodyAllowed_def)
  next
    case (Inl e)
    then show ?thesis unfolding x using assms(9)
      by (simp add: proxy_result_def lookup_answer_def lookup_bodies_def relayUpstreamError_def relayed_def problem_404, simp add: respond_def)
  qed
qed

text \<open>The verdict for a window, with the device of the catalog in it.\<close>

definition scored :: "string \<Rightarrow> ScoreResult \<Rightarrow> string \<Rightarrow> float64 gateway_json payload" where
  "scored i res device = JSON (ScoreJSON \<lparr>resp_DeviceID = i, resp_Score = sc_score res, resp_Anomaly = sc_anomaly res,
     resp_Device = device, resp_Degraded = False, resp_Reason = []\<rparr>)"

text \<open>
  The codecs on the way of a window to the scorer and of its verdict back: the request is the window, the scorer
  reads what the gateway writes, and the gateway reads the verdict that the scorer writes.
\<close>

definition codecs_carry ::
  "(float64, 'w) GatewayHandler \<Rightarrow> 'w ScorerApp \<Rightarrow> (scorer_body \<Rightarrow> string) \<Rightarrow> ReqBody \<Rightarrow> string \<Rightarrow> float64 list \<Rightarrow> bool" where
  "codecs_carry g app encS b i rs \<longleftrightarrow>
     gh_decode g b = Inr \<lparr>sr_DeviceID = i, sr_Readings = rs\<rparr> \<and>
     (\<exists>body. gh_marshal g i rs = Inr body \<and> sa_decode app body = Some (i, rs)) \<and>
     (\<forall>res. score_window rs (se_anomaly_threshold (sa_settings app)) = Inr res \<longrightarrow>
        gh_score g (encS (ScoreDict res i)) = Inr (sc_score res, sc_anomaly res) \<and> length (encS (ScoreDict res i)) < 4 * 2 ^ 20)"

definition scorer_reached ::
  "('f, 'w) GatewayHandler \<Rightarrow> 'w gateway \<Rightarrow> (scorer_body \<Rightarrow> string) \<Rightarrow> HttpResponse \<Rightarrow> 'w ScorerApp \<Rightarrow> ProbeState \<Rightarrow> bool" where
  "scorer_reached g s encS crash app ps \<longleftrightarrow>
     up_client (Scorer (gh_up g)) = scorer_transport encS crash app ps (up_baseURL (Scorer (gh_up g))) \<and> state (gw_scorer s) = StateClosed"

lemma score_serves:
  assumes "catalog_reached g s enc (catalog_service h sz logger stack sched timeout url)" "catalog_up h sched timeout"
    and "scorer_reached g s encS crash app ps"
    and "\<And>w. h_get h (snd (env_now (net_env (gh_net g)) w)) = h_get h w"
    and "Method r = ''POST''" "Path r = ''/api/v1/readings/score''" "codecs_carry g app encS (Body r) i (map Finite xs)"
    and "idPattern i" "repo_Get (h_repo h) i (h_get h (gw_base s)) = (Inr dev, st)"
    and "xs \<noteq> []" "length xs \<le> 4096" "score_window (map Finite xs) (se_anomaly_threshold (sa_settings app)) = Inr res" "encodable res"
    and "length (enc (JSON (DeviceJSON dev))) < 4 * 2 ^ 20" "gh_valid g (enc (JSON (DeviceJSON dev)))"
  shows "serves r (behind (h_get h)) (behind (h_get h) s) 200 (\<lambda>_. [scored i res (enc (JSON (DeviceJSON dev)))]) (ServeMux url' (Gateway_Routes g))"
proof (rule servesI)
  fix q v
  assume q: "copy_of r q" "behind (h_get h) v = behind (h_get h) s"
  let ?q = "q\<lparr>Pattern := ''POST /api/v1/readings/score'', PathValues := Map.empty\<rparr>" and ?rs = "map Finite xs"
  let ?dev = "enc (JSON (DeviceJSON dev))" and ?x = "fst (ServeMux url' (Gateway_Routes g) q v)"
  have v: "live_ctx (Ctx ?q)" "h_get h (gw_base v) = h_get h (gw_base s)" "gw_scorer v = gw_scorer s" "Body ?q = Body r"
    using q by (simp_all add: copy_of_def behind_def)
  obtain body where c: "gh_decode g (Body r) = Inr \<lparr>sr_DeviceID = i, sr_Readings = ?rs\<rparr>" "gh_marshal g i ?rs = Inr body"
    "sa_decode app body = Some (i, ?rs)" "gh_score g (encS (ScoreDict res i)) = Inr (sc_score res, sc_anomaly res)"
    "length (encS (ScoreDict res i)) < 4 * 2 ^ 20"
    using assms(7,12) by (auto simp: codecs_carry_def)
  have sc: "up_client (Scorer (gh_up g)) = scorer_transport encS crash app ps (up_baseURL (Scorer (gh_up g)))"
    "state (gw_scorer s) = StateClosed" "\<And>m p. net_bad_url (gh_net g) m p = None"
    using assms(1,3) by (simp_all add: scorer_reached_def catalog_reached_def)
  obtain v1 where f: "fetchDevice g ?q i v = (Some (Inr ?dev), v1)"
    using fetch_up [OF behind_reached [OF q(2) assms(1)] assms(2,4) v(1) assms(8) _ assms(14), of st] assms(9) v(2) by auto
  then have v1: "gw_scorer v1 = gw_scorer s" using fetchDevice_scorer [of g ?q i v] v(3) by simp
  have req: "scorable g ?q \<lparr>sr_DeviceID = i, sr_Readings = ?rs\<rparr>"
    using assms(8,10,11) c(1) v(4) by (auto simp: scorable_def decodeJSON_def maxReadings_def)
  have ok: "ScoreRequest_ok i ?rs"
    using idPattern_py_len [OF assms(8)] assms(10,11) by (simp add: ScoreRequest_ok_def list_all_iff MAX_WINDOW_def Suc_le_eq)
  have "fst (score_with g ?q \<lparr>sr_DeviceID = i, sr_Readings = ?rs\<rparr> ?dev False [] v1) =
      respond ?q (WriteJSON 200 (ScoreJSON \<lparr>resp_DeviceID = i, resp_Score = sc_score res, resp_Anomaly = sc_anomaly res,
        resp_Device = ?dev, resp_Degraded = False, resp_Reason = []\<rparr>))"
    by (rule score_with_up [OF sc(1,3) _ _ c(2,3) ok assms(12,13) c(5,4)])
      (use sc(2) v(1) v1 assms(15) in \<open>simp_all add: live_ctx_def\<close>)
  moreover have "ServeMux url' (Gateway_Routes g) q v = ScoreReading g ?q v"
    by (rule mux_gateway_score) (use q(1) assms(5,6) in \<open>simp_all add: copy_of_def\<close>)
  moreover have "ScoreReading g ?q v = score_with g ?q \<lparr>sr_DeviceID = i, sr_Readings = ?rs\<rparr> ?dev False [] v1"
    by (rule ScoreReading_enriched [OF req]) (simp add: f)
  ultimately have "?x = respond ?q (WriteJSON 200 (ScoreJSON \<lparr>resp_DeviceID = i, resp_Score = sc_score res, resp_Anomaly = sc_anomaly res,
        resp_Device = ?dev, resp_Degraded = False, resp_Reason = []\<rparr>))" by simp
  then show "ending ?x = Returned \<and> run_status ?x = 200 \<and> run_bodies ?x = [scored i res ?dev] \<and> quiet (ops ?x)"
    by (simp add: scored_def, simp add: respond_def)
qed

text \<open>A lookup through the whole platform.\<close>

lemma looked_up:
  assumes "edge_open (net_env (gh_net g)) (h_get h) sha keys sched timeout c r s"
    and "catalog_reached g s enc (catalog_service h sz' logger' stack' sched' timeout' url')" "catalog_up h sched' timeout'"
    and "Method r = ''GET''" "Path r = ''/api/v1/devices/'' @ i" "idPattern i"
    and "repo_Get (h_repo h) i (h_get h (gw_base s)) = (res, st)" "case res of Inr _ \<Rightarrow> True | Inl e \<Rightarrow> errors_Is e ErrNotFound"
    and "\<And>rid p. snd (lookup_answer rid res) = ProblemBody p \<Longrightarrow> gh_problem g (enc (ProblemBody p)) = Inr p"
    and "\<And>rid. length (enc (snd (lookup_answer rid res))) < 4 * 2 ^ 20"
    and "gateway_public (net_env (gh_net g)) sz logger stack sha keys sched timeout (ServeMux url (Gateway_Routes g)) r s = (x, s')"
  shows "ending x = Returned" "run_status x = (case res of Inr d \<Rightarrow> 200 | Inl e \<Rightarrow> 404)" "run_bodies x = lookup_bodies enc res (id_header x)"
    "validRequestID (Header_Get (ReqHeader r) RequestIDHeader) \<Longrightarrow> id_header x = Header_Get (ReqHeader r) RequestIDHeader"
proof -
  let ?r = "r\<lparr>Body := MaxBytesReader (2 ^ 20) (Body r)\<rparr>"
  have apart: "h_get h (snd (env_now (net_env (gh_net g)) w)) = h_get h w" for w
    using assms(1) effects_apart.now_apart unfolding edge_open_def by metis
  have st: "fst (lookup_answer [] res) = (case res of Inr d \<Rightarrow> 200 | Inl e \<Rightarrow> 404)" by (simp add: lookup_answer_def split: sum.split)
  have "serves ?r (behind (h_get h)) (behind (h_get h) s) (fst (lookup_answer [] res)) (lookup_bodies enc res) (ServeMux url (Gateway_Routes g))"
    by (rule device_serves [OF assms(2,3) apart _ _ assms(6-10)]) (simp_all add: assms(4,5))
  from gateway_public_serves [OF assms(1) this, of sz logger stack] st assms(11)
  show "ending x = Returned" "run_status x = (case res of Inr d \<Rightarrow> 200 | Inl e \<Rightarrow> 404)" "run_bodies x = lookup_bodies enc res (id_header x)"
    "validRequestID (Header_Get (ReqHeader r) RequestIDHeader) \<Longrightarrow> id_header x = Header_Get (ReqHeader r) RequestIDHeader"
    by (metis fst_conv)+
qed

end
