(* ===== verification/Registration.thy ===== *)
theory Registration
  imports Platform
begin

text \<open>
  A device registered through the whole platform: the answer to the POST of it, on both sides of the
  network, and the state it leaves, in which the catalog's store holds the device and the gateway can
  still reach the catalog.
\<close>

section \<open>A call that is answered\<close>

text \<open>A call whose first attempt is answered: what it leaves of the breaker and of the world.\<close>

lemma guarded_once:
  assumes "state b = StateClosed" "Q w" "\<And>w. Q w \<Longrightarrow> Q (snd (br_Now b w))"
    and "\<And>w. Q w \<Longrightarrow> \<exists>r. R r \<and> fst (f k w) = Inr r \<and> Q' (snd (f k w))" "\<And>w. Q' w \<Longrightarrow> Q' (snd (br_Now b w))"
  obtains r b' w' where "R r" "guarded ctx f k ((b, w), res) = (None, ((b', w'), Some r))" "state b' = StateClosed" "cfg b' = cfg b" "Q' w'"
proof -
  obtain b1 w1 where a: "allow (b, w) = (None, (b1, w1))" "Q w1" by (rule admitted_closed [OF assms(1-3)])
  have rolled: "cfg b' = cfg c \<and> state b' = state c" if "rollWindowLocked (c, v) = (b', v')" for b' c :: "'a Breaker" and v v'
    using cfg_locked(3) [of "(c, v)"] rollWindowLocked_frame(1) [of "(c, v)"] unfolding that by simp
  have b1: "cfg b1 = cfg b" "state b1 = StateClosed"
    using rolled [of b w b1 w1] a(1) assms(1) by (simp_all add: allow_closed [OF assms(1)])
  obtain r w2 where r: "R r" "f k w1 = (Inr r, w2)" "Q' w2" using assms(4) [OF a(2)] by (metis prod.collapse)
  obtain b3 w3 where roll: "rollWindowLocked (b1, w2) = (b3, w3)" by (rule prod.exhaust)
  have b3: "cfg b3 = cfg b" "state b3 = StateClosed"
    using rolled [OF roll] b1 by simp_all
  have now: "Q' (snd (br_Now b1 w))" if "Q' w" for w using assms(5) [OF that] b1(1) by simp
  have "w3 = snd (br_Now b1 w2) \<or> w3 = snd (br_Now b1 (snd (br_Now b1 w2)))"
    using roll by (auto simp: rollWindowLocked_def Let_def split_beta split: if_splits)
  then have "Q' w3" using now r(3) by blast
  then show ?thesis
    by (intro that [OF r(1), of "b3\<lparr>successes := successes b3 + 1\<rparr>" w3])
      (simp_all add: guarded_def a Breaker_Do_def on_world_def r(2) record_closed [OF b1(2) roll] b3)
qed

lemma Upstream_do_once:
  assumes "state b0 = StateClosed" "\<And>w. ctx_Err ctx w = None"
    and "Q w" "\<And>w. Q w \<Longrightarrow> Q (snd (br_Now b0 w))" "\<And>w. Q w \<Longrightarrow> Q (snd (env_now (net_env net) w))"
    and "\<And>w. Q w \<Longrightarrow> \<exists>r. R r \<and> fst (attempt (net_bad_url net) u rid m p b hs 1 w) = Inr r \<and> Q' (snd (attempt (net_bad_url net) u rid m p b hs 1 w))"
    and "\<And>w. Q' w \<Longrightarrow> Q' (snd (br_Now b0 w))" "\<And>w. Q' w \<Longrightarrow> Q' (snd (env_now (net_env net) w))" "\<And>e w. Q' w \<Longrightarrow> Q' (env_emit (net_env net) e w)"
  obtains r b' w' where "R r" "Upstream_do net u ctx rid m p b hs (b0, w) = (Inr (Some r), (b', w'))"
    "state b' = StateClosed" "cfg b' = cfg b0" "Q' w'"
proof -
  let ?f = "attempt (net_bad_url net) u rid m p b hs"
  obtain start w1 where n: "env_now (net_env net) w = (start, w1)" by (rule prod.exhaust)
  then have "Q w1" using assms(5) [OF assms(3)] by simp
  obtain r b' w' where r: "R r" and g: "guarded ctx ?f 1 ((b0, w1), None) = (None, ((b', w'), Some r))"
    and b': "state b' = StateClosed" "cfg b' = cfg b0" "Q' w'"
    by (rule guarded_once [where Q = Q and Q' = Q' and R = R and f = ?f and k = 1 and ctx = ctx and res = None,
          OF assms(1) \<open>Q w1\<close> assms(4,6,7)]) blast
  have "1 \<le> MaxAttempts (do_config net u ctx)" by (auto simp: RetryConfig_withDefaults_def Let_def)
  moreover have "ctx_Err (lift_ctx ctx) ((b0, w1), None) = None" by (simp add: lift_ctx_def assms(2))
  ultimately have d: "do_retry net u ctx ?f ((b0, w1), None) = (None, ((b', w'), Some r))"
    unfolding do_retry_def Retry_def by (subst Retry_loop.simps) (simp add: Retry_round_def g)
  show ?thesis
    by (rule that [OF r _ b'(1,2)])
      (auto simp: Upstream_do_def n d Let_def split_beta intro!: assms(8,9) b'(3) cong: if_cong)
qed

section \<open>The catalog\<close>

text \<open>The catalog's answer to a registration, and the store it leaves.\<close>

lemma mux_catalog_create:
  assumes "Method r = ''POST''" "Path r = ''/v1/devices''"
  shows "ServeMux url (Catalog_Routes h) r w = Catalog_Create h (r\<lparr>Pattern := ''POST /v1/devices'', PathValues := Map.empty\<rparr>) w"
proof -
  have "cleanPath ''/v1/devices'' = ''/v1/devices''" "path_segs ''/v1/devices'' = [''v1'', ''devices'']" by code_simp+
  then show ?thesis unfolding ServeMux_def find_route_def Catalog_Routes_def assms Let_def by (simp add: method_ok_def split_beta)
qed

lemma mux_gateway_create:
  assumes "Method r = ''POST''" "Path r = ''/api/v1/devices''"
  shows "ServeMux url (Gateway_Routes g) r s = CreateDevice g (r\<lparr>Pattern := ''POST /api/v1/devices'', PathValues := Map.empty\<rparr>) s"
proof -
  have "cleanPath ''/api/v1/devices'' = ''/api/v1/devices''" "path_segs ''/api/v1/devices'' = [''api'', ''v1'', ''devices'']" by code_simp+
  then show ?thesis unfolding ServeMux_def find_route_def Gateway_Routes_def assms Let_def by (simp add: method_ok_def split_beta)
qed

lemma catalog_creates:
  assumes "Method r = ''POST''" "Path r = ''/v1/devices''" "h_decode h (Body r) = Inr d0" "\<And>st w. h_get h (h_put h st w) = st"
    and "repo_Create (h_repo h) (d0\<lparr>CreatedAt := zeroTime, UpdatedAt := zeroTime\<rparr>) v = (Inr d, st)"
  shows "serves r (h_get h) v 201 (\<lambda>_. [JSON (DeviceJSON d)]) (ServeMux url (Catalog_Routes h))"
    and "leaves r (h_get h) v (h_get h) st (ServeMux url (Catalog_Routes h))"
proof -
  have loc: "quiet (HeaderSet ''Location'' l # os) = quiet os" for l and os :: "catalog_json wop list" by (rule quiet_HeaderSet) code_simp
  have c: "ServeMux url (Catalog_Routes h) q w = (respond (q\<lparr>Pattern := ''POST /v1/devices'', PathValues := Map.empty\<rparr>)
      (HeaderSet ''Location'' (''/v1/devices/'' @ ID d) # WriteJSON 201 (DeviceJSON d)), h_put h st w)" if "copy_of r q" "h_get h w = v" for q w
    using that assms by (subst mux_catalog_create) (simp_all add: copy_of_def Catalog_Create_def on_repo_def)
  show "serves r (h_get h) v 201 (\<lambda>_. [JSON (DeviceJSON d)]) (ServeMux url (Catalog_Routes h))"
    by (rule servesI) (simp add: c, simp add: respond_def loc)
  show "leaves r (h_get h) v (h_get h) st (ServeMux url (Catalog_Routes h))" by (auto simp: leaves_def c assms(4))
qed

lemma catalog_registers:
  fixes h :: "('s, 'w) CatalogHandler"
  assumes "catalog_up h sched timeout" "\<And>w. h_get h (snd (sched w)) = h_get h w" "\<And>st w. h_get h (h_put h st w) = st"
    and "up_method rq = ''POST''" "up_url rq = base @ ''/v1/devices''" "up_body rq = Some body"
    and "h_decode h (MaxBytesReader (256 * 2 ^ 10) \<lparr>content = body, maxBytes = None\<rparr>) = Inr d0"
    and "repo_Create (h_repo h) (d0\<lparr>CreatedAt := zeroTime, UpdatedAt := zeroTime\<rparr>) (h_get h w) = (Inr d, st)"
  shows "fst (service_transport enc (catalog_service h sz logger stack sched timeout url) base rq w) =
      Inr \<lparr>StatusCode = 201, resp_bytes = enc (JSON (DeviceJSON d)), resp_fault = None\<rparr>"
    and "h_get h (snd (service_transport enc (catalog_service h sz logger stack sched timeout url) base rq w)) = st"
proof -
  let ?r = "catalog_request base rq :: 'w Request"
  have "Cut CHR ''?'' ''/v1/devices'' = (''/v1/devices'', [], False)" by (intro Cut_no_sep) simp
  then have r: "Method ?r = ''POST''" "Path ?r = ''/v1/devices''" "live_ctx (Ctx ?r)" "Body ?r = \<lparr>content = body, maxBytes = None\<rparr>"
    by (simp_all add: catalog_request_def assms(4-6) live_ctx_def)
  from assms(1) have up: "effects_apart (h_env h) (h_get h)" "unhurried (h_env h) sched timeout" by (simp_all add: catalog_up_def)
  then have beside: "effects_beside (h_env h) (h_get h) (h_get h)" by (simp add: effects_beside_def effects_beside_axioms_def effects_apart_def)
  note inner = catalog_creates [where r = "?r\<lparr>Body := MaxBytesReader (256 * 2 ^ 10) (Body ?r)\<rparr>" and h = h and url = url,
      OF _ _ _ assms(3,8)]
  have served: "serves (?r\<lparr>Body := MaxBytesReader (256 * 2 ^ 10) (Body ?r)\<rparr>) (h_get h) (h_get h w) 201 (\<lambda>_. [JSON (DeviceJSON d)])
      (ServeMux url (Catalog_Routes h))" by (rule inner) (use assms(7) in \<open>simp_all add: r\<close>)
  show "fst (service_transport enc (catalog_service h sz logger stack sched timeout url) base rq w) =
      Inr \<lparr>StatusCode = 201, resp_bytes = enc (JSON (DeviceJSON d)), resp_fault = None\<rparr>"
    by (rule catalog_public_serves [OF up served r(3) refl, of sz logger stack]) (simp add: service_transport_def catalog_service_def split_beta Let_def)
  have "leaves (?r\<lparr>Body := MaxBytesReader (256 * 2 ^ 10) (Body ?r)\<rparr>) (h_get h) (h_get h w) (h_get h) st (ServeMux url (Catalog_Routes h))"
    by (rule inner) (use assms(7) in \<open>simp_all add: r\<close>)
  then have "leaves ?r (h_get h) (h_get h w) (h_get h) st (catalog_service h sz logger stack sched timeout url)"
    unfolding catalog_service_def by (rule catalog_public_leaves [OF beside up(2) assms(2)])
  then show "h_get h (snd (service_transport enc (catalog_service h sz logger stack sched timeout url) base rq w)) = st"
    using r(3) by (simp add: leaves_def copy_of_def service_transport_def split_beta Let_def)
qed

section \<open>The gateway\<close>

text \<open>What of the gateway's state a later lookup depends on.\<close>

definition reach :: "'w Breaker \<times> 'w Breaker \<times> 'k \<Rightarrow> State \<times> ('w \<Rightarrow> time \<times> 'w) option \<times> 'k" where
  "reach = (\<lambda>(b, b', x). (state b, Now (cfg b), x))"

lemma create_up:
  assumes "catalog_reached g s enc (catalog_service h sz logger stack sched timeout url)" "catalog_up h sched timeout"
    and "\<And>w. h_get h (snd (sched w)) = h_get h w" "\<And>st w. h_get h (h_put h st w) = st" "effects_apart (net_env (gh_net g)) (h_get h)"
    and "live_ctx (Ctx r)" "h_decode h (MaxBytesReader (256 * 2 ^ 10) \<lparr>content = body, maxBytes = None\<rparr>) = Inr d0"
    and "repo_Create (h_repo h) (d0\<lparr>CreatedAt := zeroTime, UpdatedAt := zeroTime\<rparr>) (h_get h (gw_base s)) = (Inr d, st)"
    and "length (enc (JSON (DeviceJSON d))) < 4 * 2 ^ 20" "body \<noteq> []"
  obtains s1 where "catalog_Post g r ''/v1/devices'' body s = (Inr (Some \<lparr>rsp_Status = 201, rsp_Body = enc (JSON (DeviceJSON d))\<rparr>), s1)"
    "reach (behind (h_get h) s1) = (StateClosed, Now (cfg (gw_catalog s)), st)"
proof -
  let ?u = "Catalog (gh_up g)" and ?net = "gh_net g" and ?hs = "forwardHeaders r"
  let ?ans = "\<lparr>rsp_Status = 201, rsp_Body = enc (JSON (DeviceJSON d))\<rparr>"
  let ?Q = "\<lambda>w. h_get h w = h_get h (gw_base s)" and ?Q' = "\<lambda>w. h_get h w = st"
  let ?att = "attempt (net_bad_url ?net) ?u (RequestIDFrom (Ctx r)) ''POST'' ''/v1/devices'' (Some body) ?hs 1"
  from assms(1) have c: "up_client ?u = service_transport enc (catalog_service h sz logger stack sched timeout url) (up_baseURL ?u)"
    "\<And>m p. net_bad_url ?net m p = None" "state (gw_catalog s) = StateClosed" "Now (cfg (gw_catalog s)) = Some (env_now (net_env ?net))"
    by (simp_all add: catalog_reached_def)
  have att: "\<exists>a. a = ?ans \<and> fst (?att w) = Inr a \<and> ?Q' (snd (?att w))" if "?Q w" for w
  proof -
    let ?rq = "\<lparr>up_method = ''POST'', up_url = up_baseURL ?u @ ''/v1/devices'',
      up_header = request_header (RequestIDFrom (Ctx r)) (Some body) ?hs 1, up_body = bodyReader (Some body)\<rparr>"
    have "repo_Create (h_repo h) (d0\<lparr>CreatedAt := zeroTime, UpdatedAt := zeroTime\<rparr>) (h_get h w) = (Inr d, st)" using assms(8) that by simp
    from catalog_registers [OF assms(2-4) _ _ _ assms(7) this, of ?rq "up_baseURL ?u" enc sz logger stack url] assms(10)
    have "fst (up_client ?u ?rq w) = Inr \<lparr>StatusCode = 201, resp_bytes = enc (JSON (DeviceJSON d)), resp_fault = None\<rparr>"
      "h_get h (snd (up_client ?u ?rq w)) = st" unfolding c(1) by (simp_all add: bodyReader_def)
    then obtain w' where w': "up_client ?u ?rq w = (Inr \<lparr>StatusCode = 201, resp_bytes = enc (JSON (DeviceJSON d)), resp_fault = None\<rparr>, w')" "?Q' w'"
      by (metis prod.collapse)
    show ?thesis unfolding attempt_def c(2) using w' assms(9) by (simp add: ReadLimited_def)
  qed
  note now = effects_apart.now_apart [OF assms(5)] and emit = effects_apart.emit_apart [OF assms(5)]
  show ?thesis
  proof (rule Upstream_do_once [where Q = ?Q and Q' = ?Q' and R = "\<lambda>a. a = ?ans" and net = ?net and u = ?u and m = "''POST''" and p = "''/v1/devices''"
        and b = "Some body" and hs = ?hs and rid = "RequestIDFrom (Ctx r)" and ctx = "base_ctx s (std (Ctx r))" and ?b0.0 = "gw_catalog s" and w = "gw_base s"])
    fix a b' w'
    assume u: "a = ?ans" "Upstream_do ?net ?u (base_ctx s (std (Ctx r))) (RequestIDFrom (Ctx r)) ''POST'' ''/v1/devices'' (Some body) ?hs
      (gw_catalog s, gw_base s) = (Inr (Some a), (b', w'))" "state b' = StateClosed" "cfg b' = cfg (gw_catalog s)" "?Q' w'"
    have "catalog_Post g r ''/v1/devices'' body s = (Inr (Some ?ans), s\<lparr>gw_catalog := b', gw_base := w'\<rparr>)"
      using u(1,2) by (simp add: catalog_Post_def Upstream_Post_def on_catalog_def)
    then show thesis by (rule that) (simp add: reach_def behind_def u(3-5))
  qed (use assms(6) att c(3,4) in \<open>simp_all add: base_ctx_def live_ctx_def now emit\<close>)
qed

lemma create_serves:
  assumes "catalog_reached g s enc (catalog_service h sz logger stack sched timeout url)" "catalog_up h sched timeout"
    and "\<And>w. h_get h (snd (sched w)) = h_get h w" "\<And>st w. h_get h (h_put h st w) = st" "effects_apart (net_env (gh_net g)) (h_get h)"
    and "Method r = ''POST''" "Path r = ''/api/v1/devices''" "ReadAll (Body r) = Inr body" "body \<noteq> []"
    and "h_decode h (MaxBytesReader (256 * 2 ^ 10) \<lparr>content = body, maxBytes = None\<rparr>) = Inr d0"
    and "repo_Create (h_repo h) (d0\<lparr>CreatedAt := zeroTime, UpdatedAt := zeroTime\<rparr>) (h_get h (gw_base s)) = (Inr d, st)"
    and "length (enc (JSON (DeviceJSON d))) < 4 * 2 ^ 20"
  shows "serves r (behind (h_get h)) (behind (h_get h) s) 201 (\<lambda>_. [Raw (enc (JSON (DeviceJSON d)))]) (ServeMux url' (Gateway_Routes g))"
    and "leaves r (behind (h_get h)) (behind (h_get h) s) (\<lambda>s. reach (behind (h_get h) s)) (StateClosed, Now (cfg (gw_catalog s)), st)
      (ServeMux url' (Gateway_Routes g))"
proof -
  have done': "\<exists>v1. ServeMux url' (Gateway_Routes g) q v = (respond (q\<lparr>Pattern := ''POST /api/v1/devices'', PathValues := Map.empty\<rparr>)
        [HeaderSet ''Content-Type'' ''application/json'', SendHeader 201, SendBody (Raw (enc (JSON (DeviceJSON d))))], v1) \<and>
      reach (behind (h_get h) v1) = (StateClosed, Now (cfg (gw_catalog s)), st)"
    if q: "copy_of r q" "behind (h_get h) v = behind (h_get h) s" for q v
  proof -
    let ?q = "q\<lparr>Pattern := ''POST /api/v1/devices'', PathValues := Map.empty\<rparr>"
    have v: "live_ctx (Ctx ?q)" "h_get h (gw_base v) = h_get h (gw_base s)" "gw_catalog v = gw_catalog s" "Body ?q = Body r"
      using q by (simp_all add: copy_of_def behind_def)
    have "repo_Create (h_repo h) (d0\<lparr>CreatedAt := zeroTime, UpdatedAt := zeroTime\<rparr>) (h_get h (gw_base v)) = (Inr d, st)"
      using assms(11) v(2) by simp
    then obtain v1 where c: "catalog_Post g ?q ''/v1/devices'' body v = (Inr (Some \<lparr>rsp_Status = 201, rsp_Body = enc (JSON (DeviceJSON d))\<rparr>), v1)"
      "reach (behind (h_get h) v1) = (StateClosed, Now (cfg (gw_catalog s)), st)"
      using create_up [OF behind_reached [OF q(2) assms(1)] assms(2-5) v(1) assms(10) _ assms(12,9)] v(3) by metis
    have "ServeMux url' (Gateway_Routes g) q v = CreateDevice g ?q v"
      by (rule mux_gateway_create) (use q(1) assms(6,7) in \<open>simp_all add: copy_of_def\<close>)
    then show ?thesis unfolding CreateDevice_def v(4) assms(8) using c by (simp add: proxy_def proxy_result_def)
  qed
  show "serves r (behind (h_get h)) (behind (h_get h) s) 201 (\<lambda>_. [Raw (enc (JSON (DeviceJSON d)))]) (ServeMux url' (Gateway_Routes g))"
  proof (rule servesI)
    fix q v
    assume "copy_of r q" "behind (h_get h) v = behind (h_get h) s"
    from done' [OF this] show "ending (fst (ServeMux url' (Gateway_Routes g) q v)) = Returned \<and> run_status (fst (ServeMux url' (Gateway_Routes g) q v)) = 201 \<and>
        run_bodies (fst (ServeMux url' (Gateway_Routes g) q v)) = [Raw (enc (JSON (DeviceJSON d)))] \<and> quiet (ops (fst (ServeMux url' (Gateway_Routes g) q v)))"
      by (auto simp: respond_def run_status_def run_bodies_def reply_of_def new_reply_def reply_status_def bodyAllowed_def)
  qed
  show "leaves r (behind (h_get h)) (behind (h_get h) s) (\<lambda>s. reach (behind (h_get h) s)) (StateClosed, Now (cfg (gw_catalog s)), st)
      (ServeMux url' (Gateway_Routes g))" unfolding leaves_def using done' by fastforce
qed

section \<open>The whole platform\<close>

lemma registered:
  assumes "edge_open (net_env (gh_net g)) (h_get h) sha keys sched timeout c r s" "\<And>w. h_get h (snd (sched w)) = h_get h w"
    and "catalog_reached g s enc (catalog_service h sz' logger' stack' sched' timeout' url')" "catalog_up h sched' timeout'"
    and "\<And>w. h_get h (snd (sched' w)) = h_get h w" "\<And>st w. h_get h (h_put h st w) = st"
    and "Method r = ''POST''" "Path r = ''/api/v1/devices''" "ReadAll (MaxBytesReader (2 ^ 20) (Body r)) = Inr body" "body \<noteq> []"
    and "h_decode h (MaxBytesReader (256 * 2 ^ 10) \<lparr>content = body, maxBytes = None\<rparr>) = Inr d0"
    and "repo_Create (h_repo h) (d0\<lparr>CreatedAt := zeroTime, UpdatedAt := zeroTime\<rparr>) (h_get h (gw_base s)) = (Inr d, st)"
    and "length (enc (JSON (DeviceJSON d))) < 4 * 2 ^ 20"
    and "gateway_public (net_env (gh_net g)) sz logger stack sha keys sched timeout (ServeMux url (Gateway_Routes g)) r s = (x, s1)"
  shows "run_status x = 201" "run_bodies x = [Raw (enc (JSON (DeviceJSON d)))]" "h_get h (gw_base s1) = st"
    "catalog_reached g s1 enc (catalog_service h sz' logger' stack' sched' timeout' url')"
proof -
  let ?r = "r\<lparr>Body := MaxBytesReader (2 ^ 20) (Body r)\<rparr>" and ?mux = "ServeMux url (Gateway_Routes g)"
  have apart: "effects_apart (net_env (gh_net g)) (h_get h)" using assms(1) by (simp add: edge_open_def)
  note post = create_serves [where r = ?r and url' = url, OF assms(3-6) apart _ _ _ assms(10-13)]
  have "serves ?r (behind (h_get h)) (behind (h_get h) s) 201 (\<lambda>_. [Raw (enc (JSON (DeviceJSON d)))]) ?mux"
    by (rule post(1)) (use assms(7-9) in simp_all)
  from gateway_public_serves [OF assms(1) this, of sz logger stack] assms(14)
  show "run_status x = 201" "run_bodies x = [Raw (enc (JSON (DeviceJSON d)))]" by (metis fst_conv)+
  have "leaves ?r (behind (h_get h)) (behind (h_get h) s) (\<lambda>s. reach (behind (h_get h) s)) (StateClosed, Now (cfg (gw_catalog s)), st) ?mux"
    by (rule post(2)) (use assms(7-9) in simp_all)
  from gateway_public_leaves [OF assms(1,2) this, of sz logger stack] assms(14)
  have s1: "state (gw_catalog s1) = StateClosed" "Now (cfg (gw_catalog s1)) = Now (cfg (gw_catalog s))" "h_get h (gw_base s1) = st"
    by (simp_all add: reach_def behind_def)
  then show "h_get h (gw_base s1) = st" "catalog_reached g s1 enc (catalog_service h sz' logger' stack' sched' timeout' url')"
    using assms(3) by (simp_all add: catalog_reached_def)
qed

end
