(* ===== verification/Signals.thy ===== *)
theory Signals
  imports Chains
begin

text \<open>
  What the middleware tells Prometheus about the requests it serves: the rate, error and duration
  instruments of \<open>telemetry.Metrics\<close> that \<open>httpx.Metrics\<close> updates. The events of the model are these
  updates, in order; \<open>signals\<close> reads those of the HTTP instruments from the world.
\<close>

section \<open>The instruments of the HTTP layer\<close>

fun red :: "event \<Rightarrow> bool" where
  "red (RequestsInFlight d) = True"
| "red (RequestsTotal m rt st cl) = True"
| "red (RequestDuration m rt v) = True"
| "red (ResponseSize rt v) = True"
| "red _ = False"

text \<open>What one served request adds to them.\<close>

definition served :: "string \<Rightarrow> string \<Rightarrow> int \<Rightarrow> rat \<Rightarrow> rat \<Rightarrow> event list" where
  "served m route st secs bytes =
     [RequestsInFlight 1, RequestsTotal m route (Itoa st) (statusClass st), RequestDuration m route secs,
      ResponseSize route bytes, RequestsInFlight (-1)]"

text \<open>
  In the states that satisfy \<open>J\<close>, every answer of a handler is counted once, under the method of the request,
  the route that its \<open>Pattern\<close> names and the status of the answer; or the handler is unseen, as those behind the
  metrics are. A handler is blind when the request it was given has the same \<open>Pattern\<close> after it, as when it
  hands only a copy on.
\<close>

definition counted :: "('x \<Rightarrow> bool) \<Rightarrow> ('x \<Rightarrow> event list) \<Rightarrow> ('v, 'x) Handler \<Rightarrow> bool" where
  "counted J signals h \<longleftrightarrow> (\<forall>r s. J s \<longrightarrow> ending (fst (h r s)) = Returned \<longrightarrow>
     (\<exists>secs bytes. signals (snd (h r s)) = signals s @ served (Method r) (routeOf (Pattern r)) (run_status (fst (h r s))) secs bytes))"

definition unseen :: "('x \<Rightarrow> bool) \<Rightarrow> ('x \<Rightarrow> event list) \<Rightarrow> ('v, 'x) Handler \<Rightarrow> bool" where
  "unseen J signals h \<longleftrightarrow> (\<forall>r s. J s \<longrightarrow> signals (snd (h r s)) = signals s)"

lemma countedD:
  "counted J signals h \<Longrightarrow> J s \<Longrightarrow> ending (fst (h r s)) = Returned \<Longrightarrow>
     \<exists>secs bytes. signals (snd (h r s)) = signals s @ served (Method r) (routeOf (Pattern r)) (run_status (fst (h r s))) secs bytes"
  by (simp add: counted_def)

definition blind :: "('v, 'x) Handler \<Rightarrow> bool" where
  "blind h \<longleftrightarrow> (\<forall>r s. patternAfter (fst (h r s)) = Pattern r)"

lemma blind_stack:
  "blind (Timeout env sz sched d h)" "blind h \<Longrightarrow> blind (RateLimiter_Middleware get put key h)"
  "blind (Authenticate sha keys h)" "blind h \<Longrightarrow> blind (MaxBodyBytes n h)"
proof -
  show "blind (Timeout env sz sched d h)" by (simp add: blind_def Timeout_def split_beta Let_def)
  show "blind h \<Longrightarrow> blind (RateLimiter_Middleware get put key h)"
    by (simp add: blind_def RateLimiter_Middleware_def respond_def split_beta Let_def)
  show "blind (Authenticate sha keys h)"
    by (simp add: blind_def Authenticate_def respond_def split_beta Let_def split: option.split)
  show "blind h \<Longrightarrow> blind (MaxBodyBytes n h)" by (simp add: blind_def MaxBodyBytes_def)
qed

text \<open>A panic that passes the metrics is not counted, so the middleware between them and the recovery must not meet one.\<close>

definition unpanicked :: "('v, 'x) Handler \<Rightarrow> bool" where
  "unpanicked h \<longleftrightarrow> (\<forall>r s v. ending (fst (h r s)) \<noteq> Panicked v)"

lemma counted_SecurityHeaders: "counted J signals h \<Longrightarrow> counted J signals (SecurityHeaders h)"
  by (auto simp: counted_def SecurityHeaders_def before_def split_beta Let_def)

lemma unpanicked_stack:
  "unpanicked (Timeout env sz sched d h)" "unpanicked h \<Longrightarrow> unpanicked (RateLimiter_Middleware get put key h)"
  "unpanicked h \<Longrightarrow> unpanicked (Authenticate sha keys h)" "unpanicked h \<Longrightarrow> unpanicked (MaxBodyBytes n h)"
  "unpanicked h \<Longrightarrow> unpanicked (Metrics env sz h)" "unpanicked h \<Longrightarrow> unpanicked (SecurityHeaders h)"
proof -
  show "unpanicked (Timeout env sz sched d h)" by (simp add: unpanicked_def Timeout_def split_beta Let_def)
  show "unpanicked h \<Longrightarrow> unpanicked (RateLimiter_Middleware get put key h)"
    by (auto simp: unpanicked_def RateLimiter_Middleware_def respond_def split_beta Let_def)
  show "unpanicked h \<Longrightarrow> unpanicked (Authenticate sha keys h)"
    by (auto simp: unpanicked_def Authenticate_def respond_def split_beta Let_def split: option.split)
  show "unpanicked h \<Longrightarrow> unpanicked (MaxBodyBytes n h)" by (simp add: unpanicked_def MaxBodyBytes_def)
  show "unpanicked h \<Longrightarrow> unpanicked (Metrics env sz h)"
    by (auto simp: unpanicked_def Metrics_def split_beta Let_def split: ending.split)
  show "unpanicked h \<Longrightarrow> unpanicked (SecurityHeaders h)" by (simp add: unpanicked_def SecurityHeaders_def before_def split_beta Let_def)
qed

text \<open>What the library promises of a registry: an update is seen, in order, and nothing else is.\<close>

locale registry =
  fixes env :: "'x Env" and signals :: "'x \<Rightarrow> event list" and J :: "'x \<Rightarrow> bool"
  assumes emit_seen: "signals (env_emit env e s) = signals s @ (if red e then [e] else [])"
    and now_unseen: "signals (snd (env_now env s)) = signals s"
    and rand_unseen: "signals (snd (env_rand16 env s)) = signals s"
    and J_effects: "J (env_emit env e s) = J s" "J (snd (env_now env s)) = J s" "J (snd (env_rand16 env s)) = J s"
begin

lemmas J_emit = J_effects(1) and J_now = J_effects(2) and J_rand = J_effects(3)

lemma newRequestID_unseen: "signals (snd (newRequestID env s)) = signals s" "J (snd (newRequestID env s)) = J s"
  using rand_unseen [of s] J_rand [of s] by (auto simp: newRequestID_def now_unseen J_now split_beta Let_def split: option.split)

lemma counted_Metrics:
  assumes "unseen J signals h" "blind h"
  shows "counted J signals (Metrics env sz h)"
  unfolding counted_def
proof (intro allI impI)
  fix r s
  assume s: "J s" and x: "ending (fst (Metrics env sz h r s)) = Returned"
  obtain start s1 where n: "env_now env (env_emit env (RequestsInFlight 1) s) = (start, s1)" by (rule prod.exhaust)
  obtain y s2 where h: "h r s1 = (y, s2)" by (rule prod.exhaust)
  have s1: "signals s1 = signals s @ [RequestsInFlight 1]" using n now_unseen [of "env_emit env (RequestsInFlight 1) s"] by (simp add: emit_seen)
  have s1_ok: "J s1" using n s J_now [of "env_emit env (RequestsInFlight 1) s"] by (simp add: J_emit)
  have s2: "signals s2 = signals s1" using assms(1) s1_ok h unfolding unseen_def by (metis snd_conv)
  have y: "ending y = Returned" using x by (cases "ending y") (auto simp: Metrics_def n h Let_def split_beta)
  have st: "rec_status (fst (through sz new_recorder (ops y))) = run_status y" by (simp add: recorder_status run_status_def)
  have p: "patternAfter y = Pattern r" using assms(2) h unfolding blind_def by (metis fst_conv)
  show "\<exists>secs bytes. signals (snd (Metrics env sz h r s)) =
      signals s @ served (Method r) (routeOf (Pattern r)) (run_status (fst (Metrics env sz h r s))) secs bytes"
    by (rule exI, rule exI)
      (simp add: Metrics_def n h y st p served_def emit_seen now_unseen s1 s2 Let_def split_beta)
qed

lemma counted_Recovery:
  assumes "counted J signals h" "unpanicked h"
  shows "counted J signals (Recovery env stack h)"
proof -
  have "Recovery env stack h r s = h r s" for r s
    using assms(2) unfolding unpanicked_def by (cases "ending (fst (h r s))") (auto simp: Recovery_def split_beta Let_def)
  with assms(1) show ?thesis by (simp add: counted_def)
qed

lemma counted_Logging:
  assumes "counted J signals h"
  shows "counted J signals (Logging env sz lg h)"
  unfolding counted_def
proof (intro allI impI)
  fix r :: "'x Request" and s
  let ?r = "WithContext ((Ctx r)\<lparr>ctxLogger := Some (lg @ loggerAttrs r)\<rparr>) r" and ?s = "snd (env_now env s)"
  assume s: "J s" and "ending (fst (Logging env sz lg h r s)) = Returned"
  then have "ending (fst (h ?r ?s)) = Returned" by (auto simp: Logging_def split_beta Let_def split: if_splits)
  from countedD [OF assms _ this] this s show "\<exists>secs bytes. signals (snd (Logging env sz lg h r s)) =
      signals s @ served (Method r) (routeOf (Pattern r)) (run_status (fst (Logging env sz lg h r s))) secs bytes"
    by (simp add: Logging_def emit_seen now_unseen J_now WithContext_def split_beta Let_def)
qed

lemma counted_RequestID:
  assumes "counted J signals h"
  shows "counted J signals (RequestIDMiddleware env h)"
  unfolding counted_def
proof (intro allI impI)
  fix r :: "'x Request" and s
  let ?i = "Header_Get (ReqHeader r) RequestIDHeader"
  assume s: "J s" and x: "ending (fst (RequestIDMiddleware env h r s)) = Returned"
  obtain i s1 where n: "(if validRequestID ?i then (?i, s) else newRequestID env s) = (i, s1)" by (rule prod.exhaust)
  then have s1: "signals s1 = signals s" "J s1" using newRequestID_unseen [of s] s by (auto split: if_splits)
  let ?r = "WithContext ((Ctx r)\<lparr>ctxRequestID := Some i\<rparr>) r"
  have m: "RequestIDMiddleware env h r s = ((before [HeaderSet RequestIDHeader i] (fst (h ?r s1)))\<lparr>patternAfter := Pattern r\<rparr>, snd (h ?r s1))"
    unfolding RequestIDMiddleware_def n Let_def by (simp add: split_beta)
  then have "ending (fst (h ?r s1)) = Returned" using x by (simp add: before_def)
  from countedD [OF assms s1(2) this] show "\<exists>secs bytes. signals (snd (RequestIDMiddleware env h r s)) =
      signals s @ served (Method r) (routeOf (Pattern r)) (run_status (fst (RequestIDMiddleware env h r s))) secs bytes"
    unfolding m by (simp add: before_def s1(1) WithContext_def)
qed

lemma unseen_Timeout:
  assumes "unseen J signals h" "\<And>s. signals (snd (sched s)) = signals s"
  shows "unseen J signals (Timeout env sz sched d h)"
  using assms by (auto simp: unseen_def Timeout_def now_unseen J_now split_beta Let_def)

lemma counted_outer:
  assumes "unseen J signals h" "blind h" "unpanicked h"
  shows "counted J signals (RequestIDMiddleware env (Logging env sz lg (Recovery env stack (SecurityHeaders (Metrics env sz h)))))"
  by (intro counted_RequestID counted_Logging counted_Recovery counted_SecurityHeaders counted_Metrics unpanicked_stack assms)

end

text \<open>
  A registry over any environment: the world is given the list of the updates. The minimum level of a logger
  drops log lines, never an update.
\<close>

definition tapped :: "'w Env \<Rightarrow> ('w \<times> event list) Env" where
  "tapped env =
     \<lparr>env_now = (\<lambda>(w, es). let (t, w) = env_now env w in (t, (w, es))),
      env_rand16 = (\<lambda>(w, es). let (b, w) = env_rand16 env w in (b, (w, es))),
      env_emit = (\<lambda>e (w, es). (env_emit env e w, if red e then es @ [e] else es))\<rparr>"

lemma registry_at_level: "registry env signals J \<Longrightarrow> registry (at_level m env) signals J"
  unfolding registry_def by (auto simp: at_level_def split: event.split)

interpretation tap: registry "at_level m (tapped env)" snd "\<lambda>_. True" for m env
  by (rule registry_at_level) (unfold_locales; auto simp: tapped_def split_beta Let_def)

section \<open>The calls of the upstreams\<close>

text \<open>A breaker and a client whose effects on the world leave \<open>k\<close> alone.\<close>

definition breaker_unseen :: "('w \<Rightarrow> 'k) \<Rightarrow> 'w Breaker \<Rightarrow> bool" where
  "breaker_unseen k b \<longleftrightarrow> (\<forall>w. k (snd (br_Now b w)) = k w) \<and> (\<forall>f x y w. OnStateChange (cfg b) = Some f \<longrightarrow> k (f x y w) = k w)"

definition client_unseen :: "('w \<Rightarrow> 'k) \<Rightarrow> 'w Net \<Rightarrow> 'w Upstream \<Rightarrow> bool" where
  "client_unseen k net u \<longleftrightarrow>
     (\<forall>w. k (snd (env_now (net_env net) w)) = k w) \<and> (\<forall>e w. \<not> red e \<longrightarrow> k (env_emit (net_env net) e w) = k w) \<and>
     (\<forall>w. k (snd (net_rand net w)) = k w) \<and> (\<forall>d w. k (snd (net_wait net d w)) = k w) \<and> (\<forall>rq w. k (snd (up_client u rq w)) = k w) \<and>
     (\<forall>f w. Rand (up_retry u) = Some f \<longrightarrow> k (snd (f w)) = k w) \<and>
     (\<forall>f ctx d w. Sleep (up_retry u) = Some f \<longrightarrow> k (snd (f ctx d w)) = k w) \<and>
     (\<forall>f i d e w. OnRetry (up_retry u) = Some f \<longrightarrow> k (f i d e w) = k w)"

definition same_for :: "('w \<Rightarrow> 'k) \<Rightarrow> 'k \<Rightarrow> 'w bstate \<Rightarrow> bool" where
  "same_for k v s \<longleftrightarrow> breaker_unseen k (fst s) \<and> k (snd s) = v"

lemma breaker_unseen_cfg: "cfg b' = cfg b \<Longrightarrow> breaker_unseen k b' = breaker_unseen k b"
  by (simp add: breaker_unseen_def)

lemma same_locked:
  assumes "same_for k v s"
  shows "same_for k v (transitionLocked to s)" "same_for k v (resetCountsLocked s)" "same_for k v (rollWindowLocked s)"
    "same_for k v (maybeHalfOpenLocked s)" "same_for k v (release s)"
proof -
  obtain b w where s: "s = (b, w)" by (rule prod.exhaust)
  have t: "same_for k v (transitionLocked to (b, w'))" if "same_for k v (b, w')" for to w'
    using that by (auto simp: same_for_def transitionLocked_def breaker_unseen_def split: option.split)
  then show "same_for k v (transitionLocked to s)" using assms by (simp add: s)
  show "same_for k v (resetCountsLocked s)" "same_for k v (rollWindowLocked s)" "same_for k v (release s)"
    using assms by (auto simp: s same_for_def resetCountsLocked_def rollWindowLocked_def release_def breaker_unseen_def split_beta Let_def)
  have "same_for k v (b, snd (br_Now b w))" using assms by (simp add: s same_for_def breaker_unseen_def)
  from t [OF this, of StateHalfOpen] this assms show "same_for k v (maybeHalfOpenLocked s)"
    by (auto simp: s maybeHalfOpenLocked_def same_for_def breaker_unseen_def split_beta Let_def)
qed

lemma same_open:
  assumes "same_for k v s"
  shows "same_for k v (openLocked s)"
proof -
  obtain b w where t: "transitionLocked StateOpen s = (b, w)" by (rule prod.exhaust)
  have "same_for k v (b, w)" using same_locked(1) [OF assms, of StateOpen] t by simp
  then have "same_for k v (b\<lparr>openedAt := fst (br_Now b w)\<rparr>, snd (br_Now b w))" by (simp add: same_for_def breaker_unseen_def)
  from same_locked(2) [OF this] show ?thesis by (simp add: openLocked_def t split_beta Let_def)
qed

lemma same_fields:
  assumes "same_for k v (b, w)" "cfg b' = cfg b"
  shows "same_for k v (b', w)"
  using assms by (simp add: same_for_def breaker_unseen_def)

lemma same_record:
  assumes "same_for k v s"
  shows "same_for k v (Breaker_record ok s)"
proof -
  obtain b w where s: "s = (b, w)" by (rule prod.exhaust)
  obtain b' w' where r: "rollWindowLocked (b, w) = (b', w')" by (rule prod.exhaust)
  have "same_for k v (b', w')" using same_locked(3) [OF assms] by (simp add: s r)
  note same = same_fields [OF this] same_fields [OF assms [unfolded s]]
  show ?thesis
  proof (cases "state b")
    case StateOpen
    then show ?thesis using assms by (simp add: s Breaker_record_def)
  next
    case StateHalfOpen
    then show ?thesis by (auto simp: s record_halfOpen Let_def intro!: same(2) same_open same_locked)
  next
    case StateClosed
    then show ?thesis by (auto simp: s record_closed [OF _ r] intro!: same(1) same_open)
  qed
qed

lemma same_allow:
  assumes "same_for k v s"
  shows "same_for k v (snd (allow s))"
proof -
  obtain b w where m: "maybeHalfOpenLocked s = (b, w)" by (rule prod.exhaust)
  have b: "same_for k v (b, w)" using same_locked(4) [OF assms] by (simp add: m)
  show ?thesis using b same_fields [OF b] same_locked(3) [OF b] by (auto simp: allow_def m split: State.split)
qed

lemma same_Do:
  assumes "same_for k v s" "\<And>s. same_for k v s \<Longrightarrow> same_for k v (snd (fn s))"
  shows "same_for k v (snd (Breaker_Do ctxErr fn s))"
proof -
  obtain a s1 where a: "allow s = (a, s1)" by (rule prod.exhaust)
  obtain e s2 where e: "fn s1 = (e, s2)" by (rule prod.exhaust)
  have "same_for k v s1" using same_allow [OF assms(1)] a by simp
  moreover from this have "same_for k v s2" using assms(2) [of s1] e by simp
  ultimately show ?thesis by (auto simp: Breaker_Do_def a e same_record same_locked split: option.split)
qed

text \<open>A call of an upstream, with every retry and every change of its breaker.\<close>

lemma attempt_unseen: "client_unseen k net u \<Longrightarrow> k (snd (attempt bad u rid m p bd hs i w)) = k w"
  unfolding client_unseen_def attempt_def by (auto split: option.split prod.split sum.split) (metis snd_conv)+

lemma same_lift: "\<forall>w. k (snd (f w)) = k w \<Longrightarrow> same_for k v (fst x) \<Longrightarrow> same_for k v (fst (snd (lift f x)))"
  by (cases x; cases "fst x") (auto simp: lift_def same_for_def split_beta Let_def)

lemma Upstream_do_unseen:
  assumes "client_unseen k net u" "same_for k v s"
  shows "same_for k v (snd (Upstream_do net u ctx rid m p bd hs s))"
proof -
  let ?f = "attempt (net_bad_url net) u rid m p bd hs" and ?P = "\<lambda>x :: 'a call. same_for k v (fst x)"
  from assms(1) have n: "\<forall>w. k (snd (env_now (net_env net) w)) = k w" "\<And>e w. \<not> red e \<Longrightarrow> k (env_emit (net_env net) e w) = k w"
    "\<forall>w. k (snd (net_rand net w)) = k w" "\<And>d. \<forall>w. k (snd (net_wait net d w)) = k w"
    "\<And>f. Rand (up_retry u) = Some f \<Longrightarrow> \<forall>w. k (snd (f w)) = k w" "\<And>f ctx d. Sleep (up_retry u) = Some f \<Longrightarrow> \<forall>w. k (snd (f ctx d w)) = k w"
    "\<And>f i d e w. OnRetry (up_retry u) = Some f \<Longrightarrow> k (f i d e w) = k w"
    unfolding client_unseen_def by blast+
  have fn: "same_for k v (snd (on_world (?f i) s))" if "same_for k v s" for i s
    using that attempt_unseen [OF assms(1)] by (cases s) (auto simp: on_world_def same_for_def split_beta Let_def)
  have eff: "retry_effects (lift (env_now (net_env net))) (lift_ctx ctx) (do_config net u ctx) (guarded ctx ?f) ?P (\<lambda>_ _. True)"
  proof
    fix x :: "'a call" and i
    assume x: "?P x"
    show "?P (snd (guarded ctx ?f i x))"
      using same_Do [OF x fn] by (cases x) (simp add: guarded_def split_beta Let_def)
    show "?P (snd (the (Rand (do_config net u ctx)) x))"
      using x n(3,5) by (cases "Rand (up_retry u)") (auto simp: withDefaults_effects lift_retry_def intro!: same_lift)
    show "?P (snd (deadline_within (lift (env_now (net_env net))) (lift_ctx ctx) d x))" for d
      using same_lift [OF n(1) x] x by (auto simp: deadline_within_def split_beta Let_def split: option.split)
    show "?P (snd (the (Sleep (do_config net u ctx)) (lift_ctx ctx) d x))" for d
      using x n(4,6) by (cases "Sleep (up_retry u)")
        (auto simp: withDefaults_effects lift_retry_def sleepCtx_def split_beta Let_def intro!: same_lift)
    show "?P (f i d e x) \<and> True" if "OnRetry (do_config net u ctx) = Some f" for f d e
    proof -
      have "OnRetry (do_config net u ctx) = OnRetry (lift_retry ctx (up_retry u))" by (simp add: RetryConfig_withDefaults_def Let_def)
      with that obtain g where "OnRetry (up_retry u) = Some g" "f = (\<lambda>k d e ((b, w), res). ((b, g k d e w), res))"
        by (cases "OnRetry (up_retry u)") (auto simp: lift_retry_def)
      with x n(7) show ?thesis by (cases x; cases "fst x") (simp add: same_for_def)
    qed
  qed simp_all
  obtain b w where s: "s = (b, w)" by (rule prod.exhaust)
  obtain start w1 where t: "env_now (net_env net) w = (start, w1)" by (rule prod.exhaust)
  obtain err b2 w2 result where d: "do_retry net u ctx ?f ((b, w1), None) = (err, ((b2, w2), result))" by (metis prod.exhaust)
  have "same_for k v (b, w1)" using assms(2) n(1) t unfolding s same_for_def by (metis fst_conv snd_conv)
  then have "?P (snd (do_retry net u ctx ?f ((b, w1), None)))"
    unfolding do_retry_def Retry_def by (intro retry_effects.P_loop [OF eff]) simp
  then have "same_for k v (b2, w2)" by (simp add: d)
  then show ?thesis using n(1,2) by (auto simp: Upstream_do_def s t d same_for_def split_beta Let_def split: option.split)
qed

section \<open>The routes of the gateway\<close>

definition calm :: "('w \<Rightarrow> 'k) \<Rightarrow> 'k \<Rightarrow> 'w gateway \<Rightarrow> bool" where
  "calm k v s \<longleftrightarrow> same_for k v (gw_catalog s, gw_base s) \<and> same_for k v (gw_scorer s, gw_base s)"

text \<open>The routes, the clients of which leave \<open>k\<close> alone, change nothing that \<open>k\<close> shows.\<close>

definition clients_unseen :: "('w \<Rightarrow> 'k) \<Rightarrow> ('f, 'w) GatewayHandler \<Rightarrow> bool" where
  "clients_unseen k g \<longleftrightarrow> client_unseen k (gh_net g) (Catalog (gh_up g)) \<and> client_unseen k (gh_net g) (Scorer (gh_up g))"

lemma calm_on:
  assumes "calm k v s" "\<And>s. same_for k v s \<Longrightarrow> same_for k v (snd (f s))"
  shows "calm k v (snd (on_catalog f s))" "calm k v (snd (on_scorer f s))"
  using assms(1) assms(2) [of "(gw_catalog s, gw_base s)"] assms(2) [of "(gw_scorer s, gw_base s)"]
  by (auto simp: calm_def on_catalog_def on_scorer_def same_for_def split_beta Let_def)

lemma calm_log: "clients_unseen k g \<Longrightarrow> calm k v s \<Longrightarrow> calm k v (emit g (Log l m a) s)"
  by (auto simp: calm_def emit_def same_for_def clients_unseen_def client_unseen_def)

lemma calm_calls:
  assumes "clients_unseen k g" "calm k v s"
  shows "catalog_Get g r p s = (res, s') \<Longrightarrow> calm k v s'" "catalog_Post g r p b s = (res, s') \<Longrightarrow> calm k v s'"
    "scorer_Post g r p b s = (res, s') \<Longrightarrow> calm k v s'"
proof -
  from assms(1) have c: "client_unseen k (gh_net g) (Catalog (gh_up g))" "client_unseen k (gh_net g) (Scorer (gh_up g))"
    by (simp_all add: clients_unseen_def)
  have "calm k v (snd (catalog_Get g r p s))" "calm k v (snd (catalog_Post g r p b s))" "calm k v (snd (scorer_Post g r p b s))"
    unfolding catalog_Get_def catalog_Post_def scorer_Post_def Upstream_Get_def Upstream_Post_def
    by (rule calm_on [OF assms(2)], erule Upstream_do_unseen [OF c(1)] Upstream_do_unseen [OF c(2)])+
  then show "catalog_Get g r p s = (res, s') \<Longrightarrow> calm k v s'" "catalog_Post g r p b s = (res, s') \<Longrightarrow> calm k v s'"
    "scorer_Post g r p b s = (res, s') \<Longrightarrow> calm k v s'" by simp_all
qed

lemma calm_relay: "clients_unseen k g \<Longrightarrow> calm k v s \<Longrightarrow> calm k v (snd (relayUpstreamError g r n resp s))"
  by (auto simp: relayUpstreamError_def calm_log split_beta Let_def)

lemma calm_handlers:
  assumes "clients_unseen k g" "calm k v s"
  shows "calm k v (snd (proxy g r m p b s))" "calm k v (snd (score_with g r req d deg why s))"
    "fetchDevice g r i s = (res, s') \<Longrightarrow> calm k v s'"
proof -
  note calls = calm_calls [OF assms] and emits = calm_log [OF assms(1)] and relays = calm_relay [OF assms(1)]
  show "calm k v (snd (proxy g r m p b s))"
    by (cases "if m = ''GET'' then catalog_Get g r p s else catalog_Post g r p b s")
      (auto simp: proxy_def proxy_result_def intro: relays emits dest: calls split: sum.split option.split if_splits)
  show "calm k v (snd (score_with g r req d deg why s))"
    using assms(2) by (auto simp: score_with_def intro: relays emits dest: calls split: sum.split option.split prod.split)
  show "fetchDevice g r i s = (res, s') \<Longrightarrow> calm k v s'"
    using assms(2) by (auto simp: fetchDevice_def dest: calls split: sum.splits option.splits prod.splits if_splits)
qed

lemma calm_ScoreReading:
  assumes "clients_unseen k g" "calm k v s"
  shows "calm k v (snd (ScoreReading g r s))"
proof -
  note f = calm_handlers(3) [OF assms] and sw = calm_handlers(2) [OF assms(1)] and emits = calm_log [OF assms(1)]
  show ?thesis using assms(2)
    by (auto simp: ScoreReading_def intro: sw emits dest: f split: sum.split option.split prod.split)
qed

lemma calm_Dependencies:
  assumes "calm k v s"
  shows "calm k v (snd (Dependencies g r s))"
proof -
  have b: "same_for k v s \<Longrightarrow> same_for k v (snd (BreakerState s))" for s
    using same_locked(4) [of k v s] by (simp add: BreakerState_def Breaker_State_def split_beta Let_def)
  have "calm k v (snd (on_scorer BreakerState (snd (on_catalog BreakerState s))))" by (intro calm_on assms b)
  then show ?thesis by (simp add: Dependencies_def split_beta Let_def)
qed

lemma calm_routes:
  assumes "clients_unseen k g" "calm k v s"
  shows "calm k v (snd (ServeMux url (Gateway_Routes g) r s))"
proof -
  note routes = calm_handlers(1) [OF assms] calm_ScoreReading [OF assms] calm_Dependencies [OF assms(2)]
  have "calm k v (snd (route_handler rt q s))" if "rt \<in> set (Gateway_Routes g)" for rt q
    using that routes assms(2)
    by (auto simp: Gateway_Routes_def ListDevices_def CreateDevice_def GetDevice_def Let_def split: sum.split)
  then show ?thesis using assms(2)
    by (auto simp: ServeMux_def find_route_def find_Some_iff Let_def split_beta split: option.split)
qed

section \<open>The chain of the gateway\<close>

text \<open>
  How \<open>run\<close> wires the state: the clock of the limiter is that of the process, and the breakers tell the log and
  their own instruments of their changes.
\<close>

definition wired :: "'w Env \<Rightarrow> ('w \<Rightarrow> 'k) \<Rightarrow> 'w gateway \<Rightarrow> bool" where
  "wired env k s \<longleftrightarrow> fl_now (gw_limiter s) = env_now env \<and> breaker_unseen k (gw_catalog s) \<and> breaker_unseen k (gw_scorer s)"

lemma NewBreaker_unseen:
  assumes "registry env signals J" "Now (uc_Breaker c) = None"
  shows "breaker_unseen signals (fst (snd (NewUpstream env mk c m lg w)))"
  using assms(2) registry.emit_seen [OF assms(1)] registry.now_unseen [OF assms(1)]
  by (simp add: breaker_unseen_def NewUpstream_def NewBreaker_def BreakerConfig_withDefaults_def onStateChange_def split_beta Let_def)

lemma NewClient_unseen:
  assumes "registry (net_env net) signals J" "\<And>w. signals (snd (net_rand net w)) = signals w"
    and "\<And>d w. signals (snd (net_wait net d w)) = signals w" "\<And>d rq w. signals (snd (mk d rq w)) = signals w"
    and "Rand (uc_Retry c) = None" "Sleep (uc_Retry c) = None"
  shows "client_unseen signals net (fst (NewUpstream (net_env net) mk c m lg w))"
  using assms(2-6) registry.emit_seen [OF assms(1)] registry.now_unseen [OF assms(1)]
  by (simp add: client_unseen_def NewUpstream_def onRetry_def split_beta Let_def)

lemma registry_gw:
  assumes "registry env signals (\<lambda>_. True)"
  shows "registry (gw_env env) (\<lambda>s. signals (gw_base s)) (wired env signals)"
  using assms by (auto simp: registry_def gw_env_def wired_def split_beta Let_def)

lemma unseen_limiter:
  assumes "registry env signals (\<lambda>_. True)" "unseen (wired env signals) (\<lambda>s. signals (gw_base s)) h"
  shows "unseen (wired env signals) (\<lambda>s. signals (gw_base s)) (RateLimiter_Middleware get_limiter put_limiter RateLimitKey h)"
proof -
  have "signals (snd (snd (fl_Allow c (gw_limiter s, gw_base s)))) = signals (gw_base s)"
    "fl_now (fst (snd (fl_Allow c (gw_limiter s, gw_base s)))) = env_now env" if "wired env signals s" for c s
    using that registry.now_unseen [OF assms(1)] by (simp_all add: wired_def fl_Allow_eq Let_def)
  then show ?thesis using assms(2)
    by (auto simp: unseen_def wired_def RateLimiter_Middleware_def zoom_def get_limiter_def put_limiter_def split_beta Let_def)
qed

lemma unseen_Authenticate: "unseen J signals h \<Longrightarrow> unseen J signals (Authenticate sha keys h)"
  by (auto simp: unseen_def Authenticate_def split_beta Let_def split: option.split)

lemma unseen_MaxBodyBytes: "unseen J signals h \<Longrightarrow> unseen J signals (MaxBodyBytes n h)"
  by (simp add: unseen_def MaxBodyBytes_def)

lemma unseen_routes:
  assumes "clients_unseen signals g"
  shows "unseen (wired env signals) (\<lambda>s. signals (gw_base s)) (ServeMux url (Gateway_Routes g))"
proof -
  have "signals (gw_base (snd (ServeMux url (Gateway_Routes g) r s))) = signals (gw_base s)" if "wired env signals s" for r s
    using calm_routes [OF assms, of "signals (gw_base s)" s url r] that by (simp add: wired_def calm_def same_for_def)
  then show ?thesis by (simp add: unseen_def)
qed

lemma gateway_counted:
  assumes "registry env signals (\<lambda>_. True)" "clients_unseen signals g" "\<And>w. signals (snd (sched w)) = signals w"
  shows "counted (wired env signals) (\<lambda>s. signals (gw_base s))
    (gateway_public env sz logger stack sha keys sched timeout (ServeMux url (Gateway_Routes g)))"
proof -
  note gw = registry_gw [OF assms(1)]
  let ?inner = "ServeMux url (Gateway_Routes g)"
  have "unseen (wired env signals) (\<lambda>s. signals (gw_base s)) (MaxBodyBytes (2 ^ 20) (Authenticate sha (Some keys)
      (RateLimiter_Middleware get_limiter put_limiter RateLimitKey (Timeout (gw_env env) sz (lift_sched sched) timeout ?inner))))"
    by (intro unseen_MaxBodyBytes unseen_Authenticate unseen_limiter assms(1) registry.unseen_Timeout [OF gw] unseen_routes assms(2))
      (simp add: lift_sched_def assms(3) split_beta Let_def)
  then show ?thesis unfolding gateway_public_def Chain_def
    by (simp add: registry.counted_outer [OF gw] unpanicked_stack blind_stack)
qed


abbreviation wit_seen :: "time \<times> event list \<Rightarrow> event list" where
  "wit_seen w \<equiv> filter red (snd w)"

lemma wit_signals: "registry wit_env wit_seen (\<lambda>_. True)" "clients_unseen wit_seen (wit_gateway True)" "wired wit_env wit_seen wit_gw"
proof -
  show reg: "registry wit_env wit_seen (\<lambda>_. True)" by unfold_locales (auto simp: wit_env_def split_beta)
  have net: "net_env wit_net = wit_env" by (simp add: wit_net_def)
  have up: "breaker_unseen wit_seen (fst (snd (wit_upstream st)))" "client_unseen wit_seen wit_net (fst (wit_upstream st))" for st
    unfolding wit_upstream_def using NewBreaker_unseen [OF reg] NewClient_unseen [of wit_net wit_seen "\<lambda>_. True"] reg
    by (simp_all add: net) (simp add: wit_net_def split_beta)
  show "clients_unseen wit_seen (wit_gateway True)" "wired wit_env wit_seen wit_gw"
    using up by (simp_all add: clients_unseen_def wit_gateway_def wired_def wit_gw_def fl_NewRateLimiter_def Let_def)
qed


text \<open>
  Recovery is outside the metrics, which record after the handler has returned: a panic that Recovery answers with
  500 leaves the request counter and the histograms as they were.
\<close>

lemma recovered_panic_not_counted:
  assumes "registry env signals J" "\<And>r s. signals (snd (h r s)) = signals s" "ending (fst (h r (snd (env_now env (env_emit env (RequestsInFlight 1) s))))) = Panicked (PanicValue v)"
  shows "let (x, s') = Recovery env stack (SecurityHeaders (Metrics env sz h)) r s
    in ending x = Returned \<and> signals s' = signals s @ [RequestsInFlight 1, RequestsInFlight (-1)]"
  using assms(2,3) registry.emit_seen [OF assms(1)] registry.now_unseen [OF assms(1)]
  by (simp add: Recovery_def SecurityHeaders_def Metrics_def before_def split_beta Let_def)

section \<open>The chain of the catalog\<close>

text \<open>The same holds of the catalog, whose store is not where the registry is.\<close>

lemma unseen_catalog_routes:
  assumes "registry (h_env h) signals (\<lambda>_. True)" "\<And>st w. signals (h_put h st w) = signals w"
  shows "unseen (\<lambda>_. True) signals (ServeMux url (Catalog_Routes h))"
proof -
  have repo: "signals (snd (on_repo h f w)) = signals w" for f and w by (simp add: on_repo_def assms(2) split_beta Let_def)
  have err: "signals (snd (writeRepoError h r e w)) = signals w" for r e w
    using registry.emit_seen [OF assms(1)] by (simp add: writeRepoError_def)
  have kept: "on_repo h f w = (a, w') \<Longrightarrow> signals w' = signals w" for f and a :: 'z and w w' using repo [of f w] by simp
  have "signals (snd (route_handler rt r w)) = signals w" if "rt \<in> set (Catalog_Routes h)" for rt r w
    using that by (auto simp: Catalog_Routes_def Catalog_Get_def Catalog_List_def Catalog_Create_def err Let_def dest: kept split: sum.split prod.split)
  then show ?thesis
    by (auto simp: unseen_def ServeMux_def find_route_def find_Some_iff Let_def split_beta split: option.split)
qed

lemma catalog_counted:
  assumes "registry (h_env h) signals (\<lambda>_. True)" "\<And>st w. signals (h_put h st w) = signals w" "\<And>w. signals (snd (sched w)) = signals w"
  shows "counted (\<lambda>_. True) signals (catalog_public (h_env h) sz logger stack sched timeout (ServeMux url (Catalog_Routes h)))"
proof -
  have "unseen (\<lambda>_. True) signals (MaxBodyBytes (256 * 2 ^ 10) (Timeout (h_env h) sz sched timeout (ServeMux url (Catalog_Routes h))))"
    by (intro unseen_MaxBodyBytes registry.unseen_Timeout [OF assms(1)] unseen_catalog_routes assms)
  then show ?thesis unfolding catalog_public_def Chain_def
    by (simp add: registry.counted_outer [OF assms(1)] unpanicked_stack blind_stack)
qed

section \<open>The route label\<close>

text \<open>
  C39. The request metrics of the two services as they are wired never name a route. A request comes from the server
  with an empty \<open>Pattern\<close>. The mux stores the pattern that matches in the request it is given, which in both public
  chains is a copy made by \<open>Timeout\<close>, and in the gateway by \<open>Authenticate\<close> before; \<open>Metrics\<close> reads the request
  from before the copy. So every request that either service answers, matched or not, is counted, timed and
  sized under the route \<open>unmatched\<close>. In a chain that has neither of the two between \<open>Metrics\<close> and the mux, such
  as the one that the tests of the middleware build, the label is the pattern: \<open>route_label_matched\<close>.
\<close>

theorem route_label_unmatched:
  assumes "registry env signals (\<lambda>_. True)" "clients_unseen signals g" "wired env signals s" "\<And>w. signals (snd (sched w)) = signals w"
    and "Pattern r = []" "gateway_public env sz logger stack sha keys sched timeout (ServeMux url (Gateway_Routes g)) r s = (x, s')"
    and "ending x = Returned"
    and "registry (h_env h) csignals (\<lambda>_. True)" "\<And>st w. csignals (h_put h st w) = csignals w" "\<And>w. csignals (snd (csched w)) = csignals w"
    and "Pattern q = []" "catalog_public (h_env h) csz clogger cstack csched ctimeout (ServeMux url (Catalog_Routes h)) q w = (y, w')"
    and "ending y = Returned"
  shows "(\<exists>secs bytes. signals (gw_base s') = signals (gw_base s) @ served (Method r) ''unmatched'' (run_status x) secs bytes) \<and>
    (\<exists>secs bytes. csignals w' = csignals w @ served (Method q) ''unmatched'' (run_status y) secs bytes)"
proof
  show "\<exists>secs bytes. signals (gw_base s') = signals (gw_base s) @ served (Method r) ''unmatched'' (run_status x) secs bytes"
    using countedD [OF gateway_counted [OF assms(1,2,4)] assms(3), where r = r] assms(5-7)
    by (metis routeOf_def fst_conv snd_conv)
  show "\<exists>secs bytes. csignals w' = csignals w @ served (Method q) ''unmatched'' (run_status y) secs bytes"
    using countedD [OF catalog_counted [OF assms(8-10)] TrueI, where r = q and s = w] assms(11-13)
    by (metis routeOf_def fst_conv snd_conv)
qed

text \<open>Handlers that return, on the requests of a set.\<close>

definition returning :: "('x Request \<Rightarrow> bool) \<Rightarrow> ('v, 'x) Handler \<Rightarrow> bool" where
  "returning P h \<longleftrightarrow> (\<forall>r s. P r \<longrightarrow> ending (fst (h r s)) = Returned)"

lemma returning_stack:
  assumes "passes_on P" "returning P h"
  shows "returning P (Timeout env sz sched d h)" "returning P (RateLimiter_Middleware get put key h)"
    "returning P (Authenticate sha keys h)" "returning P (MaxBodyBytes n h)" "returning P (Metrics env sz h)"
    "returning P (SecurityHeaders h)" "returning P (Recovery env stack h)" "returning P (Logging env sz lg h)"
    "returning P (RequestIDMiddleware env h)"
proof -
  have h: "ending (fst (h r s)) = Returned" if "P r" for r s using assms(2) that by (simp add: returning_def)
  have c: "P (WithContext ctx r) = P r" "P (r\<lparr>Body := b\<rparr>) = P r" for ctx r b using assms(1) by (simp_all add: passes_on_def)
  show "returning P (Timeout env sz sched d h)" "returning P (RateLimiter_Middleware get put key h)" "returning P (MaxBodyBytes n h)"
    "returning P (Metrics env sz h)" "returning P (SecurityHeaders h)" "returning P (Recovery env stack h)"
    "returning P (Logging env sz lg h)" "returning P (RequestIDMiddleware env h)"
    by (simp_all add: returning_def h c Timeout_def RateLimiter_Middleware_def MaxBodyBytes_def Metrics_def SecurityHeaders_def
        Recovery_def Logging_def RequestIDMiddleware_def before_def respond_def split_beta Let_def)
  show "returning P (Authenticate sha keys h)"
    by (simp add: returning_def h c Authenticate_def respond_def split_beta Let_def split: option.split)
qed

lemma dependencies_return:
  "returning (\<lambda>r. Method r = ''GET'' \<and> Path r = ''/api/v1/dependencies'') (ServeMux url (Gateway_Routes g))"
proof -
  have "cleanPath ''/api/v1/dependencies'' = ''/api/v1/dependencies''" by code_simp
  moreover have "path_segs ''/api/v1/dependencies'' = [''api'', ''v1'', ''dependencies'']" by code_simp
  ultimately show ?thesis
    by (simp add: returning_def ServeMux_def find_route_def Gateway_Routes_def Dependencies_def respond_def split_beta Let_def)
qed

text \<open>A request for the state of the dependencies, with a key, and one of a client of the catalog for a device.\<close>

definition wit_catalog_handler :: "(unit, time \<times> event list) CatalogHandler" where
  "wit_catalog_handler = \<lparr>h_repo = h_repo wit_handler, h_get = (\<lambda>_. ()), h_put = (\<lambda>_ w. w), h_env = wit_env,
     h_uni = (\<lambda>s. s), h_decode = (\<lambda>_. Inr wit_device)\<rparr>"

lemma route_label_unmatched_witness:
  "\<exists>st secs bytes st' secs' bytes'.
     filter red (snd (gw_base (snd (gateway_public wit_env (\<lambda>_. 1) [] [] (\<lambda>k. k) wit_keys (\<lambda>w. ([], w)) Second
       (ServeMux (\<lambda>p q. p) (Gateway_Routes (wit_gateway True)))
       (wit_request ''GET'' ''/api/v1/dependencies'' [''X-Api-Key'' \<mapsto> [''k-1'']] []) wit_gw)))) = served ''GET'' ''unmatched'' st secs bytes \<and>
     filter red (snd (snd (catalog_public wit_env (\<lambda>_. 1) [] [] (\<lambda>w. ([], w)) Second
       (ServeMux (\<lambda>p q. p) (Catalog_Routes wit_catalog_handler)) (wit_request ''GET'' ''/v1/devices/pump-7'' Map.empty []) (0, []))))
       = served ''GET'' ''unmatched'' st' secs' bytes'"
proof -
  let ?sig = "\<lambda>w :: time \<times> event list. filter red (snd w)"
  let ?r = "wit_request ''GET'' ''/api/v1/dependencies'' [''X-Api-Key'' \<mapsto> [''k-1'']] [] :: (time \<times> event list) gateway Request"
  let ?q = "wit_request ''GET'' ''/v1/devices/pump-7'' Map.empty [] :: (time \<times> event list) Request"
  let ?P = "\<lambda>r :: (time \<times> event list) gateway Request. Method r = ''GET'' \<and> Path r = ''/api/v1/dependencies''"
  let ?G = "gateway_public wit_env (\<lambda>_. 1) [] [] (\<lambda>k. k) wit_keys (\<lambda>w. ([], w)) Second (ServeMux (\<lambda>p q. p) (Gateway_Routes (wit_gateway True)))"
  let ?C = "catalog_public wit_env (\<lambda>_. 1) [] [] (\<lambda>w. ([], w)) Second (ServeMux (\<lambda>p q. p) (Catalog_Routes wit_catalog_handler))"
  have "passes_on ?P" by (simp add: passes_on_def WithContext_def)
  then have "returning ?P ?G" unfolding gateway_public_def Chain_def
    by (simp add: returning_stack [OF \<open>passes_on ?P\<close>] dependencies_return)
  then have G: "ending (fst (?G ?r wit_gw)) = Returned" by (simp add: returning_def wit_request_def)
  have c: "passes_on (\<lambda>_. True)" by (simp add: passes_on_def)
  have "returning (\<lambda>_. True) (ServeMux (\<lambda>p q. p) (Catalog_Routes wit_catalog_handler))"
    by (auto simp: returning_def ServeMux_def find_route_def find_Some_iff Catalog_Routes_def Catalog_Get_def Catalog_List_def
        Catalog_Create_def writeRepoError_def respond_def split_beta Let_def split: option.split sum.split)
  then have "returning (\<lambda>_. True) ?C" unfolding catalog_public_def Chain_def by (simp add: returning_stack [OF c])
  then have C: "ending (fst (?C ?q (0, []))) = Returned" by (simp add: returning_def)
  have e: "h_env wit_catalog_handler = wit_env" "\<And>st w. h_put wit_catalog_handler st w = w" by (simp_all add: wit_catalog_handler_def)
  have p: "Pattern ?r = []" "Pattern ?q = []" "Method ?r = ''GET''" "Method ?q = ''GET''" by (simp_all add: wit_request_def)
  have b: "wit_seen (gw_base wit_gw) = []" by (simp add: wit_gw_def)
  have "(\<exists>secs bytes. wit_seen (gw_base (snd (?G ?r wit_gw))) = wit_seen (gw_base wit_gw) @ served (Method ?r) ''unmatched'' (run_status (fst (?G ?r wit_gw))) secs bytes) \<and>
    (\<exists>secs bytes. wit_seen (snd (?C ?q (0, []))) = wit_seen (0, []) @ served (Method ?q) ''unmatched'' (run_status (fst (?C ?q (0, [])))) secs bytes)"
    by (rule route_label_unmatched [OF wit_signals _ p(1) surjective_pairing G, where h = wit_catalog_handler and csched = "\<lambda>w. ([], w)"])
      (use wit_signals(1) C p(2) in \<open>simp_all add: e\<close>)
  then show ?thesis unfolding b p(3,4) by auto
qed

text \<open>The label in a chain where the mux changes the very request that the metrics read.\<close>

lemma route_label_matched:
  assumes "registry env signals J" "J s" "cleanPath (Path r) = Path r" "find_route routes (Method r) (Path r) = Some (rt, m)" "route_pattern rt \<noteq> []"
    and "\<And>q s. J s \<Longrightarrow> signals (snd (route_handler rt q s)) = signals s" "\<And>q s. \<exists>os. fst (route_handler rt q s) = respond q os"
  shows "\<exists>st secs bytes. signals (snd (Metrics env sz (ServeMux url routes) r s)) = signals s @ served (Method r) (route_pattern rt) st secs bytes"
proof -
  let ?q = "r\<lparr>Pattern := route_pattern rt, PathValues := map_of m\<rparr>"
  obtain t s1 where n: "env_now env (env_emit env (RequestsInFlight 1) s) = (t, s1)" by (rule prod.exhaust)
  have s1: "signals s1 = signals s @ [RequestsInFlight 1]" "J s1"
    using n assms(2) registry.now_unseen [OF assms(1), of "env_emit env (RequestsInFlight 1) s"] registry.emit_seen [OF assms(1)]
      registry.J_now [OF assms(1), of "env_emit env (RequestsInFlight 1) s"] registry.J_emit [OF assms(1)] by simp_all
  obtain os s2 where h: "route_handler rt ?q s1 = (respond ?q os, s2)" using assms(7) [of ?q s1] by (metis prod.collapse)
  have s2: "signals s2 = signals s1" using assms(6) [OF s1(2), of ?q] h by simp
  have "ServeMux url routes r s1 = (respond ?q os, s2)" using assms(3,4) h by (simp add: ServeMux_def)
  then show ?thesis
    by (intro exI) (simp add: Metrics_def n respond_def routeOf_def assms(5) served_def registry.emit_seen [OF assms(1)]
        registry.now_unseen [OF assms(1)] s1 s2 Let_def split_beta)
qed

end
