(* ===== verification/ScorerLog.thy ===== *)
theory ScorerLog
  imports Scorer "HOL-Library.AList"
begin

text \<open>
  The scorer's logging, \<open>services/scorer/app/logging_config.py\<close>: the JSON formatter and the set-up of the
  loggers. What the module uses of Python's \<open>logging\<close> is defined here: records with their attributes in order,
  the tree of loggers, and the walk of a record from its logger to the root.
\<close>

section \<open>The formatter\<close>

text \<open>A dictionary keeps the order of insertion; assigning to a key that it has keeps the key's place.\<close>

datatype 'v log_value = Text string | Value 'v

type_synonym 'v log_dict = "(string \<times> 'v log_value) list"

text \<open>
  A record: \<open>lr_message\<close>, \<open>lr_time\<close> and \<open>lr_exc\<close> are what \<open>getMessage\<close>, \<open>formatTime\<close> and, when there is an exception,
  \<open>formatException\<close> return for it; \<open>lr_dict\<close> is its \<open>__dict__\<close>.
\<close>

record 'v LogRecord =
  lr_name :: string
  lr_levelname :: string
  lr_message :: string
  lr_time :: string
  lr_exc :: "string option"
  lr_dict :: "'v log_dict"

definition STANDARD_ATTRS :: "string list" where
  "STANDARD_ATTRS = [''name'', ''msg'', ''args'', ''levelname'', ''levelno'', ''pathname'', ''filename'', ''module'', ''exc_info'',
     ''exc_text'', ''stack_info'', ''lineno'', ''funcName'', ''created'', ''msecs'', ''relativeCreated'', ''thread'', ''threadName'',
     ''processName'', ''process'', ''message'', ''asctime'', ''taskName'']"

definition extra_attr :: "string \<Rightarrow> bool" where
  "extra_attr key \<longleftrightarrow> key \<notin> set STANDARD_ATTRS \<and> \<not> prefix ''_'' key"

definition JSONFormatter :: "string \<Rightarrow> string \<Rightarrow> string \<Rightarrow> 'v log_dict" where
  "JSONFormatter service version environment =
     [(''service'', Text service), (''version'', Text version), (''environment'', Text environment)]"

definition add_extras :: "'v log_dict \<Rightarrow> 'v log_dict \<Rightarrow> 'v log_dict" where
  "add_extras payload items = foldl (\<lambda>p (key, v). if extra_attr key then AList.update key v p else p) payload items"

text \<open>The payload that \<open>json.dumps\<close> is given; \<open>rid\<close> is the value of \<open>request_id_var\<close>.\<close>

definition format_record :: "'v log_dict \<Rightarrow> string \<Rightarrow> 'v LogRecord \<Rightarrow> 'v log_dict" where
  "format_record base rid r =
     (let payload = foldl (\<lambda>p (k, v). AList.update k v p) base
            [(''time'', Text (lr_time r)), (''level'', Text (map ascii_lower (lr_levelname r))),
             (''msg'', Text (lr_message r)), (''logger'', Text (lr_name r))];
          payload = (if rid \<noteq> [] then AList.update ''request_id'' (Text rid) payload else payload);
          payload = add_extras payload (lr_dict r)
      in case lr_exc r of Some e \<Rightarrow> AList.update ''error'' (Text e) payload | None \<Rightarrow> payload)"

section \<open>The loggers\<close>

datatype log_handler = JSONStream string string string | OtherHandler string

record PyLogger =
  pl_handlers :: "log_handler list"
  pl_propagate :: bool
  pl_level :: int

record Loggers =
  root :: PyLogger
  named :: "string \<rightharpoonup> PyLogger"

definition getLogger :: "string \<Rightarrow> Loggers \<Rightarrow> PyLogger" where
  "getLogger n ls = (case named ls n of Some l \<Rightarrow> l | None \<Rightarrow> \<lparr>pl_handlers = [], pl_propagate = True, pl_level = 0\<rparr>)"

text \<open>The attributes of the module \<open>logging\<close> whose names are in upper case: levels, a format and a table.\<close>

datatype module_attr = LevelAttr int | NoLevel string

definition logging_attr :: "string \<Rightarrow> module_attr option" where
  "logging_attr n = map_of
     [(''CRITICAL'', LevelAttr 50), (''FATAL'', LevelAttr 50), (''ERROR'', LevelAttr 40), (''WARNING'', LevelAttr 30), (''WARN'', LevelAttr 30),
      (''INFO'', LevelAttr 20), (''DEBUG'', LevelAttr 10), (''NOTSET'', LevelAttr 0),
      (''BASIC_FORMAT'', NoLevel ''ValueError''), (''_STYLES'', NoLevel ''TypeError'')] n"

text \<open>
  \<open>configure_logging\<close>: the exception that \<open>setLevel\<close> raises for an attribute that is no level, and the loggers as
  they are then. \<open>upper\<close> is \<open>str.upper\<close> outside ASCII.
\<close>

definition configure_logging ::
  "(string \<Rightarrow> string) \<Rightarrow> string \<Rightarrow> string \<Rightarrow> string \<Rightarrow> string \<Rightarrow> Loggers \<Rightarrow> string option \<times> Loggers" where
  "configure_logging upper level service version environment ls =
     (let ls = ls\<lparr>root := (root ls)\<lparr>pl_handlers := [JSONStream service version environment]\<rparr>\<rparr>
      in case (case logging_attr (ToUpper upper level) of Some a \<Rightarrow> a | None \<Rightarrow> LevelAttr 20) of
           NoLevel e \<Rightarrow> (Some e, ls)
         | LevelAttr n \<Rightarrow>
             (None, foldl (\<lambda>ls nm. ls\<lparr>named := (named ls)(nm \<mapsto> (getLogger nm ls)\<lparr>pl_handlers := [], pl_propagate := True\<rparr>)\<rparr>)
                (ls\<lparr>root := (root ls)\<lparr>pl_level := n\<rparr>\<rparr>) [''uvicorn'', ''uvicorn.error'', ''uvicorn.access'']))"

text \<open>
  \<open>Logger.callHandlers\<close>: the handlers of a logger and of the loggers above it, up to one that does not propagate.
  The loggers above one are those named by what comes before a dot in its name, where they exist.
\<close>

definition above :: "string \<Rightarrow> string list" where
  "above n = map (\<lambda>i. take i n) (filter (\<lambda>i. n ! i = CHR ''.'') (rev [0..<length n]))"

fun callHandlers :: "Loggers \<Rightarrow> string list \<Rightarrow> log_handler list" where
  "callHandlers ls [] = pl_handlers (root ls)"
| "callHandlers ls (n # ns) =
     (case named ls n of
        None \<Rightarrow> callHandlers ls ns
      | Some l \<Rightarrow> pl_handlers l @ (if pl_propagate l then callHandlers ls ns else []))"

definition handled_by :: "Loggers \<Rightarrow> string \<Rightarrow> log_handler list" where
  "handled_by ls n = callHandlers ls (n # above n)"

section \<open>What a line contains\<close>

lemma map_of_extras:
  "distinct (map fst items) \<Longrightarrow>
   map_of (add_extras payload items) k = (case map_of (filter (\<lambda>(k, _). extra_attr k) items) k of Some v \<Rightarrow> Some v | None \<Rightarrow> map_of payload k)"
proof (induction items arbitrary: payload)
  case (Cons i items)
  obtain key v where i: "i = (key, v)" by (rule prod.exhaust)
  have fresh: "map_of (filter (\<lambda>(k, _). extra_attr k) items) key = None"
    using Cons.prems by (auto simp: i map_of_eq_None_iff image_iff)
  show ?case using Cons fresh by (auto simp: i add_extras_def AList.update_conv' split: option.split)
qed (simp add: add_extras_def)

lemma distinct_extras: "distinct (map fst payload) \<Longrightarrow> distinct (map fst (add_extras payload items))"
  unfolding add_extras_def by (induction items arbitrary: payload) (auto simp: distinct_update)

text \<open>
  The line of a record, in full: it has no key twice, so it is one JSON object; the attributes that the caller
  added with \<open>extra\<close> are its top-level keys with their values; the correlation id is there exactly when it is
  set; and the text of an exception is under \<open>error\<close>. An attribute added by the caller replaces a field of the
  formatter with the same name.
\<close>

lemma format_record_fields:
  assumes "distinct (map fst (lr_dict r))"
  shows "distinct (map fst (format_record (JSONFormatter service version environment) rid r))"
    and "map_of (format_record (JSONFormatter service version environment) rid r) k =
      (if k = ''error'' \<and> lr_exc r \<noteq> None then Some (Text (the (lr_exc r)))
       else case map_of (filter (\<lambda>(k, _). extra_attr k) (lr_dict r)) k of
         Some v \<Rightarrow> Some v
       | None \<Rightarrow> map_of ([(''service'', Text service), (''version'', Text version), (''environment'', Text environment),
            (''time'', Text (lr_time r)), (''level'', Text (map ascii_lower (lr_levelname r))), (''msg'', Text (lr_message r)),
            (''logger'', Text (lr_name r))] @ (if rid = [] then [] else [(''request_id'', Text rid)])) k)"
proof -
  let ?fields = "[(''service'', Text service), (''version'', Text version), (''environment'', Text environment),
    (''time'', Text (lr_time r)), (''level'', Text (map ascii_lower (lr_levelname r))), (''msg'', Text (lr_message r)),
    (''logger'', Text (lr_name r))] @ (if rid = [] then [] else [(''request_id'', Text rid)])"
  have f: "format_record (JSONFormatter service version environment) rid r =
      (case lr_exc r of Some e \<Rightarrow> AList.update ''error'' (Text e) (add_extras ?fields (lr_dict r)) | None \<Rightarrow> add_extras ?fields (lr_dict r))"
    by (cases "lr_exc r") (simp_all add: format_record_def JSONFormatter_def Let_def)
  have "distinct (map fst ?fields)" by simp
  then show "distinct (map fst (format_record (JSONFormatter service version environment) rid r))"
    unfolding f by (auto simp: distinct_update distinct_extras simp del: append.simps split: option.split)
  show "map_of (format_record (JSONFormatter service version environment) rid r) k =
      (if k = ''error'' \<and> lr_exc r \<noteq> None then Some (Text (the (lr_exc r)))
       else case map_of (filter (\<lambda>(k, _). extra_attr k) (lr_dict r)) k of Some v \<Rightarrow> Some v | None \<Rightarrow> map_of ?fields k)"
    unfolding f by (cases "lr_exc r") (simp_all only: option.case AList.update_conv' map_of_extras [OF assms] fun_upd_apply, simp_all)
qed

section \<open>Each line once\<close>

text \<open>
  After \<open>configure_logging\<close> every line of the server is written once, by the JSON handler: whatever handlers
  \<open>uvicorn\<close> had installed on its loggers are gone, and its records reach the root.
\<close>

lemma uvicorn_logged_once:
  assumes "configure_logging upper level service version environment ls = (None, ls')"
    and "n \<in> {''uvicorn'', ''uvicorn.error'', ''uvicorn.access''}"
  shows "handled_by ls' n = [JSONStream service version environment]"
proof -
  have "above ''uvicorn'' = []" "above ''uvicorn.error'' = [''uvicorn'']" "above ''uvicorn.access'' = [''uvicorn'']" by code_simp+
  then show ?thesis using assms
    by (auto simp: configure_logging_def handled_by_def Let_def split: module_attr.splits)
qed

text \<open>A log level whose name is another attribute of the module, such as \<open>basic_format\<close>, stops the service at its start.\<close>

lemma log_level_not_validated: "fst (configure_logging upper ''basic_format'' service version environment ls) = Some ''ValueError''"
proof -
  have "ToUpper upper ''basic_format'' = ''BASIC_FORMAT''" by code_simp
  then show ?thesis by (simp add: configure_logging_def logging_attr_def)
qed

section \<open>One query for three services\<close>

text \<open>
  The level in a line: \<open>slog\<close> writes the name of the level, the formatter the name of Python's level in lower
  case. No text is both, so a query that selects one of them finds the lines of one language only.
\<close>

fun slog_level :: "level \<Rightarrow> string" where
  "slog_level LevelDebug = ''DEBUG''"
| "slog_level LevelInfo = ''INFO''"
| "slog_level LevelWarn = ''WARN''"
| "slog_level LevelError = ''ERROR''"

lemma levels_never_agree: "slog_level l \<noteq> map ascii_lower s"
proof -
  have lower: "\<not> (65 \<le> (of_char (ascii_lower c) :: nat) \<and> (of_char (ascii_lower c) :: nat) \<le> 90)" for c
    by (auto simp: ascii_lower_def Let_def)
  have "hd (map ascii_lower s) \<noteq> hd (slog_level l)" if "s \<noteq> []"
    using that lower [of "hd s"] by (cases l; cases s) auto
  then show ?thesis by (cases l; cases s) auto
qed

end
