(* ===== verification/Spec2Isabelle.thy ===== *)
theory Spec2Isabelle
  imports Registration Signals ScorerLog
begin

text \<open>
  The services of the EKS microservices platform (\<open>src/eks-microservices-platform\<close>): a gateway in Go,
  which authenticates and limits clients and fans out to two services behind it, a catalog of devices
  in Go and a scorer in Python, which rates the last reading of a window. This development models the
  code of the three services and of the packages they share, and proves what makes each part correct
  and what the parts give together.

  \<^bold>\<open>The parts and how they interact.\<close> A request to the gateway passes the chain of
  \<open>cmd/gateway/main.go\<close>: correlation id, logging, recovery, security headers, metrics, body limit,
  authentication, rate limit, timeout, and then a route of \<open>internal/gateway/handler.go\<close>. A route calls
  the catalog or the scorer through \<open>httpx.Upstream\<close>, which puts every attempt under a circuit breaker
  and the attempts into a retry loop. The catalog has the same chain without the two checks of the
  edge, and handlers over a \<open>Repository\<close>, which is the in-memory store or PostgreSQL. The scorer is an
  application with one scoring route over a detector without state. Both Go services
  load their settings by \<open>config\<close>, answer the probes by \<open>health\<close>, and are served and drained by
  \<open>httpx.Serve\<close>.

  \<^bold>\<open>The theories and the code they model.\<close>
  \<^item> \<open>Prelude\<close>: instants and durations, Go's error values with \<open>errors.Is\<close> and \<open>errors.As\<close>, the functions
    of \<open>strings\<close> that the services call, and the locales \<open>stepping\<close> and \<open>progressing\<close> for runs of a state.
  \<^item> \<open>Float64\<close>: float64 as the rationals it represents, with rounding to nearest even after every
    operation, as on amd64, where Go fuses no operations. \<open>Ieee\<close>: the same numbers with infinities and NaN,
    where sums and quotients can overflow; the sign of zero and the payload of NaN are left out.
    \<open>Strconv\<close>: integers, booleans, hexadecimal, header names.
  \<^item> \<open>Breaker\<close> (\<open>resilience/breaker.go\<close>): one definition per method; a call of \<open>Do\<close> is its two locked
    sections around \<open>fn\<close>, and concurrent callers are interleavings of these sections.
  \<^item> \<open>Retry\<close> (\<open>resilience/retry.go\<close>): the loop with its backoff; the locale \<open>retry_effects\<close> carries an
    invariant of the world through it, and \<open>Upstream\<close> interprets it.
  \<^item> \<open>RateLimit\<close>, \<open>Limiter\<close> (\<open>gateway/ratelimit.go\<close>): buckets in float64 arithmetic, eviction, \<open>Retry-After\<close>; over the
    rationals, where the bounds are proved, and over binary64 with infinities and NaN, which the gateway
    runs and which refines it for finite rates.
  \<^item> \<open>Http\<close>, \<open>Middleware\<close> (\<open>httpx/response.go\<close>, \<open>httpx/middleware.go\<close>): requests, replies, the response
    recorder, every middleware, and the race between a handler and its deadline as a machine.
  \<^item> \<open>Mux\<close>: what the services use of \<open>net/http\<close>'s mux and of query strings.
  \<^item> \<open>Auth\<close> (\<open>gateway/auth.go\<close>): key store, key specification, authentication, rate limit middleware.
  \<^item> \<open>Catalog\<close>, \<open>Postgres\<close>, \<open>CatalogHttp\<close> (\<open>internal/catalog\<close>): devices, the two stores, the handlers. The
    locale \<open>device_store\<close> is the contract of a repository: what creating, reading and listing promise.
    It is interpreted on the in-memory store and on the SQL statements run by a table, and pagination
    is proved once inside it.
  \<^item> \<open>Upstream\<close> (\<open>httpx/client.go\<close>): attempts, breaker and retry composed as \<open>do\<close> composes them.
  \<^item> \<open>Outage\<close>: the client's calls against a network that is down, breaker and retry loop together.
  \<^item> \<open>Gateway\<close> (\<open>gateway/handler.go\<close>): the five routes over the state of both breakers and the limiter.
  \<^item> \<open>Config\<close> (\<open>config/config.go\<close>) with \<open>time.ParseDuration\<close>; \<open>Telemetry\<close> (\<open>telemetry\<close>): instruments, sampling.
  \<^item> \<open>Health\<close> (\<open>health/health.go\<close>): the registry and the three probes, with the goroutines of a readiness
    probe as a schedule.
  \<^item> \<open>Server\<close> (\<open>httpx/server.go\<close>): \<open>Serve\<close> as an inductive step relation of its goroutines with time.
  \<^item> \<open>Services\<close> (\<open>cmd/gateway\<close>, \<open>cmd/catalog\<close>): what the commands load, build and serve. The locale
    \<open>effects_apart\<close> says which part of the state a chain of middleware leaves alone.
  \<^item> \<open>Chains\<close>: what a request gets through these chains. A handler that \<open>serves\<close> a request in one way, and
    \<open>leaves\<close> a given state, still does so behind every layer; \<open>effects_beside\<close> extends \<open>effects_apart\<close> to what is left.
  \<^item> \<open>Signals\<close>: what the chains of both services tell the instruments of the HTTP layer. The locale \<open>registry\<close> is what
    the code relies on of Prometheus; it is interpreted on an environment that keeps the updates it sees.
  \<^item> \<open>Commands\<close> (the same files): \<open>main\<close>, what is served and under which span names, exit codes, and the
    deferred calls of the two processes.
  \<^item> \<open>Scoring\<close> (\<open>services/scorer/app/scoring.py\<close>): the detector in binary64 arithmetic, and a reference
    definition of its score over the rationals.
  \<^item> \<open>Scorer\<close> (\<open>config.py\<close>, \<open>metrics.py\<close>, \<open>main.py\<close>): settings, instruments, routes, middleware, life cycle.
  \<^item> \<open>ScorerLog\<close> (\<open>logging_config.py\<close>): the JSON formatter and the set-up of the loggers.
  \<^item> \<open>Platform\<close>: the services wired together, the transport of a client being the service behind it, with its
    whole chain. \<open>Registration\<close>: the same for a POST, and the state it leaves on both sides.
  \<^item> this theory: what the services give together.

  \<^bold>\<open>State and effects.\<close> Every component is a function of its state and of a world \<open>'w\<close>; the clock, the
  random source, sleeping, the network, the log and the metrics are functions of that world, so a
  theorem holds for every behaviour of them. A mutex-protected method is one step; where goroutines
  share state the theorems quantify over all interleavings. Errors are values of \<^typ>\<open>go_error\<close>, fallible
  calls return sums or options, and a panic is an ending of a handler's run.

  \<^bold>\<open>What is shown.\<close> Breaker: its invariant, the legal order of its notifications, when it trips, fails
  fast, recovers, and the bound on trials with its exact limit. Retry: termination within its attempts,
  its delays, no sleep past the deadline. Limiter: the bound on admissions, evictions included, up to float rounding,
  transparency of eviction, \<open>Retry-After\<close>. HTTP: which response a request gets under every schedule of a
  timeout, well-formed correlation ids. Catalog: normal forms, complete pagination, equality of the
  two stores, which details of driver errors are hidden, round trips through the routes. Client and gateway: what a
  call can return, that no handler dereferences nil, degraded scoring, no credential forwarded,
  requests without a key stop at the edge, buckets of other clients untouched, an outage that opens the
  breaker and ends the traffic. Scorer: the detector equals its reference on moderate readings, its
  scores are finite and in range, and outliers in the history cannot hide an anomaly. All three, through every
  layer of middleware and both routers: a lookup, a score, a registration that can be read back, each under the correlation id
  of its client; and request metrics that count exactly what clients receive. Operations: settings
  are refused or loaded, exit codes, probes over the life of a service, unready before unreachable, a
  shutdown that ends in bounded time and reports abandoned requests, no pool left open. And where the code does something else
  than it means to, theorems that say what it does: trials beyond their bound by as many as late calls end, panics that end
  the process, route labels that are never set, a status lost to a deadline, a second burst after an eviction, a rate of NaN that locks every client out, windows of readings with which one client stops scoring
  for all, recovered panics that no counter sees, log levels on which the two languages never agree.

  \<^bold>\<open>Bounds and fuel.\<close> No model uses fuel that can run out: the retry loop and the parser of durations
  terminate by a measure, trimming is bounded by the length of its string, pagination by the number of
  devices. \<open>Server\<close> lets time pass only up to the next instant its goroutine waits for, so its bound
  on a shutdown counts no scheduling delay, and it relies on \<open>Shutdown\<close> and the flush to respect their
  contexts, as they document.

  \<^bold>\<open>Parameters.\<close> The pgx driver and the database, JSON encoding and decoding, SHA-256, the HTTP transport,
  \<open>strconv.ParseFloat\<close>, \<open>%q\<close>, Unicode case mapping outside ASCII, the OTLP exporter, the wrapper of \<open>otelhttp\<close>,
  the framework of the scorer (its JSON codec and its answers to requests it refuses) and the
  iteration order of maps are arguments of the definitions that use them.

  \<^bold>\<open>Not modelled.\<close> The wrap-around of the breaker's counters, which are integers without a bound, and a failure ratio or
  jitter fraction that is NaN, which rationals do not express; the headers that the transport of \<open>otelhttp\<close> adds to a
  request; the interleaving of the checks of a readiness probe with each other, each of which is one step. The spans that \<open>otelhttp\<close> records beyond their names; the collectors of Prometheus and the text it
  exposes; the log lines of a shutdown; a status below 100 other than in the gateway's proxy, and informational
  statuses, which no handler sends; headers of a response on the way back through the gateway's client, which reads
  status and body only; \<open>json.dumps\<close>; and the blocking of the scorer's event loop while its signal handler sleeps. Terraform, Helm, Argo CD, dashboards and
  workflows are declarations for other tools.
\<close>

section \<open>The gateway in front of the catalog\<close>

text \<open>
  C9. A lookup through the whole platform answers what the catalog's store holds. A GET of a device
  passes the nine layers of the gateway's public chain, its router and its resilient client, and on the other side
  the chain, the router and the handler of the catalog. When the client is known and within its budget,
  the breaker closed and neither deadline passes, the answer is the stored device with 200, in the
  catalog's own encoding, or 404 with the gateway's problem. The response carries a correlation id, the
  client's own when that is valid, and the problem names the same id.
\<close>

theorem device_through_gateway:
  assumes "edge_open (net_env (gh_net g)) (h_get h) sha keys sched timeout c r s"
    and "catalog_reached g s enc (catalog_service h sz' logger' stack' sched' timeout' url')" "catalog_up h sched' timeout'"
    and "Method r = ''GET''" "Path r = ''/api/v1/devices/'' @ i" "idPattern i"
    and "repo_Get (h_repo h) i (h_get h (gw_base s)) = (res, st)" "case res of Inr _ \<Rightarrow> True | Inl e \<Rightarrow> errors_Is e ErrNotFound"
    and "\<And>rid p. snd (lookup_answer rid res) = ProblemBody p \<Longrightarrow> gh_problem g (enc (ProblemBody p)) = Inr p"
    and "\<And>rid. length (enc (snd (lookup_answer rid res))) < 4 * 2 ^ 20"
  shows "let x = fst (gateway_public (net_env (gh_net g)) sz logger stack sha keys sched timeout (ServeMux url (Gateway_Routes g)) r s);
             given = Header_Get (ReqHeader r) RequestIDHeader
    in ending x = Returned \<and> run_status x = (case res of Inr d \<Rightarrow> 200 | Inl e \<Rightarrow> 404) \<and> run_bodies x = lookup_bodies enc res (id_header x) \<and>
       (validRequestID given \<longrightarrow> id_header x = given)"
proof -
  obtain x s' where "gateway_public (net_env (gh_net g)) sz logger stack sha keys sched timeout (ServeMux url (Gateway_Routes g)) r s = (x, s')"
    by (rule prod.exhaust)
  with looked_up [OF assms this] show ?thesis by simp
qed

definition wit_clock :: "MemoryRepository Env" where
  "wit_clock = \<lparr>env_now = (\<lambda>w. (0, w)), env_rand16 = (\<lambda>w. (None, w)), env_emit = (\<lambda>_ w. w)\<rparr>"

definition wit_encode :: "catalog_json payload \<Rightarrow> string" where
  "wit_encode b = (case b of JSON (DeviceJSON d) \<Rightarrow> ID d | _ \<Rightarrow> ''{}'')"

definition wit_memory_state :: MemoryRepository where
  "wit_memory_state = snd (Catalog_Create wit_memory (wit_request ''POST'' ''/v1/devices'' Map.empty []) NewMemoryRepository)"

definition wit_service :: "(catalog_json, MemoryRepository) Handler" where
  "wit_service = catalog_service wit_memory (\<lambda>_. 1) [] [] (\<lambda>w. ([], w)) Second (\<lambda>p q. p)"

text \<open>The catalog client of a gateway whose network is the catalog over the in-memory store.\<close>

definition wit_stack :: "MemoryRepository Upstream \<times> MemoryRepository bstate" where
  "wit_stack = NewUpstream wit_clock (\<lambda>_. service_transport wit_encode wit_service ''http://catalog:8080'')
     \<lparr>uc_Name = ''catalog'', uc_BaseURL = ''http://catalog:8080'', uc_Timeout = 0,
      uc_Retry = \<lparr>MaxAttempts = 3, BaseDelay = 0, MaxDelay = 0, JitterFraction = 0, Rand = None, Sleep = None, OnRetry = None\<rparr>,
      uc_Breaker = gateway_breaker\<rparr> True [] wit_memory_state"

definition wit_front :: "(unit, MemoryRepository) GatewayHandler" where
  "wit_front = \<lparr>gh_up = \<lparr>Catalog = fst wit_stack, Scorer = fst wit_stack\<rparr>, degradeOnCatalogFailure = True,
     gh_net = \<lparr>net_env = wit_clock, net_rand = (\<lambda>w. (0, w)), net_wait = (\<lambda>_ w. (False, w)), net_bad_url = (\<lambda>_ _. None)\<rparr>,
     gh_decode = (\<lambda>_. Inl (ErrText ''eof'')), gh_marshal = (\<lambda>_ _. Inr ''{}''), gh_score = (\<lambda>_. Inl (ErrText ''eof'')),
     gh_problem = (\<lambda>_. Inl (ErrText ''eof'')), gh_valid = (\<lambda>_. True)\<rparr>"

definition wit_front_state :: "MemoryRepository gateway" where
  "wit_front_state = \<lparr>gw_catalog = fst (snd wit_stack), gw_scorer = fst (snd wit_stack),
     gw_limiter = fl_NewRateLimiter (env_now wit_clock) \<lparr>fl_RequestsPerSecond = Finite 1, fl_Burst = 1, fl_IdleTTL = 0, fl_Now = None\<rparr>,
     gw_base = wit_memory_state\<rparr>"

lemma Now_withDefaults: "Now (BreakerConfig_withDefaults tn c) = (if Now c = None then Some tn else Now c)"
  by (simp add: BreakerConfig_withDefaults_def Let_def)

lemma NewUpstream_breaker:
  "state (fst (snd (NewUpstream env mk c m lg w))) = StateClosed"
  "Now (cfg (fst (snd (NewUpstream env mk c m lg w)))) = (if Now (uc_Breaker c) = None then Some (env_now env) else Now (uc_Breaker c))"
  by (simp_all add: NewUpstream_def NewBreaker_def Now_withDefaults Let_def split_beta)

definition wit_stored_device :: Device where
  "wit_stored_device = wit_device\<lparr>ID := ''pump-7'', Name := ''Pump'', Site := ''north'', Kind := ''unknown'', CreatedAt := 5, UpdatedAt := 5\<rparr>"

lemma wit_memory_state: "wit_memory_state = \<lparr>devices = [(''pump-7'', wit_stored_device)], failPing = None\<rparr>"
  by (simp add: wit_memory_state_def wit_created wit_stored_device_def)

lemma wit_stored:
  "idPattern ''pump-7''"
  "repo_Get (h_repo wit_memory) ''pump-7'' (h_get wit_memory (gw_base wit_front_state)) = (Inr wit_stored_device, wit_memory_state)"
proof -
  show "idPattern ''pump-7''" by (simp add: idPattern_def id_first_def id_rest_def)
  show "repo_Get (h_repo wit_memory) ''pump-7'' (h_get wit_memory (gw_base wit_front_state)) = (Inr wit_stored_device, wit_memory_state)"
    by (simp add: memory_handler_def memory_repository_def Memory_Get_def wit_front_state_def wit_memory_state)
qed

lemma wit_front_parts:
  "net_env (gh_net wit_front) = wit_clock" "net_bad_url (gh_net wit_front) = (\<lambda>_ _. None)"
  "Catalog (gh_up wit_front) = fst wit_stack" "gw_catalog wit_front_state = fst (snd wit_stack)" "gw_scorer wit_front_state = fst (snd wit_stack)"
  by (simp_all only: wit_front_def wit_front_state_def GatewayHandler.select_convs Net.select_convs Upstreams.select_convs gateway.select_convs)

lemma wit_client: "up_client (fst wit_stack) = service_transport wit_encode wit_service (up_baseURL (fst wit_stack))"
  unfolding wit_stack_def NewUpstream_def Let_def split_beta by simp

lemma wit_breakers: "state (fst (snd wit_stack)) = StateClosed" "Now (cfg (fst (snd wit_stack))) = Some (env_now wit_clock)"
  unfolding wit_stack_def NewUpstream_breaker by (simp_all add: gateway_breaker_def)

lemma wit_catalog_up: "catalog_up wit_memory (\<lambda>w. ([], w)) Second"
  unfolding catalog_up_def effects_apart_def unhurried_def clock_within_def
  by (auto simp: memory_handler_def wit_handler_def intro: exI [of _ 0])

text \<open>A request with the key of the client \<open>web\<close> and a correlation id of its own.\<close>

definition wit_id :: string where
  "wit_id = ''00112233445566778899aabbccddeeff''"

definition wit_client_request :: "string \<Rightarrow> string \<Rightarrow> 'w Request" where
  "wit_client_request m p = wit_request m p [''X-Api-Key'' \<mapsto> [''k-1''], ''X-Request-Id'' \<mapsto> [wit_id]] []"

lemma wit_client_request:
  fixes m p :: string
  defines "r \<equiv> wit_client_request m p :: 'w Request"
  shows "Method r = m" "Path r = p" "Header_Get (ReqHeader r) RequestIDHeader = wit_id"
  "validRequestID wit_id" "live_ctx (Ctx r)" "known_as (\<lambda>k. k) wit_keys ''web'' r"
proof -
  have c: "CanonicalHeaderKey RequestIDHeader = ''X-Request-Id''" "TrimSpace ''k-1'' = ''k-1''" by code_simp+
  show "Header_Get (ReqHeader r) RequestIDHeader = wit_id"
    by (simp add: r_def wit_client_request_def wit_request_def Header_Get_def c)
  have "presentedKey r = ''k-1''"
    unfolding presentedKey_def Header_Get_def canonical_names by (simp add: r_def wit_client_request_def wit_request_def c)
  then show "known_as (\<lambda>k. k) wit_keys ''web'' r" by (simp add: known_as_def wit_keys_lookup)
  show "validRequestID wit_id" by code_simp
qed (simp_all add: r_def wit_client_request_def wit_request_def live_ctx_def)

lemma wit_edge: "edge_open wit_clock (h_get wit_memory) (\<lambda>k. k) wit_keys (\<lambda>w. ([], w)) Second ''web'' (wit_client_request m p) wit_front_state"
proof -
  have "admits (gw_limiter wit_front_state) ''web''"
    by (rule fresh_admits) (simp_all add: wit_front_state_def fl_NewRateLimiter_def float64_of_int_def Let_def)
  moreover have "fl_now (gw_limiter wit_front_state) = env_now wit_clock" by (simp add: wit_front_state_def fl_NewRateLimiter_def Let_def)
  moreover have "effects_apart wit_clock (h_get wit_memory)" "unhurried wit_clock (\<lambda>w. ([], w)) Second"
    unfolding effects_apart_def unhurried_def clock_within_def by (auto simp: wit_clock_def intro: exI [of _ 0])
  ultimately show ?thesis by (simp add: edge_open_def wit_client_request)
qed

lemma wit_reached:
  "catalog_reached wit_front wit_front_state wit_encode (catalog_service wit_memory (\<lambda>_. 1) [] [] (\<lambda>w. ([], w)) Second (\<lambda>p q. p))"
  unfolding catalog_reached_def wit_front_parts using wit_client wit_breakers by (simp add: wit_service_def)

lemma device_through_gateway_witness:
  "run_bodies (fst (gateway_public wit_clock (\<lambda>_. 1) [] [] (\<lambda>k. k) wit_keys (\<lambda>w. ([], w)) Second (ServeMux (\<lambda>p q. p) (Gateway_Routes wit_front))
     (wit_client_request ''GET'' (''/api/v1/devices/'' @ ''pump-7'')) wit_front_state)) = [Raw ''pump-7'']"
proof -
  let ?r = "wit_client_request ''GET'' (''/api/v1/devices/'' @ ''pump-7'') :: MemoryRepository gateway Request"
  have e: "edge_open (net_env (gh_net wit_front)) (h_get wit_memory) (\<lambda>k. k) wit_keys (\<lambda>w. ([], w)) Second ''web'' ?r wit_front_state"
    unfolding wit_front_parts by (rule wit_edge)
  from device_through_gateway [OF e wit_reached wit_catalog_up wit_client_request(1,2) wit_stored, of "\<lambda>_. 1" "[]" "[]" "\<lambda>p q. p"]
  show ?thesis by (simp add: lookup_answer_def lookup_bodies_def wit_encode_def wit_stored_device_def wit_front_parts Let_def)
qed

section \<open>What was registered can be read\<close>

text \<open>
  C8. A client reads back what it registered. A POST of a device that the catalog accepts, through the gateway's
  public chain, router and client and the catalog's chain, router, handler and store, is answered 201 with
  the stored device; and a GET of its id afterwards, through all of them again, is answered 200 with exactly
  the same body.
\<close>

theorem registered_device_readable:
  assumes "catalog_reached g s enc (catalog_service (memory_handler h now order get put) sz' logger' stack' sched' timeout' url')"
    and "catalog_up (memory_handler h now order get put) sched' timeout'"
    and "\<And>m w. get (put m w) = m" "\<And>w. get (snd (sched w)) = get w" "\<And>w. get (snd (sched' w)) = get w" "memory_ok (get (gw_base s))"
    and "edge_open (net_env (gh_net g)) get sha keys sched timeout c r s" "Method r = ''POST''" "Path r = ''/api/v1/devices''"
    and "ReadAll (MaxBytesReader (2 ^ 20) (Body r)) = Inr body" "body \<noteq> []"
    and "h_decode h (MaxBytesReader (256 * 2 ^ 10) \<lparr>content = body, maxBytes = None\<rparr>) = Inr d0"
    and "Memory_Create (h_uni h) (now (get (gw_base s))) (d0\<lparr>CreatedAt := zeroTime, UpdatedAt := zeroTime\<rparr>) (get (gw_base s)) = (Inr d, m)"
    and "length (enc (JSON (DeviceJSON d))) < 4 * 2 ^ 20"
    and "gateway_public (net_env (gh_net g)) sz logger stack sha keys sched timeout (ServeMux url (Gateway_Routes g)) r s = (x, s1)"
    and "edge_open (net_env (gh_net g)) get sha keys sched timeout c' r' s1" "Method r' = ''GET''" "Path r' = ''/api/v1/devices/'' @ ID d"
    and "gateway_public (net_env (gh_net g)) sz logger stack sha keys sched timeout (ServeMux url (Gateway_Routes g)) r' s1 = (y, s2)"
  shows "run_status x = 201 \<and> run_bodies x = [Raw (enc (JSON (DeviceJSON d)))] \<and> run_status y = 200 \<and> run_bodies y = run_bodies x"
proof -
  let ?h = "memory_handler h now order get put"
  have h: "h_get ?h = get" "h_put ?h = put" "h_decode ?h = h_decode h" "h_repo ?h = memory_repository (h_uni h) now order"
    by (simp_all add: memory_handler_def)
  have create: "repo_Create (memory_repository (h_uni h) now order) (d0\<lparr>CreatedAt := zeroTime, UpdatedAt := zeroTime\<rparr>) (get (gw_base s)) = (Inr d, m)"
    using assms(13) by (simp add: memory_repository_def)
  note post = registered [where h = ?h, unfolded h, OF assms(7,4,1,2,5,3,8-12) create assms(14,15)]
  from mem.create_inserts [OF assms(6) create] have m: "memory_ok m" "memory_content m (ID d) = Some d" by (blast, simp)
  then have i: "idPattern (ID d)" using memory_keyed [OF m(1)] unfolding keyed_def by metis
  have got: "repo_Get (memory_repository (h_uni h) now order) (ID d) (get (gw_base s1)) = (Inr d, m)"
    using m(2) by (simp add: post(3) memory_repository_def Memory_Get_def memory_content_def)
  note lookup = looked_up [where h = ?h, unfolded h, OF assms(16) post(4) assms(2,17,18) i got _ _ _ assms(19)]
  have "run_status y = 200" by (rule trans [OF lookup(2)]) (use assms(14) in \<open>simp_all add: lookup_answer_def\<close>)
  moreover have "run_bodies y = [Raw (enc (JSON (DeviceJSON d)))]"
    by (rule trans [OF lookup(3)]) (use assms(14) in \<open>simp_all add: lookup_answer_def lookup_bodies_def\<close>)
  ultimately show ?thesis using post(1,2) by simp
qed

text \<open>Two clients, and a catalog that has no device yet.\<close>

definition wit_two :: APIKeyStore where
  "wit_two = NewAPIKeyStore (\<lambda>k. k) [(''web'', ''k-1''), (''ops'', ''k-2'')]"

definition wit_from :: "string \<Rightarrow> string \<Rightarrow> string \<Rightarrow> 'w Request" where
  "wit_from key m p = wit_request m p [''X-Api-Key'' \<mapsto> [key]] ''{}''"

lemma wit_from:
  fixes m p :: string
  shows "Method (wit_from key m p :: 'w Request) = m" "Path (wit_from key m p :: 'w Request) = p" "live_ctx (Ctx (wit_from key m p :: 'w Request))"
    "known_as (\<lambda>k. k) wit_two ''web'' (wit_from ''k-1'' m p :: 'w Request)" "known_as (\<lambda>k. k) wit_two ''ops'' (wit_from ''k-2'' m p :: 'w Request)"
proof -
  have t: "TrimSpace ''k-1'' = ''k-1''" "TrimSpace ''k-2'' = ''k-2''" "Len wit_two \<noteq> 0"
    "Lookup (\<lambda>k. k) wit_two ''k-1'' = (''web'', True)" "Lookup (\<lambda>k. k) wit_two ''k-2'' = (''ops'', True)" by code_simp+
  have "presentedKey (wit_from key m p :: 'w Request) = TrimSpace key" for key
    unfolding presentedKey_def Header_Get_def canonical_names by (simp add: wit_from_def wit_request_def)
  then show "known_as (\<lambda>k. k) wit_two ''web'' (wit_from ''k-1'' m p :: 'w Request)" "known_as (\<lambda>k. k) wit_two ''ops'' (wit_from ''k-2'' m p :: 'w Request)"
    by (simp_all add: known_as_def t)
qed (simp_all add: wit_from_def wit_request_def live_ctx_def)

definition wit_empty :: "MemoryRepository gateway" where
  "wit_empty = wit_front_state\<lparr>gw_base := NewMemoryRepository\<rparr>"

lemma wit_empty_edge:
  assumes "known_as (\<lambda>k. k) wit_two c r" "live_ctx (Ctx r)" "bucket_view c s = bucket_view c wit_empty"
  shows "edge_open wit_clock (\<lambda>w. w) (\<lambda>k. k) wit_two (\<lambda>w. ([], w)) Second c r s"
proof -
  have l: "fl_buckets (gw_limiter wit_empty) c = None" "fl_burst (gw_limiter wit_empty) = Finite 1" "fl_now (gw_limiter wit_empty) = env_now wit_clock"
    by (simp_all add: wit_empty_def wit_front_state_def fl_NewRateLimiter_def float64_of_int_def Let_def)
  then have "admits (gw_limiter s) c" "fl_now (gw_limiter s) = env_now wit_clock"
    using assms(3) by (auto simp: bucket_view_def intro: fresh_admits)
  moreover have "effects_apart wit_clock (\<lambda>w. w)" "unhurried wit_clock (\<lambda>w. ([], w)) Second"
    unfolding effects_apart_def unhurried_def clock_within_def by (auto simp: wit_clock_def intro: exI [of _ 0])
  ultimately show ?thesis using assms(1,2) by (simp add: edge_open_def)
qed

lemma registered_device_readable_witness:
  "\<exists>x s1 y s2.
     gateway_public wit_clock (\<lambda>_. 1) [] [] (\<lambda>k. k) wit_two (\<lambda>w. ([], w)) Second (ServeMux (\<lambda>p q. p) (Gateway_Routes wit_front))
       (wit_from ''k-1'' ''POST'' ''/api/v1/devices'') wit_empty = (x, s1) \<and>
     gateway_public wit_clock (\<lambda>_. 1) [] [] (\<lambda>k. k) wit_two (\<lambda>w. ([], w)) Second (ServeMux (\<lambda>p q. p) (Gateway_Routes wit_front))
       (wit_from ''k-2'' ''GET'' (''/api/v1/devices/'' @ ''pump-7'')) s1 = (y, s2) \<and>
     run_status x = 201 \<and> run_status y = 200 \<and> run_bodies y = [Raw ''pump-7'']"
proof -
  let ?front = "gateway_public wit_clock (\<lambda>_. 1) [] [] (\<lambda>k. k) wit_two (\<lambda>w. ([], w)) Second (ServeMux (\<lambda>p q. p) (Gateway_Routes wit_front))"
  let ?r = "wit_from ''k-1'' ''POST'' ''/api/v1/devices'' :: MemoryRepository gateway Request"
  let ?r' = "wit_from ''k-2'' ''GET'' (''/api/v1/devices/'' @ ''pump-7'') :: MemoryRepository gateway Request"
  obtain x s1 where x: "?front ?r wit_empty = (x, s1)" by (rule prod.exhaust)
  obtain y s2 where y: "?front ?r' s1 = (y, s2)" by (rule prod.exhaust)
  have "bucket_view ''ops'' (snd (?front ?r wit_empty)) = bucket_view ''ops'' wit_empty" by (rule bucket_kept [OF wit_from(4)]) simp
  then have "bucket_view ''ops'' s1 = bucket_view ''ops'' wit_empty" unfolding x by simp
  then have e: "edge_open (net_env (gh_net wit_front)) (\<lambda>w. w) (\<lambda>k. k) wit_two (\<lambda>w. ([], w)) Second ''ops'' ?r' s1"
    "edge_open (net_env (gh_net wit_front)) (\<lambda>w. w) (\<lambda>k. k) wit_two (\<lambda>w. ([], w)) Second ''web'' ?r wit_empty"
    unfolding wit_front_parts by (intro wit_empty_edge wit_from; simp)+
  have c: "catalog_reached wit_front wit_empty wit_encode (catalog_service wit_memory (\<lambda>_. 1) [] [] (\<lambda>w. ([], w)) Second (\<lambda>p q. p))"
    using wit_reached by (simp add: catalog_reached_def wit_empty_def)
  have create: "Memory_Create (h_uni wit_handler) 5 (wit_device\<lparr>CreatedAt := zeroTime, UpdatedAt := zeroTime\<rparr>) NewMemoryRepository =
      (Inr wit_stored_device, wit_memory_state)"
  proof -
    have "Validate (\<lambda>s. s) (wit_device\<lparr>CreatedAt := zeroTime, UpdatedAt := zeroTime\<rparr>) = (None,
        wit_device\<lparr>ID := ''pump-7'', Name := ''Pump'', Site := ''north'', Kind := ''unknown'', CreatedAt := zeroTime, UpdatedAt := zeroTime\<rparr>)"
      by code_simp
    then show ?thesis
      by (simp add: wit_memory_state wit_stored_device_def wit_handler_def Memory_Create_def NewMemoryRepository_def Let_def)
  qed
  have "run_status x = 201 \<and> run_bodies x = [Raw (wit_encode (JSON (DeviceJSON wit_stored_device)))] \<and> run_status y = 200 \<and> run_bodies y = run_bodies x"
    by (rule registered_device_readable [OF c wit_catalog_up _ _ _ _ e(2) wit_from(1,2) _ _ _ _ _ _ e(1) wit_from(1),
          where body = "''{}''" and ?d0.0 = wit_device and m = wit_memory_state and sz = "\<lambda>_. 1" and logger = "[]" and stack = "[]" and url = "\<lambda>p q. p" and ?s2.0 = s2])
      (use x y create in \<open>simp_all add: memory_ok_new wit_empty_def wit_from wit_from_def wit_request_def ReadAll_def MaxBytesReader_def
          wit_front_parts wit_handler_def wit_stored_device_def wit_encode_def\<close>)
  then show ?thesis using x y by (auto simp: wit_encode_def wit_stored_device_def)
qed

section \<open>Scores through all three services\<close>

text \<open>A gateway over the catalog of the in-memory store and a scorer; its codecs know one window.\<close>

definition wit_app :: "rat list \<Rightarrow> MemoryRepository ScorerApp" where
  "wit_app xs = \<lparr>sa_settings = \<lparr>se_service_name = ''scorer'', se_version = ''dev'', se_environment = ''local'', se_log_level = ''info'',
       se_port = 8080, se_workers = 1, se_anomaly_threshold = Finite (7/2), se_drain_delay_seconds = Finite 5, se_expose_openapi = False\<rparr>,
     sa_decode = (\<lambda>_. Some (''pump-7'', map Finite xs)), sa_allow_nan = False, sa_invalid = json_response 422 (FrameworkBody []),
     sa_unmatched = (\<lambda>_. (''unmatched'', json_response 404 (FrameworkBody []))), sa_emit = (\<lambda>_ w. w), sa_perf_counter = (\<lambda>w. (0, w))\<rparr>"

definition wit_crash :: HttpResponse where
  "wit_crash = \<lparr>StatusCode = 500, resp_bytes = ''Internal Server Error'', resp_fault = None\<rparr>"

definition wit_scorer :: "rat list \<Rightarrow> MemoryRepository Upstream" where
  "wit_scorer xs = (fst wit_stack)\<lparr>up_name := ''scorer'', up_baseURL := ''http://scorer:8080'',
     up_client := scorer_transport (\<lambda>_. ''{}'') wit_crash (wit_app xs) \<lparr>ps_started = True, ps_draining = False\<rparr> ''http://scorer:8080''\<rparr>"

definition wit_scoring :: "MemoryRepository Upstream \<Rightarrow> rat list \<Rightarrow> (float64, MemoryRepository) GatewayHandler" where
  "wit_scoring catalog xs = \<lparr>gh_up = \<lparr>Catalog = catalog, Scorer = wit_scorer xs\<rparr>, degradeOnCatalogFailure = True, gh_net = gh_net wit_front,
     gh_decode = (\<lambda>_. Inr \<lparr>sr_DeviceID = ''pump-7'', sr_Readings = map Finite xs\<rparr>), gh_marshal = (\<lambda>_ _. Inr ''{}''),
     gh_score = (\<lambda>_. case score_window (map Finite xs) (Finite (7/2)) of
        Inr res \<Rightarrow> Inr (sc_score res, sc_anomaly res) | Inl _ \<Rightarrow> Inl (ErrText ''eof'')),
     gh_problem = (\<lambda>_. Inl (ErrText ''eof'')), gh_valid = (\<lambda>_. True)\<rparr>"

text \<open>
  C7. Scoring from end to end. A scoring request of a known client within its budget, for a registered device and
  with one to 4096 moderate readings, passes the gateway's public chain and router, the catalog's chain, router,
  handler and store, and the scorer's application: the answer is 200 with the detector's verdict for exactly the
  readings of the request, a finite score in range, the device in the catalog's encoding, not marked as
  degraded, under the client's correlation id. The JSON codecs are assumed to carry readings and verdicts
  unchanged.
\<close>

theorem score_through_gateway:
  assumes "edge_open (net_env (gh_net g)) (h_get h) sha keys sched timeout c r s"
    and "catalog_reached g s enc (catalog_service h sz' logger' stack' sched' timeout' url')" "catalog_up h sched' timeout'"
    and "scorer_reached g s encS crash app ps"
    and "Method r = ''POST''" "Path r = ''/api/v1/readings/score''"
    and "codecs_carry g app encS (MaxBytesReader (2 ^ 20) (Body r)) i (map Finite xs)"
    and "idPattern i" "repo_Get (h_repo h) i (h_get h (gw_base s)) = (Inr dev, st)"
    and "xs \<noteq> []" "length xs \<le> 4096" "\<And>x. x \<in> set xs \<Longrightarrow> moderate x"
    and "se_anomaly_threshold (sa_settings app) = Finite t" "\<bar>t\<bar> < 2 ^ 1024"
    and "length (enc (JSON (DeviceJSON dev))) < 4 * 2 ^ 20" "gh_valid g (enc (JSON (DeviceJSON dev)))"
  shows "let x = fst (gateway_public (net_env (gh_net g)) sz logger stack sha keys sched timeout (ServeMux url (Gateway_Routes g)) r s);
             given = Header_Get (ReqHeader r) RequestIDHeader
    in ending x = Returned \<and> run_status x = 200 \<and> (validRequestID given \<longrightarrow> id_header x = given) \<and>
       (\<exists>res score. score_window (map Finite xs) (Finite t) = Inr res \<and> sc_score res = Finite score \<and> 0 \<le> score \<and> score \<le> 1000 \<and>
          run_bodies x = [scored i res (enc (JSON (DeviceJSON dev)))])"
proof -
  let ?r = "r\<lparr>Body := MaxBytesReader (2 ^ 20) (Body r)\<rparr>"
  obtain res where res: "score_window (map Finite xs) (Finite t) = Inr res" "encodable res"
    and score: "\<exists>score. sc_score res = Finite score \<and> 0 \<le> score \<and> score \<le> 1000"
    by (rule moderate_scored [OF assms(10-12,14)])
  have apart: "h_get h (snd (env_now (net_env (gh_net g)) w)) = h_get h w" for w
    using assms(1) effects_apart.now_apart unfolding edge_open_def by metis
  have "serves ?r (behind (h_get h)) (behind (h_get h) s) 200 (\<lambda>_. [scored i res (enc (JSON (DeviceJSON dev)))]) (ServeMux url (Gateway_Routes g))"
    by (rule score_serves [OF assms(2-4) apart _ _ _ assms(8-11) _ res(2) assms(15,16)]) (use assms(5-7,13) res(1) in simp_all)
  from gateway_public_serves [OF assms(1) this, of sz logger stack] res(1) score show ?thesis unfolding Let_def by metis
qed

definition wit_window :: "rat list" where
  "wit_window = [20, 21, 19, 20, 22, 20, 21, 95]"

lemma score_through_gateway_witness:
  "\<exists>res score. score_window (map Finite wit_window) (Finite (7/2)) = Inr res \<and> sc_score res = Finite score \<and>
     run_bodies (fst (gateway_public wit_clock (\<lambda>_. 1) [] [] (\<lambda>k. k) wit_keys (\<lambda>w. ([], w)) Second
       (ServeMux (\<lambda>p q. p) (Gateway_Routes (wit_scoring (fst wit_stack) wit_window))) (wit_client_request ''POST'' ''/api/v1/readings/score'') wit_front_state)) =
       [scored ''pump-7'' res ''pump-7'']"
proof -
  let ?r = "wit_client_request ''POST'' ''/api/v1/readings/score'' :: MemoryRepository gateway Request" and ?g = "wit_scoring (fst wit_stack) wit_window"
  have m: "moderate x" if "x \<in> set wit_window" for x
    using that moderate_of_int [of 19] moderate_of_int [of 20] moderate_of_int [of 21] moderate_of_int [of 22] moderate_of_int [of 95]
    by (auto simp: wit_window_def)
  have t: "\<bar>7/2\<bar> < (2 :: rat) ^ 1024" using power_increasing [of 2 1024 "2 :: rat"] by simp
  have g: "Catalog (gh_up ?g) = fst wit_stack" "Scorer (gh_up ?g) = wit_scorer wit_window" "gh_net ?g = gh_net wit_front" "net_env (gh_net ?g) = wit_clock"
    by (simp_all add: wit_scoring_def wit_front_parts)
  have dev: "wit_encode (JSON (DeviceJSON wit_stored_device)) = ''pump-7''" by (simp add: wit_encode_def wit_stored_device_def)
  have e: "edge_open (net_env (gh_net ?g)) (h_get wit_memory) (\<lambda>k. k) wit_keys (\<lambda>w. ([], w)) Second ''web'' ?r wit_front_state"
    unfolding g(4) by (rule wit_edge)
  have c: "catalog_reached ?g wit_front_state wit_encode (catalog_service wit_memory (\<lambda>_. 1) [] [] (\<lambda>w. ([], w)) Second (\<lambda>p q. p))"
    using wit_reached unfolding catalog_reached_def g wit_front_parts .
  have sc: "scorer_reached ?g wit_front_state (\<lambda>_. ''{}'') wit_crash (wit_app wit_window) \<lparr>ps_started = True, ps_draining = False\<rparr>"
    unfolding scorer_reached_def g wit_front_parts wit_scorer_def using wit_breakers by simp
  have codecs: "codecs_carry ?g (wit_app wit_window) (\<lambda>_. ''{}'') (MaxBytesReader (2 ^ 20) (Body ?r)) ''pump-7'' (map Finite wit_window)"
    by (simp add: codecs_carry_def wit_scoring_def wit_app_def)
  have side: "wit_window \<noteq> []" "length wit_window \<le> 4096" "se_anomaly_threshold (sa_settings (wit_app wit_window)) = Finite (7/2)"
    "length (wit_encode (JSON (DeviceJSON wit_stored_device))) < 4 * 2 ^ 20" "gh_valid ?g (wit_encode (JSON (DeviceJSON wit_stored_device)))"
    by (simp_all add: wit_window_def wit_app_def dev wit_scoring_def)
  from score_through_gateway [OF e c wit_catalog_up sc wit_client_request(1,2) codecs wit_stored side(1,2) m side(3) t side(4,5),
      where sz = "\<lambda>_. 1" and logger = "[]" and stack = "[]" and url = "\<lambda>p q. p"]
  show ?thesis unfolding dev g(4) Let_def by blast
qed

text \<open>
  C18. One client can stop scoring for everyone. A window whose first readings overflow the median passes
  every check of both services, and the scorer raises when it encodes the score, which is not a number.
  The gateway counts the failure against the scorer: after as many such requests as the breaker's
  minimum, each answered 503, the breaker is open, and until its timeout no request of any client for any
  device is answered with a score.
\<close>

theorem poison_opens_breaker:
  assumes "up_client (Scorer (gh_up g)) = scorer_transport enc crash app ps (up_baseURL (Scorer (gh_up g)))"
    and "500 \<le> StatusCode crash" "\<not> sa_allow_nan app" "degradeOnCatalogFailure g"
    and "gw_inv s" "state (gw_scorer s) = StateClosed" "successes (gw_scorer s) = 0"
    and "failures (gw_scorer s) < MinimumRequests (cfg (gw_scorer s))" "t0 \<le> windowStart (gw_scorer s)"
    and "clock_within (br_Now (gw_scorer s)) t0 d" "d \<le> Window (cfg (gw_scorer s))" "d \<le> OpenTimeout (cfg (gw_scorer s))"
    and "list_all (poison g app) rs" "MinimumRequests (cfg (gw_scorer s)) \<le> int (length rs)"
    and "score_all g rs s = (xs, s')"
  shows "list_all (\<lambda>x. run_status x = 503) xs \<and> state (gw_scorer s') = StateOpen \<and>
    (\<forall>r. (\<forall>s. ctx_Err (std (Ctx r)) s = None) \<longrightarrow> run_status (fst (ScoreReading g r s')) \<in> {400, 404, 500, 503})"
proof -
  let ?c = "cfg (gw_scorer s)"
  have inv: "breaker_inv (gw_scorer s)" using assms(5) by (simp add: gw_inv_def)
  then have c: "config_ok ?c" "short_for ?c d" using assms(11,12) by (simp_all add: breaker_inv_def short_for_def)
  have "failing ?c t0 0 (gw_scorer s)" using inv assms(6-9) by (rule failing_fresh)
  from poison_run [OF this assms(10) c(2,1) assms(5,1-4,13,15)]
  have r: "list_all (\<lambda>x. run_status x = 503) xs" "failing ?c t0 (int (length rs)) (gw_scorer s')" "gw_inv s'" by simp_all
  have o: "state (gw_scorer s') = StateOpen" using r(2) assms(14) by (rule failing_minimum)
  then show ?thesis using r(1) open_scorer_no_score [OF r(2) o assms(10) c(2,1) r(3)] by blast
qed


definition wit_huge :: rat where
  "wit_huge = 2 ^ 1023"

definition wit_poison :: "rat list" where
  "wit_poison = replicate 8 wit_huge @ [1]"

definition wit_registered :: "MemoryRepository Upstream" where
  "wit_registered = (fst wit_stack)\<lparr>up_client := (\<lambda>_ w. (Inr \<lparr>StatusCode = 200, resp_bytes = ''{}'', resp_fault = None\<rparr>, w))\<rparr>"

lemma wit_fresh:
  "breaker_inv (fst (snd wit_stack))" "successes (fst (snd wit_stack)) = 0" "failures (fst (snd wit_stack)) = 0"
  "windowStart (fst (snd wit_stack)) = 0" "MinimumRequests (cfg (fst (snd wit_stack))) = 20"
  "Window (cfg (fst (snd wit_stack))) = 30 * Second" "OpenTimeout (cfg (fst (snd wit_stack))) = 15 * Second"
proof -
  show "breaker_inv (fst (snd wit_stack))" unfolding wit_stack_def NewUpstream_def Let_def split_beta by (simp add: NewBreaker_inv)
qed (simp_all add: wit_stack_def NewUpstream_def NewBreaker_def BreakerConfig_withDefaults_def gateway_breaker_def wit_clock_def Let_def split_beta)

lemma wit_poison_request:
  "poison (wit_scoring wit_registered wit_poison) (wit_app wit_poison) (wit_request ''POST'' ''/api/v1/readings/score'' Map.empty [])"
proof -
  have "1 \<le> py_len ''pump-7'' \<and> py_len ''pump-7'' \<le> 64" by (rule idPattern_py_len) (rule wit_stored)
  moreover have "list_all oversized (replicate 8 wit_huge)" unfolding oversized_def list_all_iff wit_huge_def [symmetric] by auto
  moreover have "knows (wit_scoring wit_registered wit_poison) ''pump-7''" by (simp add: knows_def wit_scoring_def wit_registered_def)
  ultimately show ?thesis unfolding poison_def
    by (intro exI [of _ "''pump-7''"] exI [of _ "replicate 8 wit_huge"] exI [of _ 1] exI [of _ "''{}''"])
      (simp only: wit_scoring_def wit_app_def wit_poison_def wit_request_def GatewayHandler.select_convs ScorerApp.select_convs
        Request.select_convs RequestContext.select_convs Context.select_convs length_replicate, simp)
qed

lemma poison_opens_breaker_witness:
  "\<exists>xs s'. score_all (wit_scoring wit_registered wit_poison) (replicate 20 (wit_request ''POST'' ''/api/v1/readings/score'' Map.empty []))
      wit_front_state = (xs, s') \<and> state (gw_scorer s') = StateOpen \<and> list_all (\<lambda>x. run_status x = 503) xs"
proof -
  let ?g = "wit_scoring wit_registered wit_poison" and ?rs = "replicate 20 (wit_request ''POST'' ''/api/v1/readings/score'' Map.empty [])"
  obtain xs s' where e: "score_all ?g ?rs wit_front_state = (xs, s')" by (rule prod.exhaust)
  have sc: "up_client (Scorer (gh_up ?g)) = scorer_transport (\<lambda>_. ''{}'') wit_crash (wit_app wit_poison) \<lparr>ps_started = True, ps_draining = False\<rparr>
      (up_baseURL (Scorer (gh_up ?g)))" by (simp add: wit_scoring_def wit_scorer_def)
  have p: "list_all (poison ?g (wit_app wit_poison)) ?rs" unfolding list_all_iff using wit_poison_request by auto
  have "list_all (\<lambda>x. run_status x = 503) xs \<and> state (gw_scorer s') = StateOpen \<and>
      (\<forall>r. (\<forall>s. ctx_Err (std (Ctx r)) s = None) \<longrightarrow> run_status (fst (ScoreReading ?g r s')) \<in> {400, 404, 500, 503})"
    by (rule poison_opens_breaker [OF sc _ _ _ _ _ _ _ _ _ _ _ p _ e, where ?t0.0 = 0 and d = 1])
      (simp_all add: wit_front_parts wit_fresh wit_breakers wit_crash_def wit_app_def wit_scoring_def gw_inv_def clock_within_def wit_clock_def)
  with e show ?thesis by blast
qed

end
